(* ===== verification/JsRuntime.thy ===== *)
theory JsRuntime
  imports Main "HOL-Library.Word" "HOL-Library.Multiset" "HOL-Library.List_Lexorder" "HOL-Library.Char_ord"
begin

unbundle bit_operations_syntax

text \<open>
  The part of the JavaScript runtime the frontend relies on, and the lemmas every component
  shares: strings (trimming, ASCII case mapping, slices, hexadecimal and decimal numerals,
  \<^verbatim>\<open>parseInt\<close>), the insertion-ordered \<^verbatim>\<open>Map\<close>, the stable \<^verbatim>\<open>Array.sort\<close>, bounded
  buffers, and runs of a transition function.

  Strings are lists of characters, one per UTF-16 code unit below 256. White space is the
  white space of the ECMAScript standard in that range. The case mappings are those of the
  ASCII letters, the alphabet of the hexadecimal identifiers the program compares.
  A value that may be \<^verbatim>\<open>null\<close> or \<^verbatim>\<open>undefined\<close> is an option. A value for which the code tells
  the two apart is an option of an option: \<open>None\<close> is \<^verbatim>\<open>undefined\<close>, \<open>Some None\<close> is \<^verbatim>\<open>null\<close>.
\<close>

named_theorems js_map_simps "equations of the insertion-ordered map"
named_theorems js_hex_simps "round trips between bytes and hexadecimal text"
named_theorems js_inv "operations that keep a component's invariant"

type_synonym ('k, 'v) jsmap = "('k \<times> 'v) list"

section \<open>Strings\<close>

definition js_space :: "char \<Rightarrow> bool" where
  "js_space c \<longleftrightarrow> of_char c \<in> {9, 10, 11, 12, 13, 32, 160 :: nat}"

definition js_trim :: "string \<Rightarrow> string" where
  "js_trim s = rev (dropWhile js_space (rev (dropWhile js_space s)))"

definition upper_char :: "char \<Rightarrow> char" where
  "upper_char c = (let n = of_char c :: nat in if 97 \<le> n \<and> n \<le> 122 then char_of (n - 32) else c)"

definition lower_char :: "char \<Rightarrow> char" where
  "lower_char c = (let n = of_char c :: nat in if 65 \<le> n \<and> n \<le> 90 then char_of (n + 32) else c)"

definition to_upper :: "string \<Rightarrow> string" where
  "to_upper = map upper_char"

definition to_lower :: "string \<Rightarrow> string" where
  "to_lower = map lower_char"

definition starts_with :: "string \<Rightarrow> string \<Rightarrow> bool" where
  "starts_with s p \<longleftrightarrow> take (length p) s = p"

text \<open>\<open>js_slice a b s\<close> is \<^verbatim>\<open>s.slice(a, b)\<close> for non-negative bounds, on strings and on arrays.\<close>

definition js_slice :: "nat \<Rightarrow> nat \<Rightarrow> 'a list \<Rightarrow> 'a list" where
  "js_slice a b s = drop a (take b s)"

text \<open>\<^verbatim>\<open>xs.slice(i)\<close>: a negative index counts from the end.\<close>

definition slice_from :: "int \<Rightarrow> 'a list \<Rightarrow> 'a list" where
  "slice_from i xs =
     (if i < 0 then drop (nat (max 0 (int (length xs) + i))) xs else drop (nat i) xs)"

fun join :: "string \<Rightarrow> string list \<Rightarrow> string" where
  "join sep [] = []"
| "join sep [x] = x"
| "join sep (x # y # ys) = x @ sep @ join sep (y # ys)"

text \<open>\<^verbatim>\<open>a || b\<close> where \<open>a\<close> may be \<^verbatim>\<open>null\<close>, \<^verbatim>\<open>undefined\<close> or the empty (falsy) string.\<close>

definition or_null :: "string option \<Rightarrow> string option" where
  "or_null s = (case s of Some t \<Rightarrow> if t = [] then None else Some t | None \<Rightarrow> None)"

definition coalesce :: "'a option \<Rightarrow> 'a \<Rightarrow> 'a" where
  "coalesce a b = (case a of None \<Rightarrow> b | Some x \<Rightarrow> x)"

subsection \<open>Numerals\<close>

definition hex_digit :: "nat \<Rightarrow> char" where
  "hex_digit n = (if n < 10 then char_of (48 + n) else char_of (87 + n))"

text \<open>The digits of \<^verbatim>\<open>n.toString(b)\<close>, most significant first.\<close>

fun digits_base :: "nat \<Rightarrow> nat \<Rightarrow> nat list" where
  "digits_base b n = (if n < b \<or> b < 2 then [n] else digits_base b (n div b) @ [n mod b])"

declare digits_base.simps [simp del]

definition nat_to_string :: "nat \<Rightarrow> nat \<Rightarrow> string" where
  "nat_to_string b n = map hex_digit (digits_base b n)"

definition int_to_string :: "int \<Rightarrow> string" where
  "int_to_string i =
     (if i < 0 then CHR ''-'' # nat_to_string 10 (nat (- i)) else nat_to_string 10 (nat i))"

definition pad_start :: "nat \<Rightarrow> char \<Rightarrow> string \<Rightarrow> string" where
  "pad_start n c s = replicate (n - length s) c @ s"

definition hex_value :: "char \<Rightarrow> nat option" where
  "hex_value c =
     (let n = of_char c :: nat in
      if 48 \<le> n \<and> n \<le> 57 then Some (n - 48)
      else if 65 \<le> n \<and> n \<le> 70 then Some (n - 55)
      else if 97 \<le> n \<and> n \<le> 102 then Some (n - 87)
      else None)"

fun hex_number :: "nat \<Rightarrow> string \<Rightarrow> nat" where
  "hex_number acc [] = acc"
| "hex_number acc (c # cs) =
     (case hex_value c of None \<Rightarrow> acc | Some d \<Rightarrow> hex_number (16 * acc + d) cs)"

definition parse_hex_digits :: "string \<Rightarrow> nat option" where
  "parse_hex_digits s =
     (case s of [] \<Rightarrow> None | c # _ \<Rightarrow> if hex_value c = None then None else Some (hex_number 0 s))"

text \<open>
  \<^verbatim>\<open>parseInt(s, 16)\<close>: leading white space, an optional sign, an optional \<^verbatim>\<open>0x\<close>, then the longest
  run of hexadecimal digits; \<open>None\<close> is \<^verbatim>\<open>NaN\<close>.
\<close>

definition strip_0x :: "string \<Rightarrow> string" where
  "strip_0x s = (if to_lower (take 2 s) = ''0x'' then drop 2 s else s)"

definition parse_int16 :: "string \<Rightarrow> int option" where
  "parse_int16 s =
     (let t = dropWhile js_space s in
      case t of
        [] \<Rightarrow> None
      | c # r \<Rightarrow>
          if c = CHR ''-'' then map_option (\<lambda>n. - int n) (parse_hex_digits (strip_0x r))
          else if c = CHR ''+'' then map_option int (parse_hex_digits (strip_0x r))
          else map_option int (parse_hex_digits (strip_0x t)))"

text \<open>The operand of a bitwise operator: \<^verbatim>\<open>ToInt32\<close>, with \<^verbatim>\<open>NaN\<close> read as 0.\<close>

definition to_int32 :: "int option \<Rightarrow> 32 word" where
  "to_int32 n = (case n of None \<Rightarrow> 0 | Some i \<Rightarrow> word_of_int i)"

lemma unat_byte_less: "unat (x :: 8 word) < 256"
  using unsigned_less [of x] by simp

section \<open>The insertion-ordered map\<close>

text \<open>
  A JavaScript \<^verbatim>\<open>Map\<close> keeps its keys in the order of their first insertion; setting a key it
  already has keeps the key's place. Two things depend on that order: which entry
  \<^verbatim>\<open>keys().next()\<close> evicts, and the order of iteration.
\<close>

definition jm_get :: "('k, 'v) jsmap \<Rightarrow> 'k \<Rightarrow> 'v option" where
  "jm_get m k = map_of m k"

fun jm_set :: "'k \<Rightarrow> 'v \<Rightarrow> ('k, 'v) jsmap \<Rightarrow> ('k, 'v) jsmap" where
  "jm_set k v [] = [(k, v)]"
| "jm_set k v (p # m) = (if fst p = k then (k, v) # m else p # jm_set k v m)"

definition jm_delete :: "'k \<Rightarrow> ('k, 'v) jsmap \<Rightarrow> ('k, 'v) jsmap" where
  "jm_delete k m = filter (\<lambda>p. fst p \<noteq> k) m"

definition jm_keys :: "('k, 'v) jsmap \<Rightarrow> 'k list" where
  "jm_keys m = map fst m"

definition jm_has :: "('k, 'v) jsmap \<Rightarrow> 'k \<Rightarrow> bool" where
  "jm_has m k = (k \<in> set (jm_keys m))"

definition jm_wf :: "('k, 'v) jsmap \<Rightarrow> bool" where
  "jm_wf m = distinct (jm_keys m)"

text \<open>\<^verbatim>\<open>new Set(xs)\<close> and \<^verbatim>\<open>s.add(x)\<close>, with the insertion order of the standard.\<close>

definition js_add :: "'a \<Rightarrow> 'a list \<Rightarrow> 'a list" where
  "js_add x xs = (if x \<in> set xs then xs else xs @ [x])"

definition js_set :: "'a list \<Rightarrow> 'a list" where
  "js_set xs = fold js_add xs []"

lemma set_js_add [simp]: "set (js_add x xs) = insert x (set xs)"
  by (auto simp: js_add_def)

lemma distinct_js_add [simp]: "distinct (js_add x xs) = distinct xs"
  by (auto simp: js_add_def)

lemma set_fold_js_add [simp]: "set (fold js_add xs ys) = set xs \<union> set ys"
  by (induction xs arbitrary: ys) auto

lemma distinct_fold_js_add [simp]: "distinct (fold js_add xs ys) = distinct ys"
  by (induction xs arbitrary: ys) auto

lemma set_js_set [simp]: "set (js_set xs) = set xs"
  by (simp add: js_set_def)

lemma distinct_js_set [simp]: "distinct (js_set xs)"
  by (simp add: js_set_def)

lemma length_js_set: "length (js_set xs) = card (set xs)"
  by (metis distinct_card distinct_js_set set_js_set)

text \<open>The contract of an ordered map: what a lookup and the key order are after every operation.\<close>

locale ordered_map =
  fixes get :: "'m \<Rightarrow> 'k \<Rightarrow> 'v option"
    and put :: "'k \<Rightarrow> 'v \<Rightarrow> 'm \<Rightarrow> 'm"
    and del :: "'k \<Rightarrow> 'm \<Rightarrow> 'm"
    and keys :: "'m \<Rightarrow> 'k list"
  assumes get_put: "get (put k v m) k' = (if k' = k then Some v else get m k')"
    and get_del: "get (del k m) k' = (if k' = k then None else get m k')"
    and keys_put: "keys (put k v m) = (if k \<in> set (keys m) then keys m else keys m @ [k])"
    and keys_del: "keys (del k m) = filter (\<lambda>k'. k' \<noteq> k) (keys m)"
    and get_None: "get m k = None \<longleftrightarrow> k \<notin> set (keys m)"
begin

lemma distinct_put: "distinct (keys m) \<Longrightarrow> distinct (keys (put k v m))"
  by (simp add: keys_put)

lemma distinct_del: "distinct (keys m) \<Longrightarrow> distinct (keys (del k m))"
  by (simp add: keys_del)

lemma set_keys_put: "set (keys (put k v m)) = insert k (set (keys m))"
  by (auto simp: keys_put)

lemma set_keys_del: "set (keys (del k m)) = set (keys m) - {k}"
  by (auto simp: keys_del)

lemma keys_touch: "keys (put k v (del k m)) = filter (\<lambda>k'. k' \<noteq> k) (keys m) @ [k]"
  by (simp add: keys_put keys_del)

lemma get_touch: "get (put k v (del k m)) k' = (if k' = k then Some v else get m k')"
  by (simp add: get_put get_del)

lemma distinct_touch: "distinct (keys m) \<Longrightarrow> distinct (keys (put k v (del k m)))"
  by (simp add: keys_touch)

lemma get_SomeD: "get m k = Some v \<Longrightarrow> k \<in> set (keys m)"
  using get_None [of m k] by auto

lemma keys_obtain: "k \<in> set (keys m) \<Longrightarrow> \<exists>v. get m k = Some v"
  using get_None [of m k] by auto

end

lemma jm_get_set: "jm_get (jm_set k v m) k' = (if k' = k then Some v else jm_get m k')"
  by (induction m) (auto simp: jm_get_def)

lemma jm_get_delete: "jm_get (jm_delete k m) k' = (if k' = k then None else jm_get m k')"
  by (induction m) (auto simp: jm_get_def jm_delete_def)

lemma jm_keys_set:
  "jm_keys (jm_set k v m) = (if k \<in> set (jm_keys m) then jm_keys m else jm_keys m @ [k])"
  by (induction m) (auto simp: jm_keys_def)

lemma jm_keys_delete: "jm_keys (jm_delete k m) = filter (\<lambda>k'. k' \<noteq> k) (jm_keys m)"
  by (induction m) (auto simp: jm_keys_def jm_delete_def)

lemma jm_get_None: "jm_get m k = None \<longleftrightarrow> k \<notin> set (jm_keys m)"
  by (simp add: jm_get_def jm_keys_def map_of_eq_None_iff)

interpretation jm: ordered_map jm_get jm_set jm_delete jm_keys
  by unfold_locales (rule jm_get_set jm_get_delete jm_keys_set jm_keys_delete jm_get_None)+

declare jm.get_put [js_map_simps] jm.get_del [js_map_simps] jm.keys_del [js_map_simps]
  jm.keys_touch [js_map_simps] jm.get_touch [js_map_simps]
  jm.set_keys_put [js_map_simps] jm.set_keys_del [js_map_simps]

lemma jm_has_iff: "jm_has m k \<longleftrightarrow> (\<exists>v. jm_get m k = Some v)"
  using jm.get_None [of m k] by (auto simp: jm_has_def)

lemma jm_wf_set [js_inv]: "jm_wf m \<Longrightarrow> jm_wf (jm_set k v m)"
  by (simp add: jm_wf_def jm.distinct_put)

lemma jm_wf_delete [js_inv]: "jm_wf m \<Longrightarrow> jm_wf (jm_delete k m)"
  by (simp add: jm_wf_def jm.distinct_del)

lemma jm_wf_Nil [js_inv, simp]: "jm_wf []"
  by (simp add: jm_wf_def jm_keys_def)

lemma jm_get_in_set: "jm_get m k = Some v \<Longrightarrow> (k, v) \<in> set m"
  by (simp add: jm_get_def map_of_SomeD)

lemma jm_in_set_get: "jm_wf m \<Longrightarrow> (k, v) \<in> set m \<Longrightarrow> jm_get m k = Some v"
  by (simp add: jm_wf_def jm_keys_def jm_get_def)

lemma jm_get_Nil [simp]: "jm_get [] k = None"
  by (simp add: jm_get_def)

lemma jm_keys_Nil [simp]: "jm_keys [] = []"
  by (simp add: jm_keys_def)

lemma jm_keys_Cons [simp]: "jm_keys (p # m) = fst p # jm_keys m"
  by (simp add: jm_keys_def)

lemma length_jm_keys [simp]: "length (jm_keys m) = length m"
  by (simp add: jm_keys_def)

text \<open>Updating values in place leaves the keys and their order alone.\<close>

definition jm_map_values :: "('k \<Rightarrow> 'v \<Rightarrow> 'w) \<Rightarrow> ('k, 'v) jsmap \<Rightarrow> ('k, 'w) jsmap" where
  "jm_map_values f m = map (\<lambda>(k, v). (k, f k v)) m"

lemma jm_keys_map_values [simp]: "jm_keys (jm_map_values f m) = jm_keys m"
  by (induction m) (auto simp: jm_keys_def jm_map_values_def)

lemma jm_get_map_values [simp]: "jm_get (jm_map_values f m) k = map_option (f k) (jm_get m k)"
  by (induction m) (auto simp: jm_get_def jm_map_values_def)

lemma length_jm_set: "length (jm_set k v m) = (if k \<in> set (jm_keys m) then length m else Suc (length m))"
  by (metis jm.keys_put length_append_singleton length_jm_keys)

lemma length_jm_delete_le: "length (jm_delete k m) \<le> length m"
  by (simp add: jm_delete_def)

lemma length_jm_delete_less: "k \<in> set (jm_keys m) \<Longrightarrow> length (jm_delete k m) < length m"
  unfolding jm_delete_def jm_keys_def by (auto intro: length_filter_less)

lemma length_jm_replace: "a \<in> set (jm_keys m) \<Longrightarrow> length (jm_set b v (jm_delete a m)) \<le> length m"
  using length_jm_delete_less [of a m] by (simp add: length_jm_set)

text \<open>A property of all entries, and the operations that keep it.\<close>

definition jm_all :: "('k \<Rightarrow> 'v \<Rightarrow> bool) \<Rightarrow> ('k, 'v) jsmap \<Rightarrow> bool" where
  "jm_all P m \<longleftrightarrow> (\<forall>(k, v) \<in> set m. P k v)"

lemma jm_all_Nil [js_inv, simp]: "jm_all P []"
  by (simp add: jm_all_def)

lemma set_jm_set_subset: "set (jm_set k v m) \<subseteq> insert (k, v) (set m)"
  by (induction m) auto

lemma jm_all_set [js_inv]: "jm_all P m \<Longrightarrow> P k v \<Longrightarrow> jm_all P (jm_set k v m)"
  using set_jm_set_subset [of k v m] by (fastforce simp: jm_all_def)

lemma jm_all_delete [js_inv]: "jm_all P m \<Longrightarrow> jm_all P (jm_delete k m)"
  by (auto simp: jm_all_def jm_delete_def)

lemma jm_all_get: "jm_all P m \<Longrightarrow> jm_get m k = Some v \<Longrightarrow> P k v"
  by (auto simp: jm_all_def dest: jm_get_in_set)

lemma jm_all_mono: "jm_all P m \<Longrightarrow> (\<And>k v. P k v \<Longrightarrow> Q k v) \<Longrightarrow> jm_all Q m"
  by (auto simp: jm_all_def)

lemma jm_all_filter: "jm_all P m \<Longrightarrow> jm_all P (filter Q m)"
  by (auto simp: jm_all_def)

lemma jm_get_filter:
  "jm_wf m \<Longrightarrow> jm_get (filter (\<lambda>(k, v). P v) m) k =
     (case jm_get m k of None \<Rightarrow> None | Some v \<Rightarrow> if P v then Some v else None)"
  by (induction m) (auto simp: jm_get_def jm_wf_def jm_keys_def map_of_eq_None_iff split: option.splits)

lemma jm_wf_filter: "jm_wf m \<Longrightarrow> jm_wf (filter P m)"
  by (simp add: jm_wf_def jm_keys_def distinct_map_filter)

lemma jm_has_set: "jm_has m k \<longleftrightarrow> k \<in> set (jm_keys m)"
  by (simp add: jm_has_def)

text \<open>A loop keeps what every round keeps.\<close>

lemma fold_keeps:
  assumes "P a" and "\<And>x a. x \<in> set xs \<Longrightarrow> P a \<Longrightarrow> P (f x a)"
  shows "P (fold f xs a)"
  using assms by (induction xs arbitrary: a) simp_all

subsection \<open>The first matching element\<close>

text \<open>\<^verbatim>\<open>findIndex\<close> followed by a replacement at that index, and loops that stop at the first match.\<close>

fun update_first :: "('a \<Rightarrow> bool) \<Rightarrow> ('a \<Rightarrow> 'a) \<Rightarrow> 'a list \<Rightarrow> 'a list" where
  "update_first P f [] = []"
| "update_first P f (x # xs) = (if P x then f x # xs else x # update_first P f xs)"

lemma length_update_first [simp]: "length (update_first P f xs) = length xs"
  by (induction xs) auto

lemma map_update_first:
  "(\<And>x. P x \<Longrightarrow> g (f x) = g x) \<Longrightarrow> map g (update_first P f xs) = map g xs"
  by (induction xs) auto

lemma set_update_first: "set (update_first P f xs) \<subseteq> set xs \<union> f ` {x \<in> set xs. P x}"
  by (induction xs) auto

lemma update_first_none: "\<not> list_ex P xs \<Longrightarrow> update_first P f xs = xs"
  by (induction xs) auto

lemma update_first_append: "\<not> list_ex P a \<Longrightarrow> update_first P f (a @ b) = a @ update_first P f b"
  by (induction a) auto

lemma update_first_split:
  "list_ex P xs \<Longrightarrow> \<exists>a x b. xs = a @ x # b \<and> P x \<and> \<not> list_ex P a \<and> update_first P f xs = a @ f x # b"
proof (induction xs)
  case (Cons y ys)
  show ?case
  proof (cases "P y")
    case True
    then show ?thesis by (intro exI [of _ "[]"]) simp
  next
    case False
    then obtain a x b where "ys = a @ x # b" "P x" "\<not> list_ex P a" "update_first P f ys = a @ f x # b"
      using Cons by auto
    then show ?thesis using False by (intro exI [of _ "y # a"] exI [of _ x] exI [of _ b]) simp
  qed
qed simp

lemma jm_all_update_first:
  assumes "jm_all P m" and "\<And>k v. P k v \<Longrightarrow> Q (k, v) \<Longrightarrow> P k (g k v)"
  shows "jm_all P (update_first Q (\<lambda>(k, v). (k, g k v)) m)"
  using assms(1) by (induction m) (auto simp: jm_all_def assms(2))

lemma jm_keys_update_first [simp]: "jm_keys (update_first Q (\<lambda>(k, v). (k, g k v)) m) = jm_keys m"
  unfolding jm_keys_def by (rule map_update_first) auto

lemma jm_wf_update_first [js_inv]: "jm_wf m \<Longrightarrow> jm_wf (update_first Q (\<lambda>(k, v). (k, g k v)) m)"
  by (simp add: jm_wf_def)

section \<open>The stable sort\<close>

text \<open>
  \<^verbatim>\<open>xs.sort(cmp)\<close> is a stable sort. For a comparison that comes from a linear order the
  result is determined, and it is the library's \<open>sort_key\<close>.
\<close>

fun insert_by :: "('a \<Rightarrow> 'a \<Rightarrow> 'n :: {zero, ord}) \<Rightarrow> 'a \<Rightarrow> 'a list \<Rightarrow> 'a list" where
  "insert_by cmp x [] = [x]"
| "insert_by cmp x (y # ys) = (if cmp x y \<le> 0 then x # y # ys else y # insert_by cmp x ys)"

definition js_sort :: "('a \<Rightarrow> 'a \<Rightarrow> 'n :: {zero, ord}) \<Rightarrow> 'a list \<Rightarrow> 'a list" where
  "js_sort cmp xs = foldr (insert_by cmp) xs []"

lemma insert_by_key:
  assumes "\<And>x y. cmp x y \<le> 0 \<longleftrightarrow> f x \<le> f y"
  shows "insert_by cmp x ys = insort_key f x ys"
  by (induction ys) (auto simp: assms)

lemma js_sort_key:
  assumes "\<And>x y. cmp x y \<le> 0 \<longleftrightarrow> f x \<le> f y"
  shows "js_sort cmp xs = sort_key f xs"
  by (induction xs) (auto simp: js_sort_def insert_by_key [OF assms] sort_key_def)

lemma mset_insert_by [simp]: "mset (insert_by cmp x ys) = add_mset x (mset ys)"
  by (induction ys) auto

lemma mset_js_sort [simp]: "mset (js_sort cmp xs) = mset xs"
  by (induction xs) (auto simp: js_sort_def)

lemma set_js_sort [simp]: "set (js_sort cmp xs) = set xs"
  by (metis mset_js_sort set_mset_mset)

lemma length_js_sort [simp]: "length (js_sort cmp xs) = length xs"
  by (metis mset_js_sort size_mset)

section \<open>Lists\<close>

lemma length_concat_const:
  "(\<And>x. x \<in> set xs \<Longrightarrow> length (f x) = n) \<Longrightarrow> length (concat (map f xs)) = n * length xs"
  by (induction xs) auto

section \<open>Bounded stores\<close>

text \<open>
  The pattern of the conversation cache and of the pending acknowledgements: delete the key,
  set it again (so that it becomes the youngest), and drop the oldest key over the capacity.
\<close>

definition evict_oldest :: "nat \<Rightarrow> ('k, 'v) jsmap \<Rightarrow> ('k, 'v) jsmap" where
  "evict_oldest cap m =
     (if cap < length m then (case m of [] \<Rightarrow> m | (k, _) # _ \<Rightarrow> jm_delete k m) else m)"

definition lru_keys :: "nat \<Rightarrow> 'k \<Rightarrow> 'k list \<Rightarrow> 'k list" where
  "lru_keys cap k ks =
     (let ks' = filter (\<lambda>k'. k' \<noteq> k) ks @ [k] in if cap < length ks' then tl ks' else ks')"

locale lru_store =
  fixes cap :: nat
    and put :: "'k \<Rightarrow> 'v \<Rightarrow> 's \<Rightarrow> 's"
    and get :: "'s \<Rightarrow> 'k \<Rightarrow> 'v option"
    and keys :: "'s \<Rightarrow> 'k list"
  assumes cap_pos: "0 < cap"
    and keys_put: "distinct (keys s) \<Longrightarrow> keys (put k v s) = lru_keys cap k (keys s)"
    and get_put: "distinct (keys s) \<Longrightarrow> k' \<in> set (keys (put k v s)) \<Longrightarrow>
      get (put k v s) k' = (if k' = k then Some v else get s k')"
begin

lemma lru_distinct: "distinct (keys s) \<Longrightarrow> distinct (keys (put k v s))"
  by (auto simp: keys_put lru_keys_def Let_def distinct_tl)

lemma lru_bounded:
  assumes "distinct (keys s)" and "length (keys s) \<le> cap"
  shows "length (keys (put k v s)) \<le> cap"
proof -
  have "length (filter (\<lambda>k'. k' \<noteq> k) (keys s)) \<le> cap"
    using assms(2) length_filter_le [of _ "keys s"] by (meson le_trans)
  then show ?thesis using assms(1) by (auto simp: keys_put lru_keys_def Let_def)
qed

lemma lru_youngest: "distinct (keys s) \<Longrightarrow> keys (put k v s) \<noteq> [] \<and> last (keys (put k v s)) = k"
  using cap_pos
  by (cases "filter (\<lambda>k'. k' \<noteq> k) (keys s)") (auto simp: keys_put lru_keys_def Let_def)

lemma lru_get_self:
  assumes "distinct (keys s)"
  shows "get (put k v s) k = Some v"
  using lru_youngest [OF assms, of k v] get_put [OF assms, of k k v] by (metis last_in_set)

text \<open>Only the oldest key can be lost.\<close>

lemma lru_survives:
  assumes d: "distinct (keys s)" and b: "length (keys s) \<le> cap"
    and k': "k' \<in> set (keys s)" "k' \<noteq> hd (keys s)"
  shows "k' \<in> set (keys (put k v s))"
proof -
  obtain h ks where hks: "keys s = h # ks" using k'(1) by (cases "keys s") auto
  then have in_ks: "k' \<in> set ks" using k' by auto
  show ?thesis
  proof (cases "h = k")
    case True
    have "\<not> cap < length (filter (\<lambda>x. x \<noteq> k) (keys s) @ [k])"
      using True hks b le_trans [of "Suc (length (filter (\<lambda>x. x \<noteq> k) ks))" "Suc (length ks)" cap]
      by (simp add: not_less)
    then show ?thesis using d in_ks hks True by (auto simp: keys_put lru_keys_def Let_def)
  next
    case False
    then have "tl (filter (\<lambda>x. x \<noteq> k) (keys s) @ [k]) = filter (\<lambda>x. x \<noteq> k) ks @ [k]"
      using hks by simp
    then show ?thesis using d in_ks hks by (auto simp: keys_put lru_keys_def Let_def)
  qed
qed

end

lemma evict_oldest_keys:
  "jm_wf m \<Longrightarrow> jm_keys (evict_oldest cap m) = (if cap < length m then tl (jm_keys m) else jm_keys m)"
  by (cases m) (auto simp: evict_oldest_def jm.keys_del jm_wf_def filter_id_conv)

lemma evict_oldest_get:
  "k \<in> set (jm_keys (evict_oldest cap m)) \<Longrightarrow> jm_get (evict_oldest cap m) k = jm_get m k"
  by (auto simp: evict_oldest_def js_map_simps split: list.splits if_splits)

lemma evict_oldest_id: "length m \<le> cap \<Longrightarrow> evict_oldest cap m = m"
  by (simp add: evict_oldest_def)

lemma jm_all_evict_oldest [js_inv]: "jm_all P m \<Longrightarrow> jm_all P (evict_oldest cap m)"
  by (auto simp: evict_oldest_def intro: js_inv split: list.splits)

lemma length_evict_oldest:
  "jm_wf m \<Longrightarrow> length m \<le> Suc cap \<Longrightarrow> length (evict_oldest cap m) \<le> cap"
  using evict_oldest_keys [of m cap] by (metis (full_types) diff_Suc_1 diff_le_mono length_jm_keys length_tl not_less)

lemma jm_wf_evict_oldest [js_inv]: "jm_wf m \<Longrightarrow> jm_wf (evict_oldest cap m)"
  by (auto simp: evict_oldest_def intro: js_inv split: list.splits)

definition lru_put :: "nat \<Rightarrow> 'k \<Rightarrow> 'v \<Rightarrow> ('k, 'v) jsmap \<Rightarrow> ('k, 'v) jsmap" where
  "lru_put cap k v m = evict_oldest cap (jm_set k v (jm_delete k m))"

lemma lru_put_keys:
  assumes "jm_wf m"
  shows "jm_keys (lru_put cap k v m) = lru_keys cap k (jm_keys m)"
proof -
  have "jm_wf (jm_set k v (jm_delete k m))" by (intro js_inv assms)
  then show ?thesis
    by (simp add: lru_put_def evict_oldest_keys lru_keys_def Let_def jm.keys_touch
        flip: length_jm_keys)
qed

lemma lru_put_get:
  "k' \<in> set (jm_keys (lru_put cap k v m)) \<Longrightarrow>
     jm_get (lru_put cap k v m) k' = (if k' = k then Some v else jm_get m k')"
  by (simp add: lru_put_def evict_oldest_get js_map_simps)

lemma lru_put_is_lru:
  "0 < cap \<Longrightarrow> lru_store cap (lru_put cap) jm_get jm_keys"
  by unfold_locales (auto simp: lru_put_keys lru_put_get jm_wf_def)

text \<open>
  The pattern of the packet buffers: an item whose key is already buffered is ignored, and the
  oldest items over the capacity are dropped.
\<close>

locale dedup_buffer =
  fixes cap :: nat
    and item :: "'e \<Rightarrow> 'a"
    and key :: "'a \<Rightarrow> 'k"
    and add :: "'e \<Rightarrow> 'b \<Rightarrow> 'b"
    and items :: "'b \<Rightarrow> 'a list"
    and inv :: "'b \<Rightarrow> bool"
  assumes add_dup: "inv b \<Longrightarrow> key (item x) \<in> key ` set (items b) \<Longrightarrow> items (add x b) = items b"
    and add_new: "inv b \<Longrightarrow> key (item x) \<notin> key ` set (items b) \<Longrightarrow>
      items (add x b) = drop (length (items b) + 1 - cap) (items b @ [item x])"
    and inv_add: "inv b \<Longrightarrow> inv (add x b)"
begin

lemma buffer_distinct:
  "inv b \<Longrightarrow> distinct (map key (items b)) \<Longrightarrow> distinct (map key (items (add x b)))"
  by (cases "key (item x) \<in> key ` set (items b)")
    (auto simp: add_dup add_new drop_map [symmetric] simp del: drop_append intro!: distinct_drop)

lemma buffer_bounded:
  "inv b \<Longrightarrow> length (items b) \<le> cap \<Longrightarrow> length (items (add x b)) \<le> cap"
  by (cases "key (item x) \<in> key ` set (items b)") (auto simp: add_dup add_new)

lemma buffer_run_inv: "inv b \<Longrightarrow> inv (fold add xs b)"
  by (induction xs arbitrary: b) (auto simp: inv_add)

lemma buffer_run:
  assumes "inv b" and "distinct (map key (items b))" and "length (items b) \<le> cap"
  shows "distinct (map key (items (fold add xs b))) \<and> length (items (fold add xs b)) \<le> cap"
  using assms
  by (induction xs arbitrary: b) (auto simp: inv_add buffer_distinct buffer_bounded)

lemma buffer_latest:
  assumes "inv b" and "key (item x) \<notin> key ` set (items b)" and "0 < cap"
  shows "items (add x b) \<noteq> [] \<and> last (items (add x b)) = item x"
  using assms by (auto simp: add_new)

lemma buffer_idem:
  assumes "inv b" and "0 < cap"
  shows "items (add x (add x b)) = items (add x b)"
proof (rule add_dup [OF inv_add [OF assms(1)]])
  show "key (item x) \<in> key ` set (items (add x b))"
  proof (cases "key (item x) \<in> key ` set (items b)")
    case True
    then show ?thesis using assms(1) by (simp add: add_dup)
  next
    case False
    then show ?thesis
      using buffer_latest [OF assms(1) _ assms(2), of x] by (metis image_eqI last_in_set)
  qed
qed

text \<open>
  Fed with items whose keys are all new and different, the buffer holds the most recent ones, in
  the order they came.
\<close>

lemma buffer_keeps_latest:
  assumes "inv b" and "items b = []" and "distinct (map (key \<circ> item) xs)"
  shows "items (fold add xs b) = drop (length xs - cap) (map item xs)"
  using assms(3)
proof (induction xs rule: rev_induct)
  case (snoc x xs)
  let ?b = "fold add xs b"
  have i: "items ?b = drop (length xs - cap) (map item xs)" using snoc by simp
  have "key (item x) \<notin> key ` set (items ?b)" using snoc.prems i by (force dest: in_set_dropD)
  then have "items (add x ?b) = drop (length (items ?b) + 1 - cap) (items ?b @ [item x])"
    using add_new buffer_run_inv assms(1) by blast
  also have "\<dots> = drop (Suc (length xs) - cap) (map item xs @ [item x])"
    unfolding i by (cases "cap \<le> length xs") (auto simp: Suc_diff_le)
  finally show ?case by simp
qed (simp add: assms)

end

section \<open>Runs of a component\<close>

text \<open>
  An invariant every handler keeps holds after every sequence of events. What the environment
  promises of an event may depend on the state the event meets, or on the event alone.
\<close>

fun admissible :: "('s \<Rightarrow> 'e \<Rightarrow> bool) \<Rightarrow> ('e \<Rightarrow> 's \<Rightarrow> 's) \<Rightarrow> 's \<Rightarrow> 'e list \<Rightarrow> bool" where
  "admissible allowed step s [] = True"
| "admissible allowed step s (e # es) = (allowed s e \<and> admissible allowed step (step e s) es)"

locale guarded_machine =
  fixes step :: "'e \<Rightarrow> 's \<Rightarrow> 's"
    and inv :: "'s \<Rightarrow> bool"
    and allowed :: "'s \<Rightarrow> 'e \<Rightarrow> bool"
  assumes guarded_step: "inv s \<Longrightarrow> allowed s e \<Longrightarrow> inv (step e s)"
begin

lemma guarded_run: "inv s \<Longrightarrow> admissible allowed step s es \<Longrightarrow> inv (fold step es s)"
  by (induction es arbitrary: s) (auto simp: guarded_step)

end

locale event_machine =
  fixes step :: "'e \<Rightarrow> 's \<Rightarrow> 's"
    and inv :: "'s \<Rightarrow> bool"
    and promised :: "'e \<Rightarrow> bool"
  assumes step_inv: "inv s \<Longrightarrow> promised e \<Longrightarrow> inv (step e s)"

sublocale event_machine \<subseteq> guarded_machine step inv "\<lambda>s e. promised e"
  by unfold_locales (rule step_inv)

context event_machine
begin

lemma admissible_promised: "admissible (\<lambda>s e. promised e) step s es = list_all promised es"
  by (induction es arbitrary: s) auto

lemma run_inv: "inv s \<Longrightarrow> list_all promised es \<Longrightarrow> inv (fold step es s)"
  by (rule guarded_run) (simp_all add: admissible_promised)

end

end
