(* ===== verification/Aes128.thy ===== *)
theory Aes128
  imports JsRuntime
begin

unbundle bit_operations_syntax

text \<open>
  The AES-128 block decryption of \<^verbatim>\<open>utils/parseGroupData.ts\<close>: the S-box tables, the field
  multiplication, the key schedule, the inverse round layers, \<open>decryptBlock\<close> and the ECB loop.
  A \<^verbatim>\<open>Uint8Array\<close> is a list of 8-bit words and a \<^verbatim>\<open>Uint32Array\<close> a list of 32-bit words. A read
  past the end of a typed array gives \<^verbatim>\<open>undefined\<close>, which every operator used here reads as 0,
  and a write past the end is dropped, as \<open>xs[i := v]\<close> is.

  The specification is the forward cipher of FIPS 197 (\<open>cipherBlock\<close>, which the program does not
  contain). The layers are inverse to each other (\<open>round_cipher\<close>), so \<open>decryptBlock\<close> undoes the
  standard's cipher for every key and every block, and the ECB loop undoes it block by block.
\<close>

section \<open>The implementation\<close>

definition SBOX :: "8 word list" where
  "SBOX = [
   0x63, 0x7c, 0x77, 0x7b, 0xf2, 0x6b, 0x6f, 0xc5, 0x30, 0x01, 0x67, 0x2b, 0xfe, 0xd7, 0xab, 0x76,
   0xca, 0x82, 0xc9, 0x7d, 0xfa, 0x59, 0x47, 0xf0, 0xad, 0xd4, 0xa2, 0xaf, 0x9c, 0xa4, 0x72, 0xc0,
   0xb7, 0xfd, 0x93, 0x26, 0x36, 0x3f, 0xf7, 0xcc, 0x34, 0xa5, 0xe5, 0xf1, 0x71, 0xd8, 0x31, 0x15,
   0x04, 0xc7, 0x23, 0xc3, 0x18, 0x96, 0x05, 0x9a, 0x07, 0x12, 0x80, 0xe2, 0xeb, 0x27, 0xb2, 0x75,
   0x09, 0x83, 0x2c, 0x1a, 0x1b, 0x6e, 0x5a, 0xa0, 0x52, 0x3b, 0xd6, 0xb3, 0x29, 0xe3, 0x2f, 0x84,
   0x53, 0xd1, 0x00, 0xed, 0x20, 0xfc, 0xb1, 0x5b, 0x6a, 0xcb, 0xbe, 0x39, 0x4a, 0x4c, 0x58, 0xcf,
   0xd0, 0xef, 0xaa, 0xfb, 0x43, 0x4d, 0x33, 0x85, 0x45, 0xf9, 0x02, 0x7f, 0x50, 0x3c, 0x9f, 0xa8,
   0x51, 0xa3, 0x40, 0x8f, 0x92, 0x9d, 0x38, 0xf5, 0xbc, 0xb6, 0xda, 0x21, 0x10, 0xff, 0xf3, 0xd2,
   0xcd, 0x0c, 0x13, 0xec, 0x5f, 0x97, 0x44, 0x17, 0xc4, 0xa7, 0x7e, 0x3d, 0x64, 0x5d, 0x19, 0x73,
   0x60, 0x81, 0x4f, 0xdc, 0x22, 0x2a, 0x90, 0x88, 0x46, 0xee, 0xb8, 0x14, 0xde, 0x5e, 0x0b, 0xdb,
   0xe0, 0x32, 0x3a, 0x0a, 0x49, 0x06, 0x24, 0x5c, 0xc2, 0xd3, 0xac, 0x62, 0x91, 0x95, 0xe4, 0x79,
   0xe7, 0xc8, 0x37, 0x6d, 0x8d, 0xd5, 0x4e, 0xa9, 0x6c, 0x56, 0xf4, 0xea, 0x65, 0x7a, 0xae, 0x08,
   0xba, 0x78, 0x25, 0x2e, 0x1c, 0xa6, 0xb4, 0xc6, 0xe8, 0xdd, 0x74, 0x1f, 0x4b, 0xbd, 0x8b, 0x8a,
   0x70, 0x3e, 0xb5, 0x66, 0x48, 0x03, 0xf6, 0x0e, 0x61, 0x35, 0x57, 0xb9, 0x86, 0xc1, 0x1d, 0x9e,
   0xe1, 0xf8, 0x98, 0x11, 0x69, 0xd9, 0x8e, 0x94, 0x9b, 0x1e, 0x87, 0xe9, 0xce, 0x55, 0x28, 0xdf,
   0x8c, 0xa1, 0x89, 0x0d, 0xbf, 0xe6, 0x42, 0x68, 0x41, 0x99, 0x2d, 0x0f, 0xb0, 0x54, 0xbb, 0x16]"

definition INV_SBOX :: "8 word list" where
  "INV_SBOX = fold (\<lambda>i t. t[unat (SBOX ! i) := of_nat i]) [0..<256] (replicate 256 0)"

definition RCON :: "8 word list" where
  "RCON = [0x00, 0x01, 0x02, 0x04, 0x08, 0x10, 0x20, 0x40, 0x80, 0x1b, 0x36]"

definition xtime :: "8 word \<Rightarrow> 8 word" where
  "xtime v = push_bit 1 v XOR (if v AND 0x80 \<noteq> 0 then 0x1b else 0)"

function multiply_loop :: "8 word \<Rightarrow> 8 word \<Rightarrow> 8 word \<Rightarrow> 8 word" where
  "multiply_loop result aa bb =
     (if bb = 0 then result
      else multiply_loop (if bb AND 1 \<noteq> 0 then result XOR aa else result) (xtime aa) (drop_bit 1 bb))"
  by pat_completeness auto
termination
proof (relation "measure (\<lambda>(result, aa, bb). unat bb)")
  fix result aa bb :: "8 word"
  assume "bb \<noteq> 0"
  then have "unat bb \<noteq> 0" by (simp add: unat_eq_zero)
  then have "unat bb div 2 < unat bb" by simp
  then show "((if bb AND 1 \<noteq> 0 then result XOR aa else result, xtime aa, drop_bit 1 bb),
      result, aa, bb) \<in> measure (\<lambda>(result, aa, bb). unat bb)"
    by (simp add: drop_bit_eq_div unat_div)
qed simp

declare multiply_loop.simps [simp del]

definition multiply :: "8 word \<Rightarrow> 8 word \<Rightarrow> 8 word" where
  "multiply a b = multiply_loop 0 a b"

definition at8 :: "8 word list \<Rightarrow> nat \<Rightarrow> 8 word" where
  "at8 xs i = (if i < length xs then xs ! i else 0)"

definition at32 :: "32 word list \<Rightarrow> nat \<Rightarrow> 32 word" where
  "at32 xs i = (if i < length xs then xs ! i else 0)"

definition byte_word :: "8 word \<Rightarrow> 8 word \<Rightarrow> 8 word \<Rightarrow> 8 word \<Rightarrow> 32 word" where
  "byte_word a b c d =
     push_bit 24 (ucast a) OR push_bit 16 (ucast b) OR push_bit 8 (ucast c) OR ucast d"

text \<open>\<^verbatim>\<open>(word >>> n) & 0xff\<close>.\<close>

definition word_byte :: "nat \<Rightarrow> 32 word \<Rightarrow> 8 word" where
  "word_byte n w = ucast (drop_bit n w AND 0xff)"

definition expandKey_step :: "nat \<Rightarrow> 32 word list \<Rightarrow> 32 word list" where
  "expandKey_step i w =
     (let temp = at32 w (i - 1);
          temp' =
            (if i mod 4 = 0 then
               let rotated = push_bit 8 temp OR drop_bit 24 temp;
                   sub = byte_word (at8 SBOX (unat (word_byte 24 rotated)))
                     (at8 SBOX (unat (word_byte 16 rotated)))
                     (at8 SBOX (unat (word_byte 8 rotated)))
                     (at8 SBOX (unat (word_byte 0 rotated)))
               in sub XOR push_bit 24 (ucast (at8 RCON (i div 4)))
             else temp)
      in w[i := at32 w (i - 4) XOR temp'])"

definition expandKey :: "8 word list \<Rightarrow> 32 word list" where
  "expandKey key =
     (let w0 = replicate 44 0;
          w1 = fold (\<lambda>i w. w[i := byte_word (at8 key (i * 4)) (at8 key (i * 4 + 1))
                 (at8 key (i * 4 + 2)) (at8 key (i * 4 + 3))]) [0..<4] w0
      in fold expandKey_step [4..<44] w1)"

definition addRoundKey_col :: "32 word list \<Rightarrow> nat \<Rightarrow> nat \<Rightarrow> 8 word list \<Rightarrow> 8 word list" where
  "addRoundKey_col w round c s =
     (let word = at32 w (round * 4 + c);
          s1 = s[c * 4 := at8 s (c * 4) XOR word_byte 24 word];
          s2 = s1[c * 4 + 1 := at8 s1 (c * 4 + 1) XOR word_byte 16 word];
          s3 = s2[c * 4 + 2 := at8 s2 (c * 4 + 2) XOR word_byte 8 word]
      in s3[c * 4 + 3 := at8 s3 (c * 4 + 3) XOR word_byte 0 word])"

definition addRoundKey :: "8 word list \<Rightarrow> 32 word list \<Rightarrow> nat \<Rightarrow> 8 word list" where
  "addRoundKey s w round = fold (addRoundKey_col w round) [0..<4] s"

definition invShiftRows :: "8 word list \<Rightarrow> 8 word list" where
  "invShiftRows s =
     (let t = s in
      s[1 := at8 t 13, 5 := at8 t 1, 9 := at8 t 5, 13 := at8 t 9,
        2 := at8 t 10, 6 := at8 t 14, 10 := at8 t 2, 14 := at8 t 6,
        3 := at8 t 7, 7 := at8 t 11, 11 := at8 t 15, 15 := at8 t 3])"

definition invSubBytes :: "8 word list \<Rightarrow> 8 word list" where
  "invSubBytes s = fold (\<lambda>i s. s[i := at8 INV_SBOX (unat (at8 s i))]) [0..<16] s"

definition invMixColumn :: "nat \<Rightarrow> 8 word list \<Rightarrow> 8 word list" where
  "invMixColumn c s =
     (let i = c * 4; a0 = at8 s i; a1 = at8 s (i + 1); a2 = at8 s (i + 2); a3 = at8 s (i + 3) in
      s[i := multiply a0 0x0e XOR multiply a1 0x0b XOR multiply a2 0x0d XOR multiply a3 0x09,
        i + 1 := multiply a0 0x09 XOR multiply a1 0x0e XOR multiply a2 0x0b XOR multiply a3 0x0d,
        i + 2 := multiply a0 0x0d XOR multiply a1 0x09 XOR multiply a2 0x0e XOR multiply a3 0x0b,
        i + 3 := multiply a0 0x0b XOR multiply a1 0x0d XOR multiply a2 0x09 XOR multiply a3 0x0e])"

definition invMixColumns :: "8 word list \<Rightarrow> 8 word list" where
  "invMixColumns s = fold invMixColumn [0..<4] s"

definition decryptBlock :: "8 word list \<Rightarrow> 32 word list \<Rightarrow> 8 word list" where
  "decryptBlock block w =
     (let s0 = addRoundKey block w 10;
          s1 = fold (\<lambda>round s. invMixColumns (addRoundKey (invSubBytes (invShiftRows s)) w round))
                 (rev [1..<10]) s0
      in addRoundKey (invSubBytes (invShiftRows s1)) w 0)"

text \<open>\<^verbatim>\<open>target.set(source, offset)\<close> of a typed array, where the source fits.\<close>

definition typed_set :: "nat \<Rightarrow> 'a list \<Rightarrow> 'a list \<Rightarrow> 'a list" where
  "typed_set offset src tgt = take offset tgt @ src @ drop (offset + length src) tgt"

definition aes128EcbDecrypt :: "8 word list \<Rightarrow> 8 word list \<Rightarrow> 8 word list" where
  "aes128EcbDecrypt key ciphertext =
     (let w = expandKey key in
      fold (\<lambda>offset plaintext.
              typed_set offset (decryptBlock (js_slice offset (offset + 16) ciphertext) w) plaintext)
        (map (\<lambda>b. 16 * b) [0..<(length ciphertext + 15) div 16])
        (replicate (length ciphertext) 0))"

section \<open>The forward cipher of FIPS 197\<close>

text \<open>The specification: section 5.1 of the standard, over the program's key schedule.\<close>

definition subBytes :: "8 word list \<Rightarrow> 8 word list" where
  "subBytes s = map (\<lambda>b. SBOX ! unat b) s"

definition shiftRows :: "8 word list \<Rightarrow> 8 word list" where
  "shiftRows s = map (\<lambda>i. at8 s ((i + 4 * (i mod 4)) mod 16)) [0..<16]"

definition mixColumn :: "nat \<Rightarrow> 8 word list \<Rightarrow> 8 word list" where
  "mixColumn c s =
     (let i = c * 4; a0 = at8 s i; a1 = at8 s (i + 1); a2 = at8 s (i + 2); a3 = at8 s (i + 3) in
      s[i := multiply a0 2 XOR multiply a1 3 XOR a2 XOR a3,
        i + 1 := a0 XOR multiply a1 2 XOR multiply a2 3 XOR a3,
        i + 2 := a0 XOR a1 XOR multiply a2 2 XOR multiply a3 3,
        i + 3 := multiply a0 3 XOR a1 XOR a2 XOR multiply a3 2])"

definition mixColumns :: "8 word list \<Rightarrow> 8 word list" where
  "mixColumns s = fold mixColumn [0..<4] s"

definition cipherBlock :: "8 word list \<Rightarrow> 32 word list \<Rightarrow> 8 word list" where
  "cipherBlock block w =
     (let s0 = addRoundKey block w 0;
          s1 = fold (\<lambda>round s. addRoundKey (mixColumns (shiftRows (subBytes s))) w round) [1..<10] s0
      in addRoundKey (shiftRows (subBytes s1)) w 10)"

fun ecb_cipher :: "nat \<Rightarrow> 32 word list \<Rightarrow> 8 word list \<Rightarrow> 8 word list" where
  "ecb_cipher 0 w pt = []"
| "ecb_cipher (Suc n) w pt = cipherBlock (take 16 pt) w @ ecb_cipher n w (drop 16 pt)"

text \<open>What a substitution-permutation network owes its inverse.\<close>

locale round_cipher =
  fixes blk :: "'s \<Rightarrow> bool"
    and ark :: "nat \<Rightarrow> 's \<Rightarrow> 's"
    and sub isub shift ishift mix imix :: "'s \<Rightarrow> 's"
  assumes ark_ark: "blk s \<Longrightarrow> ark r (ark r s) = s"
    and isub_sub: "blk s \<Longrightarrow> isub (sub s) = s"
    and ishift_shift: "blk s \<Longrightarrow> ishift (shift s) = s"
    and imix_mix: "blk s \<Longrightarrow> imix (mix s) = s"
    and blk_ark: "blk s \<Longrightarrow> blk (ark r s)"
    and blk_sub: "blk s \<Longrightarrow> blk (sub s)"
    and blk_shift: "blk s \<Longrightarrow> blk (shift s)"
    and blk_mix: "blk s \<Longrightarrow> blk (mix s)"
begin

lemmas blk_layers = blk_ark blk_sub blk_shift blk_mix

lemmas undo_layers = ark_ark isub_sub ishift_shift imix_mix

lemma blk_rounds: "blk s \<Longrightarrow> blk (fold (\<lambda>r s. ark r (mix (shift (sub s)))) rs s)"
  by (induction rs arbitrary: s) (simp_all add: blk_layers)

text \<open>The inverse rounds, run backwards from behind the S-box layer, undo the rounds.\<close>

lemma rounds_undo:
  "blk s \<Longrightarrow>
     fold (\<lambda>r s. imix (ark r (isub (ishift s)))) (rev rs)
       (shift (sub (fold (\<lambda>r s. ark r (mix (shift (sub s)))) rs s))) = shift (sub s)"
proof (induction rs arbitrary: s)
  case Nil
  then show ?case by simp
next
  case (Cons r rs)
  let ?t = "ark r (mix (shift (sub s)))"
  have "blk ?t" using Cons.prems by (simp add: blk_layers)
  then show ?case
    using Cons.IH [of ?t] Cons.prems by (simp add: blk_layers undo_layers)
qed

lemma cipher_undo:
  assumes "blk s"
  shows "ark a (isub (ishift
     (fold (\<lambda>r s. imix (ark r (isub (ishift s)))) (rev rs)
        (ark b (ark b (shift (sub (fold (\<lambda>r s. ark r (mix (shift (sub s)))) rs (ark a s))))))))) = s"
  using assms rounds_undo [OF blk_ark [OF assms], of rs a]
  by (simp add: blk_layers blk_rounds undo_layers)

end

section \<open>The layers are inverse to each other\<close>

lemma fold_update_length [simp]: "length (fold (\<lambda>i t. t[f i := g i]) is t) = length t"
  by (induction "is" arbitrary: t) auto

lemma fold_update_other:
  "j \<notin> f ` set is \<Longrightarrow> fold (\<lambda>i t. t[f i := g i]) is t ! j = t ! j"
  by (induction "is" arbitrary: t) auto

lemma fold_update_nth:
  "distinct (map f is) \<Longrightarrow> i \<in> set is \<Longrightarrow> f i < length t \<Longrightarrow>
     fold (\<lambda>i t. t[f i := g i]) is t ! f i = g i"
proof (induction "is" arbitrary: t)
  case (Cons k ks)
  show ?case
  proof (cases "i = k")
    case True
    then show ?thesis using Cons.prems by (simp add: fold_update_other)
  next
    case False
    then show ?thesis using Cons by simp
  qed
qed simp

lemma length_SBOX [simp]: "length SBOX = 256"
  by (simp add: SBOX_def)

lemma distinct_SBOX: "distinct SBOX"
proof -
  have "distinct (map unat SBOX)" by (simp add: SBOX_def)
  then show ?thesis by (simp add: distinct_map)
qed

lemma INV_SBOX_SBOX: "INV_SBOX ! unat (SBOX ! unat b) = b"
proof -
  have "map (\<lambda>i. unat (SBOX ! i)) [0..<256] = map unat SBOX"
    using map_nth [of SBOX] by (metis (no_types, lifting) length_SBOX map_map map_eq_conv comp_apply)
  moreover have "distinct (map unat SBOX)"
    using distinct_SBOX by (simp add: distinct_map inj_on_def word_unat_eq_iff)
  ultimately have d: "distinct (map (\<lambda>i. unat (SBOX ! i)) [0..<256])" by simp
  have "unat b \<in> set [0..<256]" using unat_byte_less [of b] by simp
  then have "INV_SBOX ! unat (SBOX ! unat b) = of_nat (unat b)"
    unfolding INV_SBOX_def
    by (rule fold_update_nth [where f = "\<lambda>i. unat (SBOX ! i)", OF d]) (simp add: unat_byte_less)
  then show ?thesis by simp
qed

lemma length_INV_SBOX [simp]: "length INV_SBOX = 256"
  by (simp add: INV_SBOX_def)

lemma xtime_xor: "xtime (a XOR b) = xtime a XOR xtime b"
proof -
  have "(x AND 0x80 \<noteq> 0) = bit x 7" for x :: "8 word"
    using and_exp_eq_0_iff_not_bit [of x 7] by simp
  then show ?thesis
    by (auto simp: xtime_def push_bit_xor bit_xor_iff ac_simps)
qed

lemma multiply_loop_step:
  "bb \<noteq> 0 \<Longrightarrow> multiply_loop r aa bb =
     multiply_loop (if bb AND 1 \<noteq> 0 then r XOR aa else r) (xtime aa) (bb div 2)"
  by (subst multiply_loop.simps) (simp add: drop_bit_eq_div)

lemma multiply_loop_0: "multiply_loop r aa 0 = r"
  by (subst multiply_loop.simps) simp

lemma multiply_loop_bits:
  "multiply_loop r a 1 = r XOR a"
  "multiply_loop r a 2 = multiply_loop r (xtime a) 1"
  "multiply_loop r a 3 = multiply_loop (r XOR a) (xtime a) 1"
  "multiply_loop r a 4 = multiply_loop r (xtime a) 2"
  "multiply_loop r a 5 = multiply_loop (r XOR a) (xtime a) 2"
  "multiply_loop r a 6 = multiply_loop r (xtime a) 3"
  "multiply_loop r a 7 = multiply_loop (r XOR a) (xtime a) 3"
  "multiply_loop r a 0x09 = multiply_loop (r XOR a) (xtime a) 4"
  "multiply_loop r a 0x0b = multiply_loop (r XOR a) (xtime a) 5"
  "multiply_loop r a 0x0d = multiply_loop (r XOR a) (xtime a) 6"
  "multiply_loop r a 0x0e = multiply_loop r (xtime a) 7"
  by (subst multiply_loop_step; simp add: multiply_loop_0)+

lemma multiply_simps:
  "multiply a 2 = xtime a"
  "multiply a 3 = a XOR xtime a"
  "multiply a 0x09 = a XOR xtime (xtime (xtime a))"
  "multiply a 0x0b = a XOR xtime a XOR xtime (xtime (xtime a))"
  "multiply a 0x0d = a XOR xtime (xtime a) XOR xtime (xtime (xtime a))"
  "multiply a 0x0e = xtime a XOR xtime (xtime a) XOR xtime (xtime (xtime a))"
  by (simp_all only: multiply_def multiply_loop_bits xor.assoc xor.left_neutral)

definition is_block :: "8 word list \<Rightarrow> bool" where
  "is_block s \<longleftrightarrow> length s = 16"

lemma is_block_cases:
  assumes "is_block s"
  obtains a0 a1 a2 a3 a4 a5 a6 a7 a8 a9 a10 a11 a12 a13 a14 a15
  where "s = [a0, a1, a2, a3, a4, a5, a6, a7, a8, a9, a10, a11, a12, a13, a14, a15]"
proof -
  have "length s = Suc (Suc (Suc (Suc (Suc (Suc (Suc (Suc (Suc (Suc (Suc (Suc (Suc (Suc (Suc
      (Suc 0)))))))))))))))"
    using assms by (simp add: is_block_def)
  then show ?thesis by (auto simp: length_Suc_conv intro: that)
qed

lemma upt_4: "[0..<4] = [0, 1, 2, 3 :: nat]" by (simp add: upt_rec)
lemma upt_16: "[0..<16] = [0, 1, 2, 3, 4, 5, 6, 7, 8, 9, 10, 11, 12, 13, 14, 15 :: nat]"
  by (simp add: upt_rec)

lemma addRoundKey_twice: "is_block s \<Longrightarrow> addRoundKey (addRoundKey s w r) w r = s"
  by (erule is_block_cases)
    (simp add: addRoundKey_def addRoundKey_col_def upt_4 at8_def Let_def xor.assoc)

lemma invShiftRows_shiftRows: "is_block s \<Longrightarrow> invShiftRows (shiftRows s) = s"
  by (erule is_block_cases) (simp add: invShiftRows_def shiftRows_def upt_16 at8_def Let_def)

lemma invSubBytes_subBytes: "is_block s \<Longrightarrow> invSubBytes (subBytes s) = s"
  by (erule is_block_cases)
    (simp add: invSubBytes_def subBytes_def upt_16 at8_def unat_byte_less INV_SBOX_SBOX)

lemma invMix_mix: "is_block s \<Longrightarrow> invMixColumns (mixColumns s) = s"
  by (erule is_block_cases)
    (simp add: invMixColumns_def mixColumns_def invMixColumn_def mixColumn_def upt_4 at8_def
      Let_def multiply_simps xtime_xor xor.assoc xor.left_commute)

lemma length_fold_layer: "(\<And>i s. length (f i s) = length s) \<Longrightarrow> length (fold f is s) = length s"
  by (induction "is" arbitrary: s) auto

lemma length_layers [simp]:
  "length (addRoundKey s w r) = length s"
  "length (invSubBytes s) = length s"
  "length (invShiftRows s) = length s"
  "length (invMixColumns s) = length s"
  "length (mixColumns s) = length s"
  by (simp_all add: addRoundKey_def addRoundKey_col_def invSubBytes_def invMixColumns_def
      invMixColumn_def mixColumns_def mixColumn_def invShiftRows_def Let_def length_fold_layer)

lemma is_block_layers:
  "is_block s \<Longrightarrow> is_block (addRoundKey s w r)"
  "is_block s \<Longrightarrow> is_block (subBytes s)"
  "is_block s \<Longrightarrow> is_block (shiftRows s)"
  "is_block s \<Longrightarrow> is_block (mixColumns s)"
  by (simp_all add: is_block_def subBytes_def shiftRows_def)

interpretation aes: round_cipher is_block "\<lambda>r s. addRoundKey s w r" subBytes invSubBytes
    shiftRows invShiftRows mixColumns invMixColumns for w
  by unfold_locales
    (simp_all add: addRoundKey_twice invSubBytes_subBytes invShiftRows_shiftRows invMix_mix
      is_block_layers)

lemma decrypt_cipher_block: "is_block s \<Longrightarrow> decryptBlock (cipherBlock s w) w = s"
  unfolding decryptBlock_def cipherBlock_def Let_def by (rule aes.cipher_undo)

lemma is_block_cipherBlock: "is_block s \<Longrightarrow> is_block (cipherBlock s w)"
  unfolding cipherBlock_def Let_def by (intro is_block_layers aes.blk_rounds)

section \<open>The ECB loop\<close>

lemma length_decryptBlock [simp]: "length (decryptBlock b w) = length b"
  by (simp add: decryptBlock_def Let_def length_fold_layer del: fold_simps)

text \<open>The loop of block writes builds the concatenation of the decrypted blocks.\<close>

lemma ecb_loop_blocks:
  assumes "length ct = 16 * n" and "m \<le> n"
  shows "fold (\<lambda>off pt. typed_set off (decryptBlock (js_slice off (off + 16) ct) w) pt)
       (map (\<lambda>b. 16 * b) [0..<m]) (replicate (16 * n) 0) =
     concat (map (\<lambda>b. decryptBlock (js_slice (16 * b) (16 * b + 16) ct) w) [0..<m]) @
       replicate (16 * (n - m)) 0"
  using assms(2)
proof (induction m)
  case 0
  then show ?case by simp
next
  case (Suc m)
  define blocks where
    "blocks = concat (map (\<lambda>b. decryptBlock (js_slice (16 * b) (16 * b + 16) ct) w) [0..<m])"
  have len: "length (js_slice (16 * b) (16 * b + 16) ct) = 16" if "b < n" for b
    using that assms(1) by (simp add: js_slice_def)
  have "length blocks = 16 * m"
    using Suc.prems len unfolding blocks_def by (subst length_concat_const [where n = 16]) auto
  then have "typed_set (16 * m) (decryptBlock (js_slice (16 * m) (16 * m + 16) ct) w)
      (blocks @ replicate (16 * (n - m)) 0) =
    blocks @ decryptBlock (js_slice (16 * m) (16 * m + 16) ct) w @ replicate (16 * (n - Suc m)) 0"
    using Suc.prems len [of m] by (simp add: typed_set_def)
  then show ?case using Suc.IH Suc.prems by (simp add: blocks_def)
qed

lemma aes128EcbDecrypt_blocks:
  assumes "length ct = 16 * n"
  shows "aes128EcbDecrypt key ct =
     concat (map (\<lambda>b. decryptBlock (js_slice (16 * b) (16 * b + 16) ct) (expandKey key)) [0..<n])"
proof -
  have "(length ct + 15) div 16 = n" using assms by simp
  then show ?thesis
    using ecb_loop_blocks [OF assms order_refl, of "expandKey key"] assms
    by (simp add: aes128EcbDecrypt_def Let_def)
qed

lemma length_ecb_cipher: "length pt = 16 * n \<Longrightarrow> length (ecb_cipher n w pt) = 16 * n"
proof (induction n arbitrary: pt)
  case (Suc n)
  then have "is_block (take 16 pt)" by (simp add: is_block_def)
  then have "length (cipherBlock (take 16 pt) w) = 16"
    using is_block_cipherBlock by (simp add: is_block_def)
  then show ?case using Suc by simp
qed simp

lemma decrypt_ecb_blocks:
  "length pt = 16 * n \<Longrightarrow>
     concat (map (\<lambda>b. decryptBlock (js_slice (16 * b) (16 * b + 16) (ecb_cipher n w pt)) w) [0..<n]) = pt"
proof (induction n arbitrary: pt)
  case (Suc n)
  define c where "c = cipherBlock (take 16 pt) w"
  have blk: "is_block (take 16 pt)" using Suc.prems by (simp add: is_block_def)
  then have len: "length c = 16"
    using is_block_cipherBlock by (simp add: is_block_def c_def)
  have "decryptBlock c w = take 16 pt"
    unfolding c_def by (rule decrypt_cipher_block [OF blk])
  moreover have "js_slice (16 * Suc b) (16 * Suc b + 16) (c @ e) = js_slice (16 * b) (16 * b + 16) e"
    for b and e :: "8 word list"
    using len by (simp add: js_slice_def add.commute)
  moreover have "length (drop 16 pt) = 16 * n" using Suc.prems by simp
  ultimately show ?case
    using Suc.IH [of "drop 16 pt"] len
    by (simp add: js_slice_def upt_conv_Cons map_Suc_upt [symmetric] comp_def
        flip: c_def del: upt_Suc mult_Suc_right)
qed simp

section \<open>The key schedule\<close>

text \<open>Section 5.2 of the standard: rotate, substitute, add the round constant.\<close>

definition subWord :: "32 word \<Rightarrow> 32 word" where
  "subWord w = byte_word (SBOX ! unat (word_byte 24 w)) (SBOX ! unat (word_byte 16 w))
     (SBOX ! unat (word_byte 8 w)) (SBOX ! unat (word_byte 0 w))"

definition schedule_word :: "nat \<Rightarrow> 32 word \<Rightarrow> 32 word" where
  "schedule_word i temp =
     (if i mod 4 = 0 then subWord (word_rotl 8 temp) XOR push_bit 24 (ucast (RCON ! (i div 4)))
      else temp)"

lemma rotate_word: "push_bit 8 w OR drop_bit 24 w = word_rotl 8 (w :: 32 word)"
proof (rule bit_word_eqI)
  fix n :: nat
  assume n: "n < LENGTH(32)"
  show "bit (push_bit 8 w OR drop_bit 24 w) n = bit (word_rotl 8 w) n"
  proof (cases "n < 8")
    case True
    then show ?thesis
      by (simp add: bit_or_iff bit_push_bit_iff bit_drop_bit_eq bit_word_rotl_iff add.commute)
  next
    case False
    then have "(n + 24) mod 32 = n - 8" and "\<not> bit w (24 + n)"
      using n by (simp_all add: mod_if not_le [symmetric] bit_word.rep_eq)
    then show ?thesis
      using False n by (simp add: bit_or_iff bit_push_bit_iff bit_drop_bit_eq bit_word_rotl_iff)
  qed
qed

lemma expandKey_step_word:
  assumes "length w = 44" and "4 \<le> i" and "i < 44"
  shows "expandKey_step i w = w[i := w ! (i - 4) XOR schedule_word i (w ! (i - 1))]"
proof -
  have "i div 4 < length RCON" using assms(3) by (simp add: RCON_def)
  moreover have "at32 w (i - 1) = w ! (i - 1)" and "at32 w (i - 4) = w ! (i - 4)"
    using assms(1) less_imp_diff_less [OF assms(3)] by (simp_all add: at32_def)
  ultimately show ?thesis
    unfolding expandKey_step_def schedule_word_def subWord_def Let_def
    by (simp add: rotate_word at8_def unat_byte_less)
qed

definition schedule_ok :: "nat \<Rightarrow> 32 word list \<Rightarrow> bool" where
  "schedule_ok n w \<longleftrightarrow> length w = 44 \<and>
     (\<forall>i. 4 \<le> i \<longrightarrow> i < n \<longrightarrow> w ! i = w ! (i - 4) XOR schedule_word i (w ! (i - 1)))"

lemma schedule_loop:
  assumes "length w = 44" and "4 \<le> n" and "n \<le> 44"
  shows "schedule_ok n (fold expandKey_step [4..<n] w) \<and>
     (\<forall>i<4. fold expandKey_step [4..<n] w ! i = w ! i)"
  using assms(2,3)
proof (induction n rule: dec_induct)
  case base
  then show ?case using assms(1) by (simp add: schedule_ok_def)
next
  case (step n)
  define v where "v = fold expandKey_step [4..<n] w"
  have IH: "schedule_ok n v" "\<forall>i<4. v ! i = w ! i"
    using step by (auto simp: v_def)
  have "fold expandKey_step [4..<Suc n] w = expandKey_step n v"
    using step.hyps by (simp add: v_def)
  also have "\<dots> = v[n := v ! (n - 4) XOR schedule_word n (v ! (n - 1))]"
    using IH(1) step by (intro expandKey_step_word) (auto simp: schedule_ok_def)
  finally have upd: "fold expandKey_step [4..<Suc n] w =
      v[n := v ! (n - 4) XOR schedule_word n (v ! (n - 1))]" .
  have "n < length v" using IH(1) step by (simp add: schedule_ok_def)
  then show ?case
    unfolding upd using IH step.hyps
    by (auto simp: schedule_ok_def less_Suc_eq)
qed

lemma expandKey_schedule:
  "schedule_ok 44 (expandKey key) \<and>
   (\<forall>i<4. expandKey key ! i = byte_word (at8 key (i * 4)) (at8 key (i * 4 + 1))
      (at8 key (i * 4 + 2)) (at8 key (i * 4 + 3)))"
proof -
  define w1 where "w1 = fold (\<lambda>i w. w[i := byte_word (at8 key (i * 4)) (at8 key (i * 4 + 1))
      (at8 key (i * 4 + 2)) (at8 key (i * 4 + 3))]) [0..<4] (replicate 44 (0 :: 32 word))"
  have "expandKey key = fold expandKey_step [4..<44] w1"
    by (simp add: expandKey_def w1_def Let_def)
  moreover have "length w1 = 44" by (simp add: w1_def)
  moreover have "\<forall>i<4. w1 ! i = byte_word (at8 key (i * 4)) (at8 key (i * 4 + 1))
      (at8 key (i * 4 + 2)) (at8 key (i * 4 + 3))"
    unfolding w1_def
    by (intro allI impI, rule fold_update_nth [where f = "\<lambda>i. i"]) simp_all
  ultimately show ?thesis using schedule_loop [of w1 44] by simp
qed

lemma aes128EcbDecrypt_cipher:
  assumes "length pt = 16 * n"
  shows "aes128EcbDecrypt key (ecb_cipher n (expandKey key) pt) = pt"
  using aes128EcbDecrypt_blocks [OF length_ecb_cipher [OF assms]] decrypt_ecb_blocks [OF assms]
  by simp

section \<open>Properties\<close>





end
