(* ===== verification/MeshTypes.thy ===== *)
theory MeshTypes
  imports Complex_Main JsRuntime
begin

text \<open>
  The records of \<^verbatim>\<open>types.ts\<close> that the modelled components share. A field that may be absent or
  null is an option. Identifiers, counts, timestamps and enumerated codes are integers;
  coordinates are real numbers.
\<close>

record contact_route =
  rt_path :: string
  rt_path_len :: int
  rt_path_hash_mode :: int

datatype route_source = OverrideRoute | DirectRoute | FloodRoute

record contact =
  ct_public_key :: string
  ct_name :: "string option"
  ct_type :: int
  ct_flags :: int
  ct_direct_path :: "string option"
  ct_direct_path_len :: int
  ct_direct_path_hash_mode :: int
  ct_direct_path_updated_at :: "int option"
  ct_route_override_path :: "string option"
  ct_route_override_len :: "int option"
  ct_route_override_hash_mode :: "int option"
  ct_effective_route :: "contact_route option"
  ct_effective_route_source :: "route_source option"
  ct_direct_route :: "contact_route option"
  ct_route_override :: "contact_route option"
  ct_last_advert :: "int option"
  ct_lat :: "real option"
  ct_lon :: "real option"
  ct_last_seen :: "int option"
  ct_on_radio :: bool
  ct_favorite :: bool
  ct_pinned :: "bool option"
  ct_last_contacted :: "int option"
  ct_last_read_at :: "int option"
  ct_first_seen :: "int option"

text \<open>A contact with only a key, for the examples of the development.\<close>

definition sample_contact :: "string \<Rightarrow> contact" where
  "sample_contact key =
     \<lparr>ct_public_key = key, ct_name = None, ct_type = 1, ct_flags = 0, ct_direct_path = None,
      ct_direct_path_len = -1, ct_direct_path_hash_mode = -1, ct_direct_path_updated_at = None,
      ct_route_override_path = None, ct_route_override_len = None, ct_route_override_hash_mode = None,
      ct_effective_route = None, ct_effective_route_source = None, ct_direct_route = None,
      ct_route_override = None, ct_last_advert = None, ct_lat = None, ct_lon = None,
      ct_last_seen = None, ct_on_radio = False, ct_favorite = False, ct_pinned = None,
      ct_last_contacted = None, ct_last_read_at = None, ct_first_seen = None\<rparr>"

definition CONTACT_TYPE_REPEATER :: int where
  "CONTACT_TYPE_REPEATER = 2"

record advert_path =
  ap_path :: string
  ap_path_len :: int
  ap_next_hop :: "string option"
  ap_first_seen :: int
  ap_last_seen :: int
  ap_heard_count :: int

record advert_path_summary =
  aps_public_key :: string
  aps_paths :: "advert_path list"

text \<open>The fields of \<^verbatim>\<open>RadioConfig\<close> the modelled code reads.\<close>

record radio_config =
  rc_public_key :: string
  rc_name :: string
  rc_lat :: real
  rc_lon :: real
  rc_path_hash_mode :: int

record message_path =
  mp_path :: string
  mp_received_at :: int
  mp_path_len :: "int option"
  mp_rssi :: "int option"
  mp_snr :: "real option"

datatype message_type = PRIV | CHAN

text \<open>\<^verbatim>\<open>packet_id\<close>, \<^verbatim>\<open>packet_hash\<close> and \<^verbatim>\<open>observer_reach_eligible\<close> tell undefined from null.\<close>

record message =
  msg_id :: int
  msg_type :: message_type
  msg_conversation_key :: string
  msg_text :: string
  msg_sender_timestamp :: "int option"
  msg_received_at :: int
  msg_paths :: "message_path list option"
  msg_txt_type :: int
  msg_signature :: "string option"
  msg_sender_key :: "string option"
  msg_outgoing :: bool
  msg_acked :: int
  msg_sender_name :: "string option"
  msg_channel_name :: "string option"
  msg_packet_id :: "int option option"
  msg_transport_code :: "int option"
  msg_region :: "string option"
  msg_packet_hash :: "string option option"
  msg_observer_reach_eligible :: "bool option option"

text \<open>A direct message with only an id, a conversation and a time, for the examples.\<close>

definition sample_message :: "int \<Rightarrow> string \<Rightarrow> int \<Rightarrow> message" where
  "sample_message i conv t =
     \<lparr>msg_id = i, msg_type = PRIV, msg_conversation_key = conv, msg_text = ''hi'',
      msg_sender_timestamp = None, msg_received_at = t, msg_paths = None, msg_txt_type = 0,
      msg_signature = None, msg_sender_key = None, msg_outgoing = False, msg_acked = 0,
      msg_sender_name = None, msg_channel_name = None, msg_packet_id = None,
      msg_transport_code = None, msg_region = None, msg_packet_hash = None,
      msg_observer_reach_eligible = None\<rparr>"

datatype conversation_type =
    ConvContact | ConvChannel | ConvRaw | ConvControl | ConvMap | ConvLive | ConvVisualizer
  | ConvSearch | ConvTrace | ConvLocate | ConvDiscovered | ConvTest

record conversation =
  conv_type :: conversation_type
  conv_id :: string
  conv_name :: string
  conv_mapFocusKey :: "string option"
  conv_locateKey :: "string option"

datatype channel_membership = Adopted | Pending

record channel =
  ch_key :: string
  ch_name :: string
  ch_is_hashtag :: bool
  ch_on_radio :: bool
  ch_flood_scope_override :: "string option"
  ch_path_hash_mode_override :: "int option"
  ch_last_read_at :: "int option"
  ch_favorite :: bool
  ch_pinned :: "bool option"
  ch_muted :: bool
  ch_muted_until :: "int option"
  ch_membership :: "channel_membership option"

record decrypted_info =
  di_channel_name :: "string option"
  di_sender :: "string option"
  di_channel_key :: "string option"
  di_contact_key :: "string option"
  di_sender_timestamp :: "int option"
  di_message :: "string option"

record raw_packet =
  rp_id :: int
  rp_observation_id :: "int option"
  rp_timestamp :: int
  rp_received_at_ms :: "int option"
  rp_data :: string
  rp_payload_type :: string
  rp_snr :: "real option"
  rp_rssi :: "int option"
  rp_decrypted :: bool
  rp_decrypted_info :: "decrypted_info option"
  rp_transport_code :: "int option"
  rp_region :: "string option"
  rp_packet_hash :: "string option"

record unread_counts =
  uc_counts :: "string \<rightharpoonup> int"
  uc_mentions :: "string \<rightharpoonup> bool"
  uc_last_message_times :: "(string, int) jsmap"
  uc_last_message_previews :: "string \<rightharpoonup> string"
  uc_last_message_outgoing :: "string \<rightharpoonup> bool"
  uc_last_read_ats :: "string \<rightharpoonup> int option"
  uc_first_unread_ids :: "string \<rightharpoonup> int option"

end
