(* ===== verification/HexCodec.thy ===== *)
theory HexCodec
  imports JsRuntime
begin

unbundle bit_operations_syntax

text \<open>
  Bytes as hexadecimal text: \<open>hexToBytes\<close>, \<open>bytesToHex\<close> and \<open>asBytes\<close> of
  \<^verbatim>\<open>utils/parseGroupData.ts\<close>, and the lemmas on two-digit groups that the packet readers use.
\<close>

section \<open>The codec\<close>

definition is_hex_char :: "char \<Rightarrow> bool" where
  "is_hex_char c \<longleftrightarrow> hex_value c \<noteq> None"

definition strip_separators :: "string \<Rightarrow> string" where
  "strip_separators s = filter (\<lambda>c. \<not> (js_space c \<or> c = CHR '':'')) s"

definition hexToBytes :: "string \<Rightarrow> 8 word list option" where
  "hexToBytes hex =
     (let normalized = strip_separators (strip_0x (js_trim hex)) in
      if length normalized = 0 \<or> length normalized mod 2 \<noteq> 0 \<or> \<not> list_all is_hex_char normalized
      then None
      else Some (map (\<lambda>i. word_of_int (coalesce (parse_int16 (js_slice (i * 2) (i * 2 + 2) normalized)) 0))
             [0..<length normalized div 2]))"

definition byteToHex :: "8 word \<Rightarrow> string" where
  "byteToHex b = pad_start 2 CHR ''0'' (nat_to_string 16 (unat b))"

definition bytesToHex :: "8 word list \<Rightarrow> string" where
  "bytesToHex bytes = concat (map byteToHex bytes)"

datatype byte_input = ByteArray "8 word list" | HexText string

fun asBytes :: "byte_input \<Rightarrow> 8 word list option" where
  "asBytes (HexText s) = hexToBytes s"
| "asBytes (ByteArray bs) = Some bs"

section \<open>Two-digit groups\<close>

definition hex_pair :: "nat \<Rightarrow> string" where
  "hex_pair n = [hex_digit (n div 16), hex_digit (n mod 16)]"

definition nibble_ok :: "nat \<Rightarrow> bool" where
  "nibble_ok d \<longleftrightarrow>
     (let c = hex_digit d; u = upper_char c in
      hex_value c = Some d \<and> hex_value u = Some d \<and> \<not> js_space c \<and> \<not> js_space u \<and>
      c \<noteq> CHR '':'' \<and> c \<noteq> CHR ''-'' \<and> c \<noteq> CHR ''+'' \<and> u \<noteq> CHR ''-'' \<and> u \<noteq> CHR ''+'' \<and>
      lower_char c = c \<and> lower_char u = c \<and> c \<noteq> CHR ''x'')"

lemma nibbles_ok: "list_all nibble_ok [0..<16]"
  by code_simp

lemma hex_digit_facts:
  assumes "d < 16"
  shows "hex_value (hex_digit d) = Some d"
    and "hex_value (upper_char (hex_digit d)) = Some d"
    and "\<not> js_space (hex_digit d)" and "\<not> js_space (upper_char (hex_digit d))"
    and "hex_digit d \<noteq> CHR '':''"
    and "hex_digit d \<notin> {CHR ''-'', CHR ''+''}"
    and "upper_char (hex_digit d) \<notin> {CHR ''-'', CHR ''+''}"
    and "lower_char (hex_digit d) = hex_digit d"
    and "lower_char (upper_char (hex_digit d)) = hex_digit d"
    and "hex_digit d \<noteq> CHR ''x''"
  using nibbles_ok assms by (auto simp: list_all_iff nibble_ok_def Let_def)

lemma hex_char_value:
  assumes "hex_value c = Some d"
  shows "d < 16" and "hex_digit d = lower_char c" and "\<not> js_space c" and "c \<noteq> CHR ''-''"
    and "c \<noteq> CHR ''+''" and "lower_char c \<noteq> CHR ''x''"
proof -
  define n :: nat where "n = of_char c"
  have c: "c = char_of n" by (simp add: n_def)
  have n: "48 \<le> n \<and> n \<le> 57 \<and> d = n - 48 \<or> 65 \<le> n \<and> n \<le> 70 \<and> d = n - 55 \<or>
      97 \<le> n \<and> n \<le> 102 \<and> d = n - 87"
    using assms by (auto simp: hex_value_def n_def Let_def split: if_splits)
  show "d < 16" using n by auto
  show dig: "hex_digit d = lower_char c"
    using n unfolding hex_digit_def lower_char_def Let_def n_def [symmetric]
    by (auto simp: c add.commute)
  have "(of_char CHR ''-'' :: nat) = 45" and "(of_char CHR ''+'' :: nat) = 43" by code_simp+
  then show "c \<noteq> CHR ''-''" and "c \<noteq> CHR ''+''" using n by (auto simp: n_def)
  show "\<not> js_space c" using n by (auto simp: js_space_def n_def)
  show "lower_char c \<noteq> CHR ''x''"
    using dig hex_digit_facts(10) [OF \<open>d < 16\<close>] by simp
qed

lemma nibbles_of_byte: "unat (b :: 8 word) div 16 < 16" "unat b mod 16 < 16"
  using unat_byte_less [of b] by auto

lemma byteToHex_pair: "byteToHex b = hex_pair (unat b)"
proof -
  have zero: "hex_digit 0 = CHR ''0''" by code_simp
  show ?thesis
  proof (cases "unat b < 16")
    case True
    then show ?thesis
      by (simp add: byteToHex_def nat_to_string_def digits_base.simps pad_start_def hex_pair_def
          zero)
  next
    case False
    then have "digits_base 16 (unat b) = [unat b div 16, unat b mod 16]"
      using nibbles_of_byte(1) [of b] by (simp add: digits_base.simps [of 16 "unat b"] digits_base.simps [of 16 "unat b div 16"])
    then show ?thesis
      by (simp add: byteToHex_def nat_to_string_def pad_start_def hex_pair_def)
  qed
qed

lemma length_byteToHex [simp]: "length (byteToHex b) = 2"
  by (simp add: byteToHex_pair hex_pair_def)

lemma length_bytesToHex [simp]: "length (bytesToHex bs) = 2 * length bs"
  by (induction bs) (auto simp: bytesToHex_def)

lemma bytesToHex_append: "bytesToHex (a @ b) = bytesToHex a @ bytesToHex b"
  by (simp add: bytesToHex_def)

lemma bytesToHex_Cons: "bytesToHex (a # b) = byteToHex a @ bytesToHex b"
  by (simp add: bytesToHex_def)

lemma strip_0x_no: "length s \<ge> 2 \<Longrightarrow> lower_char (s ! 1) \<noteq> CHR ''x'' \<Longrightarrow> strip_0x s = s"
  by (cases s; cases "tl s") (auto simp: strip_0x_def to_lower_def)

lemma parse_hex_pair:
  assumes "a < 16" "b < 16" and "x \<in> {hex_digit a, upper_char (hex_digit a)}"
    and "y \<in> {hex_digit b, upper_char (hex_digit b)}"
  shows "parse_int16 [x, y] = Some (int (16 * a + b))"
proof -
  note f = hex_digit_facts [OF assms(1)] hex_digit_facts [OF assms(2)]
  have "\<not> js_space x" "x \<noteq> CHR ''-''" "x \<noteq> CHR ''+''" "hex_value x = Some a"
    and "hex_value y = Some b" "lower_char y \<noteq> CHR ''x''"
    using assms(3,4) f by auto
  then show ?thesis
    by (simp add: parse_int16_def strip_0x_no parse_hex_digits_def)
qed

lemma parse_byteToHex:
  "parse_int16 (byteToHex b) = Some (uint b)"
  "parse_int16 (to_upper (byteToHex b)) = Some (uint b)"
proof -
  note lt = nibbles_of_byte [of b]
  have "int (16 * (unat b div 16) + unat b mod 16) = uint b" by simp
  then show "parse_int16 (byteToHex b) = Some (uint b)"
    "parse_int16 (to_upper (byteToHex b)) = Some (uint b)"
    using parse_hex_pair [OF lt] by (simp_all add: byteToHex_pair hex_pair_def to_upper_def)
qed

lemma bytesToHex_chars:
  "c \<in> set (bytesToHex bs) \<Longrightarrow> \<exists>d<16. c = hex_digit d"
proof -
  assume "c \<in> set (bytesToHex bs)"
  then obtain b where "c \<in> set (byteToHex b)" by (auto simp: bytesToHex_def)
  then have "c = hex_digit (unat b div 16) \<or> c = hex_digit (unat b mod 16)"
    by (simp add: byteToHex_pair hex_pair_def)
  then show ?thesis using nibbles_of_byte [of b] by blast
qed

lemma drop_bytesToHex: "drop (2 * n) (bytesToHex bs) = bytesToHex (drop n bs)"
  by (induction bs arbitrary: n) (auto simp: bytesToHex_def drop_Cons split: nat.split)

lemma slice_bytesToHex:
  "i < length bs \<Longrightarrow> js_slice (i * 2) (i * 2 + 2) (bytesToHex bs) = byteToHex (bs ! i)"
proof (induction bs arbitrary: i)
  case (Cons b bs)
  show ?case
  proof (cases i)
    case 0
    then show ?thesis by (simp add: js_slice_def bytesToHex_Cons)
  next
    case (Suc j)
    then show ?thesis
      using Cons.IH [of j] Cons.prems by (simp add: js_slice_def bytesToHex_Cons)
  qed
qed simp

section \<open>Round trips\<close>

lemma js_trim_id:
  "(\<And>c. c \<in> set s \<Longrightarrow> \<not> js_space c) \<Longrightarrow> js_trim s = s"
proof -
  assume h: "\<And>c. c \<in> set s \<Longrightarrow> \<not> js_space c"
  then have "dropWhile js_space s = s" by (cases s) auto
  moreover have "dropWhile js_space (rev s) = rev s" using h by (cases "rev s") (auto simp: in_set_conv_decomp [of _ s])
  ultimately show "js_trim s = s" by (simp add: js_trim_def)
qed

lemma hex_text_chars: "f \<in> {id, upper_char} \<Longrightarrow> list_all is_hex_char (map f (bytesToHex bs))"
  using bytesToHex_chars hex_digit_facts(1,2) by (fastforce simp: list_all_iff is_hex_char_def)

text \<open>Hexadecimal digits contain nothing for the normalisation to strip.\<close>

lemma strip_hex_chars:
  assumes "list_all is_hex_char s"
  shows "strip_separators (strip_0x (js_trim s)) = s" and "strip_separators (strip_0x s) = s"
proof -
  have colon: "hex_value CHR '':'' = None" by code_simp
  have chars: "\<not> js_space c" "c \<noteq> CHR '':''" "lower_char c \<noteq> CHR ''x''" if "c \<in> set s" for c
    using assms that colon hex_char_value [of c] by (auto simp: list_all_iff is_hex_char_def)
  have no_0x: "strip_0x s = s"
  proof (cases "2 \<le> length s")
    case True
    then show ?thesis using chars(3) [of "s ! 1"] by (intro strip_0x_no) auto
  next
    case False
    then show ?thesis by (auto simp: strip_0x_def to_lower_def dest: arg_cong [of _ _ length])
  qed
  moreover have "strip_separators s = s" using chars by (simp add: strip_separators_def filter_id_conv)
  moreover have "js_trim s = s" using chars(1) by (rule js_trim_id)
  ultimately show "strip_separators (strip_0x (js_trim s)) = s" and "strip_separators (strip_0x s) = s"
    by simp_all
qed

lemma js_slice_map: "js_slice a b (map f s) = map f (js_slice a b s)"
  by (simp add: js_slice_def take_map drop_map)

lemma hexToBytes_hex_text:
  assumes f: "f \<in> {id, upper_char}" and ne: "bs \<noteq> []"
  shows "hexToBytes (map f (bytesToHex bs)) = Some bs"
proof -
  have hex: "list_all is_hex_char (map f (bytesToHex bs))"
    using f by (rule hex_text_chars)
  have "parse_int16 (map f (byteToHex b)) = Some (uint b)" for b
    using f parse_byteToHex [of b] by (auto simp: to_upper_def)
  then have "map (\<lambda>i. word_of_int (coalesce (parse_int16 (js_slice (i * 2) (i * 2 + 2)
        (map f (bytesToHex bs)))) 0)) [0..<length bs] = map ((!) bs) [0..<length bs]"
    using slice_bytesToHex [of _ bs] by (intro map_cong) (simp_all add: js_slice_map coalesce_def)
  moreover have "bytesToHex bs \<noteq> []"
    using ne by (metis length_0_conv length_bytesToHex mult_eq_0_iff zero_neq_numeral)
  ultimately show ?thesis
    using hex by (simp add: hexToBytes_def strip_hex_chars(1) [OF hex] Let_def map_nth)
qed

lemma hexToBytes_bytesToHex [js_hex_simps]: "bs \<noteq> [] \<Longrightarrow> hexToBytes (bytesToHex bs) = Some bs"
  using hexToBytes_hex_text [of id bs] by simp

lemma hexToBytes_upper [js_hex_simps]: "bs \<noteq> [] \<Longrightarrow> hexToBytes (to_upper (bytesToHex bs)) = Some bs"
  using hexToBytes_hex_text [of upper_char bs] by (simp add: to_upper_def)

lemma hexToBytes_nonempty: "hexToBytes s = Some bs \<Longrightarrow> bs \<noteq> []"
  by (auto simp: hexToBytes_def Let_def split: if_splits)

lemma byteToHex_parse_pair:
  assumes "is_hex_char x" and "is_hex_char y"
  shows "byteToHex (word_of_int (coalesce (parse_int16 [x, y]) 0)) = to_lower [x, y]"
proof -
  obtain a b where ab: "hex_value x = Some a" "hex_value y = Some b"
    using assms by (auto simp: is_hex_char_def)
  note f = hex_char_value [OF ab(1)] hex_char_value [OF ab(2)]
  have "strip_0x [x, y] = [x, y]" using f(12) by (intro strip_0x_no) simp_all
  then have "parse_int16 [x, y] = Some (int (16 * a + b))"
    using f(3-5) ab by (simp add: parse_int16_def parse_hex_digits_def)
  moreover have "16 * a + b < 256" using f(1,7) by simp
  then have "unat (word_of_int (int (16 * a + b)) :: 8 word) = 16 * a + b"
    by (simp only: of_int_of_nat_eq unat_of_nat) simp
  moreover have "(16 * a + b) div 16 = a" and "(16 * a + b) mod 16 = b" using f(7) by simp_all
  ultimately show ?thesis
    using f(2,8) by (simp add: coalesce_def byteToHex_pair hex_pair_def to_lower_def)
qed

lemma hex_pairs_text:
  assumes "list_all is_hex_char s" and "length s = 2 * n"
  shows "bytesToHex (map (\<lambda>i. word_of_int (coalesce (parse_int16 (js_slice (i * 2) (i * 2 + 2) s)) 0))
     [0..<n]) = to_lower s"
  using assms
proof (induction n arbitrary: s)
  case 0
  then show ?case by (simp add: bytesToHex_def to_lower_def)
next
  case (Suc n)
  then obtain x y t where s: "s = x # y # t" by (cases s; cases "tl s") auto
  have "js_slice (Suc i * 2) (Suc i * 2 + 2) s = js_slice (i * 2) (i * 2 + 2) t" for i
    by (simp add: s js_slice_def)
  moreover have "js_slice 0 (Suc (Suc 0)) s = [x, y]" by (simp add: s js_slice_def)
  moreover have "length t = 2 * n" using Suc.prems(2) by (simp add: s)
  ultimately show ?case
    using Suc.IH [of t] Suc.prems(1)
    by (simp add: s upt_conv_Cons map_Suc_upt [symmetric] comp_def bytesToHex_Cons
        byteToHex_parse_pair to_lower_def del: upt_Suc mult_Suc mult_Suc_right)
qed

section \<open>Properties\<close>

text \<open>
  Writing bytes as hexadecimal text and reading them back gives the bytes, for the text in
  lower case and in upper case.
\<close>

theorem hex_bytes_roundtrip:
  "bs \<noteq> [] \<Longrightarrow> hexToBytes (bytesToHex bs) = Some bs \<and> hexToBytes (to_upper (bytesToHex bs)) = Some bs"
  by (simp add: js_hex_simps)

theorem hex_bytes_roundtrip_witness:
  "hexToBytes (bytesToHex [0, 0xA5, 0xFF]) = Some [0, 0xA5, 0xFF] \<and>
   hexToBytes (to_upper (bytesToHex [0, 0xA5, 0xFF])) = Some [0, 0xA5, 0xFF]"
  by (rule hex_bytes_roundtrip) simp


end
