(* ===== verification/PathCodec.thy ===== *)
theory PathCodec
  imports MeshTypes HexCodec
begin

unbundle bit_operations_syntax

text \<open>
  The route half of \<^verbatim>\<open>utils/pathUtils.ts\<close>: hash modes, splitting a hex path into hops, the
  effective route of a contact, route labels, and the payload of a raw packet.
\<close>

section \<open>Hash modes and hops\<close>

definition MAX_PATH_BYTES :: nat where
  "MAX_PATH_BYTES = 64"

definition normalizePathHashMode :: "int option \<Rightarrow> int option" where
  "normalizePathHashMode mode =
     (case mode of None \<Rightarrow> None | Some m \<Rightarrow> if m < 0 \<or> 2 < m then None else Some m)"

text \<open>JavaScript's \<^verbatim>\<open>x % 2\<close> on the non-negative quotients that occur here.\<close>

definition rat_mod2 :: "rat \<Rightarrow> rat" where
  "rat_mod2 x = x - 2 * of_int \<lfloor>x / 2\<rfloor>"

definition inferPathHashMode :: "string option \<Rightarrow> int option \<Rightarrow> int option" where
  "inferPathHashMode path hopCount =
     (case path of None \<Rightarrow> None | Some p \<Rightarrow>
      case hopCount of None \<Rightarrow> None | Some h \<Rightarrow>
        if p = [] \<or> h \<le> 0 then None
        else
          let charsPerHop = rat_of_nat (length p) / rat_of_int h in
          if charsPerHop < 2 \<or> 6 < charsPerHop \<or> rat_mod2 charsPerHop \<noteq> 0
             \<or> charsPerHop * rat_of_int h \<noteq> rat_of_nat (length p)
          then None
          else Some \<lfloor>charsPerHop / 2 - 1\<rfloor>)"

definition formatEndpointPrefix :: "string option \<Rightarrow> int option \<Rightarrow> string" where
  "formatEndpointPrefix key pathHashMode =
     (case or_null key of None \<Rightarrow> ''??'' | Some k \<Rightarrow>
        let normalized = to_upper k;
            hashMode = coalesce (normalizePathHashMode pathHashMode) 0;
            chars = nat ((hashMode + 1) * 2)
        in js_slice 0 (min chars (length normalized)) normalized)"

text \<open>The loop of \<open>parsePathHops\<close>; the width it is called with is positive.\<close>

function split_hops :: "nat \<Rightarrow> nat \<Rightarrow> string \<Rightarrow> string list" where
  "split_hops c i s =
     (if 0 < c \<and> i + c \<le> length s then js_slice i (i + c) s # split_hops c (i + c) s else [])"
  by pat_completeness auto
termination
  by (relation "measure (\<lambda>(c, i, s). length s - i)") auto

declare split_hops.simps [simp del]

definition hop_width :: "nat \<Rightarrow> int option \<Rightarrow> nat" where
  "hop_width len hopCount =
     (case hopCount of None \<Rightarrow> 2 | Some h \<Rightarrow>
        if 0 < h then
          let derived = rat_of_nat len / rat_of_int h in
          if 2 \<le> derived \<and> rat_mod2 derived = 0 \<and> derived * rat_of_int h = rat_of_nat len
          then nat \<lfloor>derived\<rfloor> else 2
        else 2)"

definition parsePathHops :: "string option \<Rightarrow> int option \<Rightarrow> string list" where
  "parsePathHops path hopCount =
     (case or_null path of None \<Rightarrow> [] | Some p \<Rightarrow>
        let normalized = to_upper p in
        split_hops (hop_width (length normalized) hopCount) 0 normalized)"

section \<open>Contact routes\<close>

definition hasRoutingOverride :: "contact \<Rightarrow> bool" where
  "hasRoutingOverride c \<longleftrightarrow> ct_route_override c \<noteq> None \<or> ct_route_override_len c \<noteq> None"

definition getDirectContactRoute :: "contact \<Rightarrow> contact_route option" where
  "getDirectContactRoute c =
     (case ct_direct_route c of Some r \<Rightarrow> Some r | None \<Rightarrow>
        if ct_direct_path_len c < 0 then None
        else Some \<lparr>rt_path = coalesce (ct_direct_path c) [],
                   rt_path_len = ct_direct_path_len c,
                   rt_path_hash_mode =
                     (case normalizePathHashMode (Some (ct_direct_path_hash_mode c)) of
                        Some m \<Rightarrow> m
                      | None \<Rightarrow> coalesce
                          (inferPathHashMode (ct_direct_path c) (Some (ct_direct_path_len c))) 0)\<rparr>)"

definition getRouteOverride :: "contact \<Rightarrow> contact_route option" where
  "getRouteOverride c =
     (case ct_route_override c of Some r \<Rightarrow> Some r | None \<Rightarrow>
        if \<not> hasRoutingOverride c then None
        else
          let pathLen = coalesce (ct_route_override_len c) (-1);
              mode = normalizePathHashMode (ct_route_override_hash_mode c);
              pathHashMode =
                (if pathLen = -1 then -1
                 else case mode of
                   Some m \<Rightarrow> m
                 | None \<Rightarrow> coalesce (inferPathHashMode (ct_route_override_path c) (Some pathLen)) 0)
          in Some \<lparr>rt_path = coalesce (ct_route_override_path c) [],
                   rt_path_len = pathLen, rt_path_hash_mode = pathHashMode\<rparr>)"

record effective_contact_route =
  er_path :: "string option"
  er_pathLen :: int
  er_pathHashMode :: int
  er_forced :: bool
  er_source :: route_source

definition getEffectiveContactRoute :: "contact \<Rightarrow> effective_contact_route" where
  "getEffectiveContactRoute c =
     (case ct_effective_route c of
        Some route \<Rightarrow>
          \<lparr>er_path = or_null (Some (rt_path route)),
           er_pathLen = rt_path_len route,
           er_pathHashMode = rt_path_hash_mode route,
           er_forced = (ct_effective_route_source c = Some OverrideRoute),
           er_source = coalesce (ct_effective_route_source c) FloodRoute\<rparr>
      | None \<Rightarrow>
          let directRoute = getDirectContactRoute c;
              overrideRoute = getRouteOverride c;
              resolvedRoute = (case overrideRoute of Some r \<Rightarrow> Some r | None \<Rightarrow> directRoute);
              source = (if overrideRoute \<noteq> None then OverrideRoute
                        else if directRoute \<noteq> None then DirectRoute else FloodRoute);
              pathLen = (case resolvedRoute of Some r \<Rightarrow> rt_path_len r | None \<Rightarrow> -1);
              mode = map_option rt_path_hash_mode resolvedRoute;
              pathHashMode =
                (if pathLen = -1 then -1
                 else case mode of
                   Some m \<Rightarrow>
                     if m < 0 \<or> 2 < m
                     then coalesce (inferPathHashMode (map_option rt_path resolvedRoute) (Some pathLen)) 0
                     else m
                 | None \<Rightarrow>
                     coalesce (inferPathHashMode (map_option rt_path resolvedRoute) (Some pathLen)) 0)
          in \<lparr>er_path = or_null (map_option rt_path resolvedRoute),
              er_pathLen = pathLen,
              er_pathHashMode = pathHashMode,
              er_forced = (source = OverrideRoute),
              er_source = source\<rparr>)"

definition formatRouteLabel :: "int \<Rightarrow> bool \<Rightarrow> string" where
  "formatRouteLabel pathLen capitalize =
     (let label =
        (if pathLen = -1 then ''flood''
         else if pathLen = 0 then ''direct''
         else int_to_string pathLen @ '' hop'' @ (if pathLen = 1 then [] else ''s''))
      in if capitalize then to_upper (take 1 label) @ drop 1 label else label)"

definition route_summary :: "int \<Rightarrow> string list \<Rightarrow> string" where
  "route_summary pathLen hops =
     (let label = formatRouteLabel pathLen True in
      if 0 < length hops then label @ '' ('' @ join '' -> '' hops @ '')'' else label)"

definition formatLearnedRouteSummary :: "contact \<Rightarrow> string" where
  "formatLearnedRouteSummary c =
     (case getDirectContactRoute c of
        None \<Rightarrow> formatRouteLabel (-1) True
      | Some r \<Rightarrow> route_summary (rt_path_len r) (parsePathHops (Some (rt_path r)) (Some (rt_path_len r))))"

definition formatForcedRouteSummary :: "contact \<Rightarrow> string option" where
  "formatForcedRouteSummary c =
     (if \<not> hasRoutingOverride c then None
      else
        let e = getEffectiveContactRoute c in
        if er_pathLen e = -1 then Some (formatRouteLabel (-1) True)
        else Some (route_summary (er_pathLen e) (parsePathHops (er_path e) (Some (er_pathLen e)))))"

definition formatRoutingOverrideInput :: "contact \<Rightarrow> string" where
  "formatRoutingOverrideInput c =
     (case getRouteOverride c of
        None \<Rightarrow> []
      | Some r \<Rightarrow>
          if rt_path_len r = -1 then ''-1''
          else if rt_path_len r = 0 then ''0''
          else join '','' (map to_lower (parsePathHops (Some (rt_path r)) (Some (rt_path_len r)))))"

section \<open>The payload of a raw packet\<close>

definition extractPacketPayloadHex :: "string \<Rightarrow> string option" where
  "extractPacketPayloadHex packetHex =
     (if length packetHex < 4 then None
      else
        let normalized = to_upper packetHex;
            header = to_int32 (parse_int16 (js_slice 0 2 normalized));
            routeType = header AND 0x03;
            transport = (routeType = 0x00 \<or> routeType = 0x03);
            offset1 = (if transport then 10 else 2)
        in
        if transport \<and> length normalized < 2 + 8 then None
        else if length normalized < offset1 + 2 then None
        else
          let pathByte = to_int32 (parse_int16 (js_slice offset1 (offset1 + 2) normalized));
              offset2 = offset1 + 2;
              hashMode = signed_drop_bit 6 pathByte AND 0x03
          in
          if hashMode = 0x03 then None
          else
            let hopCount = unat (pathByte AND 0x3f);
                hashSize = unat hashMode + 1;
                pathByteLen = hopCount * hashSize
            in
            if MAX_PATH_BYTES < pathByteLen then None
            else
              let pathHexChars = pathByteLen * 2 in
              if length normalized < offset2 + pathHexChars then None
              else
                let offset3 = offset2 + pathHexChars in
                if length normalized \<le> offset3 then None
                else Some (drop offset3 normalized))"

section \<open>Hop counts\<close>

definition getHopCount :: "string option \<Rightarrow> int option \<Rightarrow> int" where
  "getHopCount path hopCount =
     (case hopCount of
        Some h \<Rightarrow> if 0 \<le> h then h
                  else (case or_null path of None \<Rightarrow> 0 | Some p \<Rightarrow> int (length p div 2))
      | None \<Rightarrow> (case or_null path of None \<Rightarrow> 0 | Some p \<Rightarrow> int (length p div 2)))"

record hop_counts =
  hc_display :: string
  hc_allDirect :: bool
  hc_hasMultiple :: bool

definition formatHopCounts :: "message_path list option \<Rightarrow> hop_counts" where
  "formatHopCounts paths =
     (case paths of
        None \<Rightarrow> \<lparr>hc_display = [], hc_allDirect = True, hc_hasMultiple = False\<rparr>
      | Some ps \<Rightarrow>
          if ps = [] then \<lparr>hc_display = [], hc_allDirect = True, hc_hasMultiple = False\<rparr>
          else
            let hopCounts = js_sort (\<lambda>a b. a - b)
                  (map (\<lambda>p. getHopCount (Some (mp_path p)) (mp_path_len p)) ps);
                parts = map (\<lambda>h. if h = 0 then ''d'' else int_to_string h) hopCounts
            in \<lparr>hc_display = join ''/'' parts,
                hc_allDirect = list_all (\<lambda>h. h = 0) hopCounts,
                hc_hasMultiple = (1 < length ps)\<rparr>)"

definition formatPathHopWidths :: "message_path list option \<Rightarrow> string option" where
  "formatPathHopWidths paths =
     (case paths of None \<Rightarrow> None | Some ps \<Rightarrow>
        let bytesPerHop = fold (\<lambda>p acc.
              case inferPathHashMode (Some (mp_path p)) (mp_path_len p) of
                None \<Rightarrow> acc | Some mode \<Rightarrow> js_add (mode + 1) acc) ps []
        in if bytesPerHop = [] then None
           else Some (join ''/'' (map (\<lambda>w. int_to_string w @ ''B'') (js_sort (\<lambda>a b. a - b) bytesPerHop))))"

section \<open>Lemmas\<close>

lemma rat_mod2_0: "rat_mod2 x = 0 \<longleftrightarrow> (\<exists>k. x = 2 * of_int k)"
  by (auto simp: rat_mod2_def)

lemma inferPathHashMode_iff:
  "inferPathHashMode (Some p) (Some h) = Some m \<longleftrightarrow>
     0 < h \<and> 0 \<le> m \<and> m \<le> 2 \<and> int (length p) = 2 * (m + 1) * h"
proof (cases "p = [] \<or> h \<le> 0")
  case True
  then show ?thesis by (auto simp: inferPathHashMode_def zero_less_mult_iff)
next
  case False
  define q where "q = rat_of_nat (length p) / rat_of_int h"
  have h: "0 < h" using False by simp
  have qh: "q * rat_of_int h = rat_of_nat (length p)" using h by (simp add: q_def)
  have even_q: "q = 2 * of_int k \<longleftrightarrow> int (length p) = 2 * k * h" for k
  proof -
    have "q = 2 * of_int k \<longleftrightarrow> rat_of_nat (length p) = 2 * of_int k * rat_of_int h"
      using h by (simp add: q_def field_simps)
    also have "\<dots> \<longleftrightarrow> rat_of_int (int (length p)) = rat_of_int (2 * k * h)" by simp
    finally show ?thesis by (simp only: of_int_eq_iff)
  qed
  have "inferPathHashMode (Some p) (Some h) =
      (if q < 2 \<or> 6 < q \<or> rat_mod2 q \<noteq> 0 then None else Some \<lfloor>q / 2 - 1\<rfloor>)"
    using False qh by (simp add: inferPathHashMode_def q_def [symmetric])
  also have "\<dots> = Some m \<longleftrightarrow> 0 \<le> m \<and> m \<le> 2 \<and> q = 2 * of_int (m + 1)"
  proof (cases "\<exists>k. q = 2 * of_int k")
    case True
    then obtain k where k: "q = 2 * of_int k" by blast
    then have "\<lfloor>q / 2 - 1\<rfloor> = k - 1" and "q < 2 \<longleftrightarrow> k < 1" and "6 < q \<longleftrightarrow> 3 < k"
      and "rat_mod2 q = 0" and "q = 2 * of_int (m + 1) \<longleftrightarrow> k = m + 1"
      by (auto simp: rat_mod2_0)
    then show ?thesis by auto
  next
    case False
    then have "rat_mod2 q \<noteq> 0" and "q \<noteq> 2 * of_int (m + 1)" unfolding rat_mod2_0 by blast+
    then show ?thesis by simp
  qed
  finally show ?thesis using h even_q [of "m + 1"] by blast
qed

lemma hop_width_exact:
  assumes "0 < n" and "1 \<le> k" and "len = n * (2 * k)"
  shows "hop_width len (Some (int n)) = 2 * k"
proof -
  have "rat_of_nat len / rat_of_int (int n) = 2 * rat_of_int (int k)"
    using assms by simp
  moreover have "\<lfloor>2 * rat_of_int (int k)\<rfloor> = 2 * int k"
    by (metis floor_of_int of_int_mult of_int_numeral)
  ultimately show ?thesis
    using assms(1,2) by (simp add: hop_width_def Let_def rat_mod2_def) (use assms in simp)
qed

lemma hop_width_pos: "0 < hop_width len hc"
proof -
  have "0 < nat \<lfloor>x\<rfloor>" if "2 \<le> x" for x :: rat
    using that by (simp add: less_floor_iff)
  then show ?thesis
    by (auto simp: hop_width_def Let_def simp del: zero_less_nat_eq split: option.split)
qed

lemma hop_width_default: "hop_width len None = 2"
  by (simp add: hop_width_def)

lemma split_hops_all:
  "0 < c \<Longrightarrow> (\<forall>h \<in> set (split_hops c i s). length h = c) \<and>
     length (split_hops c i s) = (length s - i) div c \<and>
     concat (split_hops c i s) = take (c * ((length s - i) div c)) (drop i s)"
proof (induction c i s rule: split_hops.induct)
  case (1 c i s)
  show ?case
  proof (cases "i + c \<le> length s")
    case True
    define n where "n = (length s - (i + c)) div c"
    have n: "(length s - i) div c = Suc n"
      using True "1.prems" unfolding n_def by (metis add.commute add_leD2 diff_diff_left div_if le_add_diff_inverse2 le_div_geq le_diff_conv2 add_leD1)
    have IH: "\<forall>h \<in> set (split_hops c (i + c) s). length h = c"
      "length (split_hops c (i + c) s) = n"
      "concat (split_hops c (i + c) s) = take (c * n) (drop (i + c) s)"
      using "1.IH" True "1.prems" by (auto simp: n_def)
    have "js_slice i (i + c) s = take c (drop i s)" by (simp add: js_slice_def take_drop add.commute)
    then show ?thesis
      using True "1.prems" IH
      by (simp add: split_hops.simps [of c i s] n take_add add.commute [of i] flip: drop_drop)
  next
    case False
    then have "(length s - i) div c = 0" using "1.prems" by simp
    then show ?thesis using False by (simp add: split_hops.simps [of c i s])
  qed
qed

lemma parsePathHops_exact:
  assumes "0 < n" and "1 \<le> k" and "length p = n * (2 * k)"
  shows "length (parsePathHops (Some p) (Some (int n))) = n \<and>
     (\<forall>h \<in> set (parsePathHops (Some p) (Some (int n))). length h = 2 * k) \<and>
     concat (parsePathHops (Some p) (Some (int n))) = to_upper p"
proof -
  have "p \<noteq> []" using assms by auto
  moreover have "hop_width (length (to_upper p)) (Some (int n)) = 2 * k"
    using assms by (intro hop_width_exact) (auto simp: to_upper_def)
  ultimately have "parsePathHops (Some p) (Some (int n)) = split_hops (2 * k) 0 (to_upper p)"
    by (simp add: parsePathHops_def or_null_def Let_def)
  moreover have "length (to_upper p) = n * (2 * k)" using assms(3) by (simp add: to_upper_def)
  ultimately show ?thesis using split_hops_all [of "2 * k" 0 "to_upper p"] assms(1,2) by simp
qed

text \<open>The bytes of a packet as the firmware lays them out.\<close>

definition packet_bytes :: "8 word \<Rightarrow> 8 word list \<Rightarrow> 8 word \<Rightarrow> 8 word list \<Rightarrow> 8 word list \<Rightarrow> 8 word list" where
  "packet_bytes header transport pathByte path payload =
     header # transport @ pathByte # path @ payload"

text \<open>A header of route type 0 or 3 is followed by four bytes of transport codes, others by none;
  the path byte holds the hash mode in its upper two bits and the hop count in the lower six.\<close>

definition packet_layout_ok :: "8 word \<Rightarrow> 8 word list \<Rightarrow> 8 word \<Rightarrow> 8 word list \<Rightarrow> bool" where
  "packet_layout_ok header transport pathByte path \<longleftrightarrow>
     length transport = (if header AND 3 \<in> {0, 3} then 4 else 0) \<and>
     unat pathByte div 64 < 3 \<and>
     length path = (unat pathByte mod 64) * (unat pathByte div 64 + 1) \<and>
     length path \<le> 64"

lemma to_upper_append: "to_upper (a @ b) = to_upper a @ to_upper b"
  by (simp add: to_upper_def)

lemma length_to_upper [simp]: "length (to_upper a) = length a"
  by (simp add: to_upper_def)

lemma int32_byte: "to_int32 (Some (uint (b :: 8 word))) = (ucast b :: 32 word)"
  by (simp add: to_int32_def unsigned_ucast_eq word_of_int_uint)

lemma route_bits: "(ucast (b :: 8 word) :: 32 word) AND 3 = ucast (b AND 3)"
  by (rule bit_word_eqI) (auto simp: bit_and_iff bit_unsigned_iff dest: bit_imp_le_length)

lemma unat_ucast_byte: "unat (ucast (b :: 8 word) :: 32 word) = unat b"
  using unat_byte_less [of b] by (simp add: unsigned_ucast_eq take_bit_nat_eq_self)

lemma ucast_byte_eq: "(ucast (a :: 8 word) :: 32 word) = ucast b \<longleftrightarrow> a = b"
  by (metis unat_ucast_byte word_unat_eq_iff)

lemma route_bits_eq:
  "(ucast (b :: 8 word) :: 32 word) AND 3 = 0 \<longleftrightarrow> b AND 3 = 0"
  "(ucast (b :: 8 word) :: 32 word) AND 3 = 3 \<longleftrightarrow> b AND 3 = 3"
  unfolding route_bits using ucast_byte_eq [of "b AND 3" 0] ucast_byte_eq [of "b AND 3" 3]
  by simp_all

lemma hash_mode_bits:
  "signed_drop_bit 6 (ucast (b :: 8 word) :: 32 word) AND 3 = ucast (drop_bit 6 b)"
proof (rule bit_word_eqI)
  fix n :: nat
  assume "n < LENGTH(32)"
  have "bit (3 :: 32 word) n = bit (mask 2 :: 32 word) n" by (simp add: mask_eq_exp_minus_1)
  also have "\<dots> \<longleftrightarrow> n < 2" by (auto simp only: bit_mask_iff) (simp_all add: \<open>n < LENGTH(32)\<close> possible_bit_word)
  finally have three: "bit (3 :: 32 word) n \<longleftrightarrow> n < 2" .
  show "bit (signed_drop_bit 6 (ucast b :: 32 word) AND 3) n = bit (ucast (drop_bit 6 b) :: 32 word) n"
    unfolding bit_and_iff three
    by (auto simp: bit_signed_drop_bit_iff bit_unsigned_iff bit_drop_bit_eq dest: bit_imp_le_length)
qed

lemma hash_mode_value:
  "unat (signed_drop_bit 6 (ucast (b :: 8 word) :: 32 word) AND 3) = unat b div 64"
  unfolding hash_mode_bits unat_ucast_byte by (simp add: drop_bit_eq_div unat_div)

lemma hop_count_bits: "unat ((ucast (b :: 8 word) :: 32 word) AND 0x3f) = unat b mod 64"
proof -
  have "(ucast b :: 32 word) AND mask 6 = ucast b mod 64"
    by (simp add: take_bit_eq_mask [symmetric] take_bit_eq_mod)
  moreover have "mask 6 = (0x3f :: 32 word)" by (simp add: mask_eq_exp_minus_1)
  ultimately show ?thesis by (simp add: unat_mod unat_ucast_byte)
qed

lemma extract_layout:
  assumes ok: "packet_layout_ok header transport pathByte path" and ne: "payload \<noteq> []"
  shows "extractPacketPayloadHex (bytesToHex (packet_bytes header transport pathByte path payload)) =
     Some (to_upper (bytesToHex payload))"
proof -
  define N where "N = to_upper (bytesToHex (packet_bytes header transport pathByte path payload))"
  have N: "N = to_upper (byteToHex header) @ to_upper (bytesToHex transport) @
      to_upper (byteToHex pathByte) @ to_upper (bytesToHex path) @ to_upper (bytesToHex payload)"
    by (simp add: N_def packet_bytes_def bytesToHex_Cons bytesToHex_append to_upper_append)
  define o1 where "o1 = 2 + 2 * length transport"
  have trans: "header AND 3 = 0 \<or> header AND 3 = 3 \<longleftrightarrow> length transport = 4"
    "header AND 3 \<noteq> 0 \<and> header AND 3 \<noteq> 3 \<longleftrightarrow> length transport = 0"
    using ok by (auto simp: packet_layout_ok_def split: if_splits)
  have hd: "js_slice 0 2 N = to_upper (byteToHex header)"
    by (simp add: N js_slice_def)
  have pb: "js_slice o1 (o1 + 2) N = to_upper (byteToHex pathByte)"
    by (simp add: N js_slice_def o1_def)
  have len: "length N = o1 + 2 + 2 * length path + 2 * length payload"
    by (simp add: N o1_def)
  have rest: "drop (o1 + 2 + length path * 2) N = to_upper (bytesToHex payload)"
    by (simp add: N o1_def mult.commute [of _ 2])
  have mode: "unat pathByte div 64 < 3" and plen: "length path = unat pathByte mod 64 * (unat pathByte div 64 + 1)"
    "length path \<le> 64"
    using ok by (auto simp: packet_layout_ok_def)
  define pw where "pw = (ucast pathByte :: 32 word)"
  have hm: "unat (signed_drop_bit 6 pw AND 3) = unat pathByte div 64"
    and hc: "unat (pw AND 0x3f) = unat pathByte mod 64"
    by (simp_all only: pw_def hash_mode_value hop_count_bits)
  have hm3: "signed_drop_bit 6 pw AND 3 \<noteq> 3"
  proof
    assume "signed_drop_bit 6 pw AND 3 = 3"
    then show False using hm mode by simp
  qed
  have L: "4 \<le> length (bytesToHex (packet_bytes header transport pathByte path payload))"
    using len by (simp add: N_def o1_def)
  have head: "to_int32 (parse_int16 (js_slice 0 2 N)) = ucast header"
    by (simp add: hd parse_byteToHex(2) int32_byte)
  have pbv: "to_int32 (parse_int16 (js_slice o1 (o1 + 2) N)) = pw"
    by (simp only: pb parse_byteToHex(2) int32_byte pw_def)
  have tr: "(ucast header :: 32 word) AND 3 = 0 \<or> (ucast header :: 32 word) AND 3 = 3 \<longleftrightarrow> length transport = 4"
    using trans by (simp add: route_bits_eq)
  have o1: "(if length transport = 4 then 10 else 2) = o1"
    using trans by (auto simp: o1_def)
  show ?thesis
    unfolding extractPacketPayloadHex_def N_def [symmetric] Let_def
    using L len hm3 plen(2) rest trans ne
    by (simp only: head tr o1 pbv hm hc MAX_PATH_BYTES_def plen(1) [symmetric]) (auto simp: o1_def)
qed

lemma extract_suffix:
  assumes "extractPacketPayloadHex s = Some r"
  shows "\<exists>k\<ge>2. 2 * k < length s \<and> r = drop (2 * k) (to_upper s)"
proof -
  define o1 :: nat where "o1 = (if to_int32 (parse_int16 (js_slice 0 2 (to_upper s))) AND 3 \<in> {0, 3} then 10 else 2)"
  define p where "p = to_int32 (parse_int16 (js_slice o1 (o1 + 2) (to_upper s)))"
  define n where "n = o1 + 2 + unat (p AND 0x3f) * (unat (signed_drop_bit 6 p AND 3) + 1) * 2"
  have "Some r = Some (drop n (to_upper s))" and "n < length s"
    using assms unfolding extractPacketPayloadHex_def Let_def n_def p_def o1_def
    by (auto split: if_splits simp: numeral_eq_Suc)
  moreover have "n = 2 * (n div 2)" and "2 \<le> n div 2" by (auto simp: n_def o1_def)
  ultimately show ?thesis by (metis option.inject)
qed

lemma infer_range: "inferPathHashMode p h = Some m \<Longrightarrow> 0 \<le> m \<and> m \<le> 2"
  by (cases p; cases h) (auto simp: inferPathHashMode_iff, auto simp: inferPathHashMode_def)

lemma coalesce_infer_range: "0 \<le> coalesce (inferPathHashMode p h) 0 \<and> coalesce (inferPathHashMode p h) 0 \<le> 2"
  by (cases "inferPathHashMode p h") (auto simp: coalesce_def dest: infer_range)

section \<open>Properties\<close>

text \<open>
  A packet laid out as the firmware does (header, four transport bytes exactly when the
  route type is 0 or 3, path byte, hops of the announced width, payload) and written as
  hexadecimal text in either case is cut at the first byte of its payload.
\<close>

theorem packet_payload_roundtrip:
  assumes "packet_layout_ok header transport pathByte path" and "payload \<noteq> []"
  shows "extractPacketPayloadHex (bytesToHex (packet_bytes header transport pathByte path payload)) =
     Some (to_upper (bytesToHex payload))"
  using assms by (rule extract_layout)

theorem packet_payload_roundtrip_witness:
  "extractPacketPayloadHex (bytesToHex (packet_bytes 0x14 [1, 2, 3, 4] 0x41 [0xAA, 0xBB] [0xC0, 0xDE])) =
     Some ''C0DE''"
proof -
  have "packet_layout_ok 0x14 [1, 2, 3, 4] 0x41 [0xAA, 0xBB]" by code_simp
  moreover have "to_upper (bytesToHex [0xC0, 0xDE]) = ''C0DE''" by code_simp
  ultimately show ?thesis using packet_payload_roundtrip [of _ _ _ _ "[0xC0, 0xDE]"] by simp
qed

text \<open>
  Whatever text it is given, an extracted payload is a non-empty proper suffix of the
  upper-cased packet that starts on a byte boundary after the header and the path byte.
\<close>

theorem packet_payload_suffix:
  assumes "extractPacketPayloadHex s = Some r"
  shows "r \<noteq> [] \<and> (\<exists>k\<ge>2. 2 * k < length s \<and> r = drop (2 * k) (to_upper s))"
  using extract_suffix [OF assms] by auto

theorem packet_payload_suffix_witness:
  "''C0DE'' \<noteq> [] \<and> (\<exists>k\<ge>2. 2 * k < length ''0500c0de'' \<and> ''C0DE'' = drop (2 * k) (to_upper ''0500c0de''))"
proof -
  have "extractPacketPayloadHex ''0500c0de'' = Some ''C0DE''" by code_simp
  then show ?thesis by (rule packet_payload_suffix)
qed

text \<open>
  The hash mode inferred from a path and a hop count is the mode \<open>m\<close> between 0 and 2 for
  which the path is exactly that many hops of \<open>m + 1\<close> bytes, and there is none otherwise.
\<close>

theorem infer_hash_mode_exact:
  "inferPathHashMode (Some p) (Some h) = Some m \<longleftrightarrow>
     0 < h \<and> 0 \<le> m \<and> m \<le> 2 \<and> int (length p) = 2 * (m + 1) * h"
  by (rule inferPathHashMode_iff)

text \<open>
  A path of \<open>n\<close> hops of \<open>k\<close> bytes is split into exactly those hops: the right number, each
  of the right width, and together the whole upper-cased path.
\<close>

theorem path_hops_partition:
  assumes "0 < n" and "1 \<le> k" and "length p = n * (2 * k)"
  shows "length (parsePathHops (Some p) (Some (int n))) = n \<and>
     (\<forall>h \<in> set (parsePathHops (Some p) (Some (int n))). length h = 2 * k) \<and>
     concat (parsePathHops (Some p) (Some (int n))) = to_upper p"
  using assms by (rule parsePathHops_exact)

theorem path_hops_partition_witness:
  "length (parsePathHops (Some ''a1b2c3d4'') (Some (int 2))) = 2 \<and>
     concat (parsePathHops (Some ''a1b2c3d4'') (Some (int 2))) = to_upper ''a1b2c3d4''"
  using path_hops_partition [of 2 2 "''a1b2c3d4''"] by simp

text \<open>
  When the server sends no ready-made routes, the route the frontend derives for a contact
  carries hash mode -1 exactly for a flood route (length -1) and a valid mode (0 to 2)
  otherwise; it is forced exactly when the contact has a routing override.
\<close>

theorem effective_route_wf:
  assumes "ct_effective_route c = None" and "ct_direct_route c = None" and "ct_route_override c = None"
  shows "let e = getEffectiveContactRoute c in
     (if er_pathLen e = -1 then er_pathHashMode e = -1
      else 0 \<le> er_pathHashMode e \<and> er_pathHashMode e \<le> 2) \<and>
     (er_forced e \<longleftrightarrow> hasRoutingOverride c) \<and>
     (er_source e = FloodRoute \<longrightarrow> er_pathLen e = -1)"
  using assms coalesce_infer_range
  by (auto simp: getEffectiveContactRoute_def getRouteOverride_def getDirectContactRoute_def
      hasRoutingOverride_def Let_def split: option.splits)

theorem effective_route_wf_witness:
  "er_forced (getEffectiveContactRoute (sample_contact ''a1b2'' \<lparr>ct_route_override_len := Some 2\<rparr>)) \<and>
   0 \<le> er_pathHashMode (getEffectiveContactRoute (sample_contact ''a1b2'' \<lparr>ct_route_override_len := Some 2\<rparr>))"
proof -
  let ?c = "sample_contact ''a1b2'' \<lparr>ct_route_override_len := Some 2\<rparr>"
  have "er_pathLen (getEffectiveContactRoute ?c) = 2" and "hasRoutingOverride ?c"
    by (simp_all add: getEffectiveContactRoute_def getRouteOverride_def hasRoutingOverride_def
        sample_contact_def coalesce_def Let_def)
  then show ?thesis using effective_route_wf [of ?c] by (simp add: sample_contact_def Let_def)
qed

end
