(* ===== verification/GroupData.thy ===== *)
theory GroupData
  imports Aes128 PathCodec
begin

unbundle bit_operations_syntax

text \<open>
  The rest of \<^verbatim>\<open>utils/parseGroupData.ts\<close>: normalising a channel key, reading the plaintext,
  trying the keys on an envelope, and telling an envelope from a full packet.
  \<^verbatim>\<open>getChannelHash\<close> and \<^verbatim>\<open>verifyMac\<close> come from the package \<^verbatim>\<open>meshcore-hashtag-cracker\<close>, which is
  not part of the sources: they are parameters here.

  \<open>utf8_decode\<close> is \<^verbatim>\<open>new TextDecoder('utf-8', { fatal: true }).decode\<close> as the Encoding standard
  defines it, from bytes to code points; \<open>None\<close> is the exception it throws.
\<close>

section \<open>The UTF-8 decoder of the runtime\<close>

definition cont_byte :: "nat \<Rightarrow> nat \<Rightarrow> nat \<Rightarrow> bool" where
  "cont_byte lo hi b \<longleftrightarrow> lo \<le> b \<and> b \<le> hi"

fun utf8_scan :: "nat list \<Rightarrow> nat list option" where
  "utf8_scan [] = Some []"
| "utf8_scan (b # bs) =
     (if b < 0x80 then map_option (Cons b) (utf8_scan bs)
      else if 0xC2 \<le> b \<and> b \<le> 0xDF then
        (case bs of
           c # cs \<Rightarrow>
             if cont_byte 0x80 0xBF c
             then map_option (Cons ((b - 0xC0) * 64 + (c - 0x80))) (utf8_scan cs) else None
         | _ \<Rightarrow> None)
      else if 0xE0 \<le> b \<and> b \<le> 0xEF then
        (case bs of
           c # d # ds \<Rightarrow>
             if cont_byte (if b = 0xE0 then 0xA0 else 0x80) (if b = 0xED then 0x9F else 0xBF) c
                \<and> cont_byte 0x80 0xBF d
             then map_option (Cons ((b - 0xE0) * 4096 + (c - 0x80) * 64 + (d - 0x80))) (utf8_scan ds)
             else None
         | _ \<Rightarrow> None)
      else if 0xF0 \<le> b \<and> b \<le> 0xF4 then
        (case bs of
           c # d # e # es \<Rightarrow>
             if cont_byte (if b = 0xF0 then 0x90 else 0x80) (if b = 0xF4 then 0x8F else 0xBF) c
                \<and> cont_byte 0x80 0xBF d \<and> cont_byte 0x80 0xBF e
             then map_option (Cons ((b - 0xF0) * 262144 + (c - 0x80) * 4096 + (d - 0x80) * 64 + (e - 0x80)))
               (utf8_scan es)
             else None
         | _ \<Rightarrow> None)
      else None)"

definition utf8_decode :: "8 word list \<Rightarrow> nat list option" where
  "utf8_decode bytes =
     (let bs = map unat bytes in
      utf8_scan (if take 3 bs = [0xEF, 0xBB, 0xBF] then drop 3 bs else bs))"

section \<open>The plaintext and the keys\<close>

record group_data_plaintext =
  gd_data_type :: int
  gd_data_len :: nat
  gd_data_hex :: string
  gd_data_text :: "nat list option"

definition GROUP_DATA_PAYLOAD_TYPE :: "32 word" where
  "GROUP_DATA_PAYLOAD_TYPE = 6"

text \<open>The prefix is removed after lower-casing, so \<^verbatim>\<open>0X\<close> is covered.\<close>

definition normalizeChannelKey :: "string \<Rightarrow> string option" where
  "normalizeChannelKey key =
     (let normalized = strip_separators (strip_0x (to_lower (js_trim key))) in
      if length normalized \<noteq> 32 \<or> \<not> list_all is_hex_char normalized then None
      else Some normalized)"

definition parseGroupDataPlaintext :: "8 word list \<Rightarrow> group_data_plaintext option" where
  "parseGroupDataPlaintext plaintext =
     (if length plaintext < 3 then None
      else
        let dataType = (ucast (plaintext ! 0) :: 32 word) OR push_bit 8 (ucast (plaintext ! 1));
            dataLen = unat (plaintext ! 2)
        in
        if length plaintext < 3 + dataLen then None
        else
          let data = js_slice 3 (3 + dataLen) plaintext in
          Some \<lparr>gd_data_type = sint dataType, gd_data_len = dataLen,
                gd_data_hex = bytesToHex data, gd_data_text = utf8_decode data\<rparr>)"

text \<open>The loop over the keys of \<open>decryptEnvelope\<close>: the first key that passes every check and
  whose plaintext parses wins.\<close>

fun try_keys :: "(string \<Rightarrow> string) \<Rightarrow> (string \<Rightarrow> string \<Rightarrow> string \<Rightarrow> bool) \<Rightarrow> string \<Rightarrow> string \<Rightarrow>
    8 word list \<Rightarrow> string list \<Rightarrow> group_data_plaintext option" where
  "try_keys getChannelHash verifyMac hashHex macHex ciphertext [] = None"
| "try_keys getChannelHash verifyMac hashHex macHex ciphertext (key # keys) =
     (let rest = try_keys getChannelHash verifyMac hashHex macHex ciphertext keys in
      case normalizeChannelKey key of
        None \<Rightarrow> rest
      | Some normalized \<Rightarrow>
          if getChannelHash normalized \<noteq> hashHex then rest
          else if \<not> verifyMac (bytesToHex ciphertext) macHex normalized then rest
          else (case hexToBytes normalized of
                  None \<Rightarrow> rest
                | Some keyBytes \<Rightarrow>
                    (case parseGroupDataPlaintext (aes128EcbDecrypt keyBytes ciphertext) of
                       Some parsed \<Rightarrow> Some parsed
                     | None \<Rightarrow> rest)))"

definition decryptEnvelope :: "(string \<Rightarrow> string) \<Rightarrow> (string \<Rightarrow> string \<Rightarrow> string \<Rightarrow> bool) \<Rightarrow>
    8 word list \<Rightarrow> string list \<Rightarrow> group_data_plaintext option" where
  "decryptEnvelope getChannelHash verifyMac payload keys =
     (if length payload < 3 then None
      else
        let hashHex = byteToHex (payload ! 0);
            macHex = bytesToHex (js_slice 1 3 payload);
            ciphertext = drop 3 payload
        in
        if length ciphertext = 0 \<or> length ciphertext mod 16 \<noteq> 0 then None
        else try_keys getChannelHash verifyMac hashHex macHex ciphertext keys)"

section \<open>Packets and envelopes\<close>

datatype extraction = NoPayload | Skip | Payload "8 word list"

definition header_bits :: "nat \<Rightarrow> 32 word \<Rightarrow> 8 word \<Rightarrow> 32 word" where
  "header_bits n mask_bits header = signed_drop_bit n (ucast header) AND mask_bits"

definition extractGroupDataPayload :: "8 word list \<Rightarrow> extraction" where
  "extractGroupDataPayload bytes =
     (if length bytes < 2 then NoPayload
      else
        let header = bytes ! 0 in
        if header_bits 2 0x0f header \<noteq> GROUP_DATA_PAYLOAD_TYPE then NoPayload
        else if header_bits 6 0x03 header \<noteq> 0 then Skip
        else
          (case or_null (extractPacketPayloadHex (bytesToHex bytes)) of
             None \<Rightarrow> NoPayload
           | Some payloadHex \<Rightarrow>
               (case hexToBytes payloadHex of
                  None \<Rightarrow> NoPayload
                | Some payload \<Rightarrow>
                    if length payload < 3 \<or> (length payload - 3) mod 16 \<noteq> 0 then NoPayload
                    else Payload payload)))"

definition isNonGroupDataMeshPacket :: "8 word list \<Rightarrow> bool" where
  "isNonGroupDataMeshPacket bytes =
     (if length bytes < 2 then False
      else if header_bits 2 0x0f (bytes ! 0) = GROUP_DATA_PAYLOAD_TYPE then False
      else
        (case or_null (extractPacketPayloadHex (bytesToHex bytes)) of
           None \<Rightarrow> False
         | Some payloadHex \<Rightarrow>
             (case hexToBytes payloadHex of
                None \<Rightarrow> False
              | Some payload \<Rightarrow> length payload \<le> length bytes - 2)))"

definition parseGroupData :: "(string \<Rightarrow> string) \<Rightarrow> (string \<Rightarrow> string \<Rightarrow> string \<Rightarrow> bool) \<Rightarrow>
    byte_input \<Rightarrow> string list \<Rightarrow> group_data_plaintext option" where
  "parseGroupData getChannelHash verifyMac payloadOrPacket keys =
     (case asBytes payloadOrPacket of
        None \<Rightarrow> None
      | Some bytes \<Rightarrow>
          if length keys = 0 then None
          else
            (case extractGroupDataPayload bytes of
               Skip \<Rightarrow> None
             | Payload extracted \<Rightarrow> decryptEnvelope getChannelHash verifyMac extracted keys
             | NoPayload \<Rightarrow>
                 if isNonGroupDataMeshPacket bytes then None
                 else decryptEnvelope getChannelHash verifyMac bytes keys))"

section \<open>Lemmas\<close>

lemma data_type_value:
  "sint ((ucast (a :: 8 word) :: 32 word) OR push_bit 8 (ucast (b :: 8 word))) = uint a + 256 * uint b"
proof -
  have "(ucast a :: 32 word) AND push_bit 8 (ucast b) = 0"
    by (rule bit_word_eqI) (auto simp: bit_and_iff bit_push_bit_iff bit_unsigned_iff dest: bit_imp_le_length)
  then have "(ucast a :: 32 word) OR push_bit 8 (ucast b) = ucast a + push_bit 8 (ucast b)"
    by (simp add: disjunctive_add_eq_or)
  also have "\<dots> = word_of_int (uint a) + 2 ^ 8 * word_of_int (uint b)"
    using int32_byte [of a] int32_byte [of b] by (simp only: push_bit_eq_mult to_int32_def option.case mult.commute)
  also have "\<dots> = word_of_int (uint a + 256 * uint b)" by simp
  finally have eq: "(ucast a :: 32 word) OR push_bit 8 (ucast b) = word_of_int (uint a + 256 * uint b)" .
  have small: "signed_take_bit 31 x = x" if "0 \<le> x" "x < 65536" for x :: int
    using that by (intro signed_take_bit_int_eq_self) simp_all
  have "uint a < 256" "uint b < 256" using uint_lt2p [of a] uint_lt2p [of b] by simp_all
  then have "signed_take_bit 31 (uint a + 256 * uint b) = uint a + 256 * uint b"
    by (intro small) simp_all
  then show ?thesis unfolding eq by (simp only: signed_of_int) simp
qed

lemma parse_plaintext_layout:
  assumes "length data = unat len"
  shows "parseGroupDataPlaintext (b0 # b1 # len # data @ pad) =
     Some \<lparr>gd_data_type = uint b0 + 256 * uint b1, gd_data_len = unat len,
           gd_data_hex = bytesToHex data, gd_data_text = utf8_decode data\<rparr>"
proof -
  have "js_slice 3 (3 + unat len) (b0 # b1 # len # data @ pad) = data"
    using assms by (simp add: js_slice_def numeral_3_eq_3)
  then show ?thesis using assms by (simp add: parseGroupDataPlaintext_def data_type_value Let_def)
qed

definition key_accepted ::
  "(string \<Rightarrow> string) \<Rightarrow> (string \<Rightarrow> string \<Rightarrow> string \<Rightarrow> bool) \<Rightarrow> string \<Rightarrow> string \<Rightarrow> 8 word list \<Rightarrow> string \<Rightarrow> bool" where
  "key_accepted getChannelHash verifyMac hashHex macHex ciphertext key =
     (case normalizeChannelKey key of
        None \<Rightarrow> False
      | Some n \<Rightarrow> getChannelHash n = hashHex \<and> verifyMac (bytesToHex ciphertext) macHex n)"

lemma normalized_key_bytes:
  assumes "normalizeChannelKey key = Some n"
  shows "\<exists>kb. hexToBytes n = Some kb \<and> length kb = 16"
proof -
  have n: "length n = 32" "list_all is_hex_char n"
    using assms by (auto simp: normalizeChannelKey_def Let_def split: if_splits)
  then show ?thesis
    by (auto simp: hexToBytes_def strip_hex_chars(1) Let_def)
qed

lemma try_keys_skip:
  "\<forall>k \<in> set ks. \<not> key_accepted H V hh mh ct k \<Longrightarrow> try_keys H V hh mh ct (ks @ rest) = try_keys H V hh mh ct rest"
  by (induction ks) (auto simp: key_accepted_def Let_def split: option.splits)

lemma try_keys_hit:
  assumes "normalizeChannelKey key = Some nk" and "hexToBytes nk = Some kb" and "H nk = hh"
    and "V (bytesToHex ct) mh nk" and "parseGroupDataPlaintext (aes128EcbDecrypt kb ct) = Some d"
  shows "try_keys H V hh mh ct (key # rest) = Some d"
  using assms by (simp add: Let_def)

lemma try_keys_some:
  "try_keys H V hh mh ct ks = Some d \<Longrightarrow>
     \<exists>key \<in> set ks. \<exists>n kb. normalizeChannelKey key = Some n \<and> length kb = 16 \<and> H n = hh \<and>
       V (bytesToHex ct) mh n \<and> hexToBytes n = Some kb \<and>
       parseGroupDataPlaintext (aes128EcbDecrypt kb ct) = Some d"
  by (induction ks) (fastforce simp: Let_def dest: normalized_key_bytes split: option.splits if_splits)+

lemma decryptEnvelope_some:
  assumes "decryptEnvelope H V payload ks = Some d"
  shows "\<exists>hash m1 m2 ct. payload = hash # m1 # m2 # ct \<and> ct \<noteq> [] \<and> length ct mod 16 = 0 \<and>
     (\<exists>key \<in> set ks. \<exists>n kb. normalizeChannelKey key = Some n \<and> length kb = 16 \<and> H n = byteToHex hash \<and>
       V (bytesToHex ct) (bytesToHex [m1, m2]) n \<and> hexToBytes n = Some kb \<and>
       parseGroupDataPlaintext (aes128EcbDecrypt kb ct) = Some d)"
proof -
  have "3 \<le> length payload"
    using assms by (auto simp: decryptEnvelope_def split: if_splits)
  then obtain hash m1 m2 ct where p: "payload = hash # m1 # m2 # ct"
    by (cases payload; cases "tl payload"; cases "tl (tl payload)") auto
  then have t: "try_keys H V (byteToHex hash) (bytesToHex [m1, m2]) ct ks = Some d"
    and ct: "ct \<noteq> []" "length ct mod 16 = 0"
    using assms by (auto simp: decryptEnvelope_def js_slice_def split: if_splits)
  from p ct try_keys_some [OF t] show ?thesis by (intro exI conjI)
qed

lemma signed_drop_byte:
  "signed_drop_bit n (ucast (h :: 8 word) :: 32 word) = ucast (drop_bit n h)"
  by (rule bit_word_eqI)
    (auto simp: bit_signed_drop_bit_iff bit_unsigned_iff bit_drop_bit_eq dest: bit_imp_le_length)

lemma header_type:
  "header \<in> {0x18, 0x19, 0x1A, 0x1B} \<Longrightarrow>
     header_bits 2 0x0f header = GROUP_DATA_PAYLOAD_TYPE \<and> header_bits 6 0x03 header = 0"
proof -
  have "drop_bit 2 (0x18 :: 8 word) = 6" "drop_bit 2 (0x19 :: 8 word) = 6" "drop_bit 2 (0x1A :: 8 word) = 6"
    "drop_bit 2 (0x1B :: 8 word) = 6" "drop_bit 6 (0x18 :: 8 word) = 0" "drop_bit 6 (0x19 :: 8 word) = 0"
    "drop_bit 6 (0x1A :: 8 word) = 0" "drop_bit 6 (0x1B :: 8 word) = 0"
    by (simp_all add: drop_bit_eq_div)
  moreover assume "header \<in> {0x18, 0x19, 0x1A, 0x1B}"
  ultimately show ?thesis
    unfolding header_bits_def signed_drop_byte GROUP_DATA_PAYLOAD_TYPE_def
    by (elim insertE emptyE) simp_all
qed

lemma extract_group_packet:
  assumes "header \<in> {0x18, 0x19, 0x1A, 0x1B}" and "packet_layout_ok header transport pathByte path"
    and "3 \<le> length payload" and "(length payload - 3) mod 16 = 0"
  shows "extractGroupDataPayload (packet_bytes header transport pathByte path payload) = Payload payload"
proof -
  have ne: "payload \<noteq> []" using assms(3) by auto
  have len: "2 \<le> length (packet_bytes header transport pathByte path payload)"
    and hd: "packet_bytes header transport pathByte path payload ! 0 = header"
    by (simp_all add: packet_bytes_def)
  have "to_upper (bytesToHex payload) \<noteq> []"
    using ne by (metis length_0_conv length_bytesToHex length_to_upper mult_eq_0_iff zero_neq_numeral)
  then show ?thesis
    unfolding extractGroupDataPayload_def Let_def hd
    using len header_type [OF assms(1)] extract_layout [OF assms(2) ne] assms(3,4) ne
    by (simp add: or_null_def js_hex_simps)
qed

lemma asBytes_forms:
  "bs \<noteq> [] \<Longrightarrow> input \<in> {ByteArray bs, HexText (bytesToHex bs), HexText (to_upper (bytesToHex bs))} \<Longrightarrow>
     asBytes input = Some bs"
  by (auto simp: js_hex_simps)

lemma group_packet_decrypts:
  assumes "header \<in> {0x18, 0x19, 0x1A, 0x1B}" and "packet_layout_ok header transport pathByte path"
    and "plain = b0 # b1 # len # data @ pad" and "length data = unat len" and "length plain = 16 * n"
    and "normalizeChannelKey key = Some nk" and "hexToBytes nk = Some kb"
    and "ct = ecb_cipher n (expandKey kb) plain"
    and "getChannelHash nk = byteToHex hash" and "verifyMac (bytesToHex ct) (bytesToHex [m1, m2]) nk"
    and "\<forall>k \<in> set others. \<not> key_accepted getChannelHash verifyMac (byteToHex hash) (bytesToHex [m1, m2]) ct k"
    and "packet = packet_bytes header transport pathByte path (hash # m1 # m2 # ct)"
    and "input \<in> {ByteArray packet, HexText (bytesToHex packet), HexText (to_upper (bytesToHex packet))}"
  shows "parseGroupData getChannelHash verifyMac input (others @ key # later) =
     Some \<lparr>gd_data_type = uint b0 + 256 * uint b1, gd_data_len = unat len,
           gd_data_hex = bytesToHex data, gd_data_text = utf8_decode data\<rparr>"
proof -
  have ct: "length ct = 16 * n" "0 < n"
    using assms(3,5,8) by (auto simp: length_ecb_cipher intro: Nat.gr0I)
  then have ne: "ct \<noteq> []" by auto
  have "extractGroupDataPayload packet = Payload (hash # m1 # m2 # ct)"
    unfolding assms(12) by (rule extract_group_packet [OF assms(1,2)]) (simp_all add: ct)
  moreover have "packet \<noteq> []" by (simp add: assms(12) packet_bytes_def)
  moreover have "try_keys getChannelHash verifyMac (byteToHex hash) (bytesToHex [m1, m2]) ct (others @ key # later) =
      Some \<lparr>gd_data_type = uint b0 + 256 * uint b1, gd_data_len = unat len,
            gd_data_hex = bytesToHex data, gd_data_text = utf8_decode data\<rparr>"
    unfolding try_keys_skip [OF assms(11)]
    by (rule try_keys_hit [where H = getChannelHash and V = verifyMac, OF assms(6,7,9,10)])
      (simp add: assms(8) aes128EcbDecrypt_cipher [OF assms(5)], simp add: assms(3) parse_plaintext_layout [OF assms(4)])
  ultimately show ?thesis
    using asBytes_forms [OF _ assms(13)] ct ne
    by (simp add: parseGroupData_def decryptEnvelope_def js_slice_def)
qed

lemma sample_group_packet:
  "parseGroupData (\<lambda>_. ''ab'') (\<lambda>_ _ _. True)
     (ByteArray (packet_bytes 0x19 [] 0x01 [0x77] (0xAB # 1 # 2 #
        ecb_cipher 1 (expandKey (replicate 16 0x11)) (5 # 1 # 2 # [0x68, 0x69] @ replicate 11 0))))
     ([''not a key''] @ ''11:11 1111111111111111111111111111'' # []) =
     Some \<lparr>gd_data_type = uint (5 :: 8 word) + 256 * uint (1 :: 8 word), gd_data_len = unat (2 :: 8 word),
           gd_data_hex = bytesToHex [0x68, 0x69], gd_data_text = utf8_decode [0x68, 0x69]\<rparr>"
proof (rule group_packet_decrypts [where n = 1 and pad = "replicate 11 0" and nk = "''11111111111111111111111111111111''"])
  show "packet_layout_ok 0x19 [] 0x01 [0x77]" by code_simp
  show "normalizeChannelKey ''11:11 1111111111111111111111111111'' = Some ''11111111111111111111111111111111''"
    by code_simp
  show "hexToBytes ''11111111111111111111111111111111'' = Some (replicate 16 0x11)" by code_simp
  show "''ab'' = byteToHex 0xAB" by code_simp
  have "normalizeChannelKey ''not a key'' = None" by code_simp
  then show "\<forall>k \<in> set [''not a key'']. \<not> key_accepted (\<lambda>_. ''ab'') (\<lambda>_ _ _. True) (byteToHex 0xAB)
      (bytesToHex [1, 2]) (ecb_cipher 1 (expandKey (replicate 16 0x11)) (5 # 1 # 2 # [0x68, 0x69] @ replicate 11 0)) k"
    by (simp add: key_accepted_def)
  show "length (5 # 1 # 2 # [0x68, 0x69] @ replicate 11 (0 :: 8 word)) = 16 * 1"
    by (simp add: eval_nat_numeral)
qed (rule refl | simp)+

lemma extracted_is_suffix:
  assumes "extractGroupDataPayload bytes = Payload p"
  shows "\<exists>pre. bytes = pre @ p"
proof -
  obtain r where r: "extractPacketPayloadHex (bytesToHex bytes) = Some r" and p: "hexToBytes r = Some p"
    using assms
    by (auto simp: extractGroupDataPayload_def or_null_def Let_def split: if_splits option.splits)
  obtain k where k: "2 * k < length (bytesToHex bytes)" "r = drop (2 * k) (to_upper (bytesToHex bytes))"
    using extract_suffix [OF r] by blast
  then have "r = to_upper (bytesToHex (drop k bytes))"
    by (simp add: to_upper_def drop_map drop_bytesToHex)
  moreover have "drop k bytes \<noteq> []" using k(1) by simp
  ultimately have "p = drop k bytes" using p by (simp add: js_hex_simps)
  then show ?thesis by (metis append_take_drop_id)
qed

section \<open>Properties\<close>

text \<open>
  C4: End to end. A version-0 GroupData packet, laid out and encrypted as the firmware does, is
  decrypted to the data the sender put in. The packet may be bytes or hexadecimal text in either
  case; the first channel key whose hash and MAC check succeed is the sender's. What is
  reported is the 16-bit little-endian type, the length, and the data without its padding.
\<close>

theorem group_data_end_to_end:
  assumes "header \<in> {0x18, 0x19, 0x1A, 0x1B}" and "packet_layout_ok header transport pathByte path"
    and "plain = b0 # b1 # len # data @ pad" and "length data = unat len" and "length plain = 16 * n"
    and "normalizeChannelKey key = Some nk" and "hexToBytes nk = Some kb"
    and "ct = ecb_cipher n (expandKey kb) plain"
    and "getChannelHash nk = byteToHex hash" and "verifyMac (bytesToHex ct) (bytesToHex [m1, m2]) nk"
    and "\<forall>k \<in> set others. \<not> key_accepted getChannelHash verifyMac (byteToHex hash) (bytesToHex [m1, m2]) ct k"
    and "packet = packet_bytes header transport pathByte path (hash # m1 # m2 # ct)"
    and "input \<in> {ByteArray packet, HexText (bytesToHex packet), HexText (to_upper (bytesToHex packet))}"
  shows "parseGroupData getChannelHash verifyMac input (others @ key # later) =
     Some \<lparr>gd_data_type = uint b0 + 256 * uint b1, gd_data_len = unat len,
           gd_data_hex = bytesToHex data, gd_data_text = utf8_decode data\<rparr>"
  using assms by (rule group_packet_decrypts)

theorem group_data_end_to_end_witness:
  "parseGroupData (\<lambda>_. ''ab'') (\<lambda>_ _ _. True)
     (ByteArray (packet_bytes 0x19 [] 0x01 [0x77] (0xAB # 1 # 2 #
        ecb_cipher 1 (expandKey (replicate 16 0x11)) (5 # 1 # 2 # [0x68, 0x69] @ replicate 11 0))))
     ([''not a key''] @ ''11:11 1111111111111111111111111111'' # []) =
     Some \<lparr>gd_data_type = uint (5 :: 8 word) + 256 * uint (1 :: 8 word), gd_data_len = unat (2 :: 8 word),
           gd_data_hex = bytesToHex [0x68, 0x69], gd_data_text = utf8_decode [0x68, 0x69]\<rparr>"
proof (rule group_data_end_to_end [where n = 1 and pad = "replicate 11 0" and nk = "''11111111111111111111111111111111''"])
  show "packet_layout_ok 0x19 [] 0x01 [0x77]" by code_simp
  show "normalizeChannelKey ''11:11 1111111111111111111111111111'' = Some ''11111111111111111111111111111111''"
    by code_simp
  show "hexToBytes ''11111111111111111111111111111111'' = Some (replicate 16 0x11)" by code_simp
  show "''ab'' = byteToHex 0xAB" by code_simp
  have "normalizeChannelKey ''not a key'' = None" by code_simp
  then show "\<forall>k \<in> set [''not a key'']. \<not> key_accepted (\<lambda>_. ''ab'') (\<lambda>_ _ _. True) (byteToHex 0xAB)
      (bytesToHex [1, 2]) (ecb_cipher 1 (expandKey (replicate 16 0x11)) (5 # 1 # 2 # [0x68, 0x69] @ replicate 11 0)) k"
    by (simp add: key_accepted_def)
  show "length (5 # 1 # 2 # [0x68, 0x69] @ replicate 11 (0 :: 8 word)) = 16 * 1"
    by (simp add: eval_nat_numeral)
qed (rule refl | simp)+

text \<open>
  C36: Nothing is reported without authentication. Whenever \<open>parseGroupData\<close> returns data, the
  input ends in an envelope (hash byte, two MAC bytes, a non-empty ciphertext of whole blocks),
  and some key of the list, normalised to 16 bytes, has that hash, passes the MAC check on that
  ciphertext, and gives the reported data when it decrypts it.
\<close>

theorem group_data_authentic:
  assumes "parseGroupData getChannelHash verifyMac input keys = Some d"
  shows "\<exists>pre hash m1 m2 ct. asBytes input = Some (pre @ hash # m1 # m2 # ct) \<and> ct \<noteq> [] \<and>
     length ct mod 16 = 0 \<and>
     (\<exists>key \<in> set keys. \<exists>nk kb. normalizeChannelKey key = Some nk \<and> length kb = 16 \<and>
        getChannelHash nk = byteToHex hash \<and> verifyMac (bytesToHex ct) (bytesToHex [m1, m2]) nk \<and>
        hexToBytes nk = Some kb \<and> parseGroupDataPlaintext (aes128EcbDecrypt kb ct) = Some d)"
proof -
  have "\<exists>pre payload. asBytes input = Some (pre @ payload) \<and>
      decryptEnvelope getChannelHash verifyMac payload keys = Some d"
  proof (cases "asBytes input")
    case (Some bytes)
    show ?thesis
    proof (cases "extractGroupDataPayload bytes")
      case (Payload p)
      then show ?thesis
        using assms Some extracted_is_suffix [OF Payload] by (auto simp: parseGroupData_def split: if_splits)
    next
      case NoPayload
      then have "decryptEnvelope getChannelHash verifyMac bytes keys = Some d"
        using assms Some by (auto simp: parseGroupData_def split: if_splits)
      then show ?thesis using Some by (metis append_Nil)
    qed (use assms Some in \<open>auto simp: parseGroupData_def split: if_splits\<close>)
  qed (use assms in \<open>simp add: parseGroupData_def\<close>)
  then obtain pre payload where i: "asBytes input = Some (pre @ payload)"
      and e: "decryptEnvelope getChannelHash verifyMac payload keys = Some d" by blast
  obtain hash m1 m2 ct where "payload = hash # m1 # m2 # ct" and "ct \<noteq> []" and "length ct mod 16 = 0"
    and "\<exists>key \<in> set keys. \<exists>nk kb. normalizeChannelKey key = Some nk \<and> length kb = 16 \<and>
        getChannelHash nk = byteToHex hash \<and> verifyMac (bytesToHex ct) (bytesToHex [m1, m2]) nk \<and>
        hexToBytes nk = Some kb \<and> parseGroupDataPlaintext (aes128EcbDecrypt kb ct) = Some d"
    using decryptEnvelope_some [OF e] by (elim exE conjE) (rule that)
  with i show ?thesis by (intro exI conjI) simp_all
qed

theorem group_data_authentic_witness:
  "\<exists>pre hash m1 m2 ct. asBytes (ByteArray (packet_bytes 0x19 [] 0x01 [0x77] (0xAB # 1 # 2 #
        ecb_cipher 1 (expandKey (replicate 16 0x11)) (5 # 1 # 2 # [0x68, 0x69] @ replicate 11 0)))) =
      Some (pre @ hash # m1 # m2 # ct) \<and> ct \<noteq> [] \<and> length ct mod 16 = 0 \<and>
     (\<exists>key \<in> set ([''not a key''] @ ''11:11 1111111111111111111111111111'' # []). \<exists>nk kb.
        normalizeChannelKey key = Some nk \<and> length kb = 16 \<and>
        (\<lambda>_. ''ab'') nk = byteToHex hash \<and> (\<lambda>_ _ _. True) (bytesToHex ct) (bytesToHex [m1, m2]) nk \<and>
        hexToBytes nk = Some kb \<and> parseGroupDataPlaintext (aes128EcbDecrypt kb ct) =
          Some \<lparr>gd_data_type = uint (5 :: 8 word) + 256 * uint (1 :: 8 word), gd_data_len = unat (2 :: 8 word),
            gd_data_hex = bytesToHex [0x68, 0x69], gd_data_text = utf8_decode [0x68, 0x69]\<rparr>)"
  by (rule group_data_authentic [where verifyMac = "\<lambda>_ _ _. True", OF sample_group_packet])

end
