(* ===== verification/MessageCache.thy ===== *)
theory MessageCache
  imports MeshTypes
begin

text \<open>
  Message identity (\<^verbatim>\<open>utils/messageIdentity.ts\<close>), the cache of the conversations not on screen
  (\<^verbatim>\<open>ConversationMessageCache\<close>), the reconciliation with a fetched page, and the merging of
  acknowledgements that arrive before their message (\<^verbatim>\<open>hooks/useConversationMessages.ts\<close>, first
  part). The cache is an insertion-ordered map from conversation ids to entries.

  The optional argument \<^verbatim>\<open>extras\<close> is a record of two fields that may be undefined, null or a
  value: leaving the argument out is the record with both undefined.
\<close>

section \<open>Message identity\<close>

fun type_text :: "message_type \<Rightarrow> string" where
  "type_text PRIV = ''PRIV''"
| "type_text CHAN = ''CHAN''"

definition getMessageContentKey :: "message \<Rightarrow> string" where
  "getMessageContentKey msg =
     (let ts = (case msg_sender_timestamp msg of
                  Some t \<Rightarrow> int_to_string t
                | None \<Rightarrow> ''r'' @ int_to_string (msg_received_at msg) @ ''-'' @ int_to_string (msg_id msg));
          senderSuffix = (if msg_type msg = PRIV
                          then (case or_null (msg_sender_key msg) of Some k \<Rightarrow> ''-'' @ k | None \<Rightarrow> [])
                          else [])
      in type_text (msg_type msg) @ ''-'' @ msg_conversation_key msg @ ''-'' @ msg_text msg @ ''-'' @ ts
           @ senderSuffix)"

section \<open>The cache\<close>

definition MAX_PENDING_ACKS :: nat where "MAX_PENDING_ACKS = 500"

definition MESSAGE_PAGE_SIZE :: nat where "MESSAGE_PAGE_SIZE = 200"

definition MAX_CACHED_CONVERSATIONS :: nat where "MAX_CACHED_CONVERSATIONS = 20"

definition MAX_MESSAGES_PER_ENTRY :: nat where "MAX_MESSAGES_PER_ENTRY = 200"

record cached_entry =
  ce_messages :: "message list"
  ce_hasOlder :: bool

record internal_entry = cached_entry +
  ce_contentKeys :: "string list"

type_synonym conversation_cache = "(string, internal_entry) jsmap"

definition normalizeEntry :: "message list \<Rightarrow> bool \<Rightarrow> internal_entry" where
  "normalizeEntry messages hasOlder =
     (if MAX_MESSAGES_PER_ENTRY < length messages then
        let kept = js_slice 0 MAX_MESSAGES_PER_ENTRY
                     (js_sort (\<lambda>a b. msg_received_at b - msg_received_at a) messages)
        in \<lparr>ce_messages = kept, ce_hasOlder = True,
            ce_contentKeys = js_set (map getMessageContentKey kept)\<rparr>
      else \<lparr>ce_messages = messages, ce_hasOlder = hasOlder,
            ce_contentKeys = js_set (map getMessageContentKey messages)\<rparr>)"

definition public_entry :: "internal_entry \<Rightarrow> cached_entry" where
  "public_entry e = \<lparr>ce_messages = ce_messages e, ce_hasOlder = ce_hasOlder e\<rparr>"

definition cache_get :: "string \<Rightarrow> conversation_cache \<Rightarrow> conversation_cache \<times> cached_entry option" where
  "cache_get i c =
     (case jm_get c i of
        None \<Rightarrow> (c, None)
      | Some e \<Rightarrow> (jm_set i e (jm_delete i c), Some (public_entry e)))"

definition cache_peek :: "string \<Rightarrow> conversation_cache \<Rightarrow> cached_entry option" where
  "cache_peek i c = (case jm_get c i of None \<Rightarrow> None | Some e \<Rightarrow> Some (public_entry e))"

definition cache_set :: "string \<Rightarrow> cached_entry \<Rightarrow> conversation_cache \<Rightarrow> conversation_cache" where
  "cache_set i entry c =
     evict_oldest MAX_CACHED_CONVERSATIONS
       (jm_set i (normalizeEntry (ce_messages entry) (ce_hasOlder entry)) (jm_delete i c))"

definition cache_addMessage :: "string \<Rightarrow> message \<Rightarrow> conversation_cache \<Rightarrow> conversation_cache \<times> bool" where
  "cache_addMessage i msg c =
     (let contentKey = getMessageContentKey msg in
      case jm_get c i of
        None \<Rightarrow>
          (evict_oldest MAX_CACHED_CONVERSATIONS
             (jm_set i \<lparr>ce_messages = [msg], ce_hasOlder = True, ce_contentKeys = js_set [contentKey]\<rparr> c),
           True)
      | Some entry \<Rightarrow>
          if contentKey \<in> set (ce_contentKeys entry) then (c, False)
          else if list_ex (\<lambda>m. msg_id m = msg_id msg) (ce_messages entry) then (c, False)
          else (jm_set i (normalizeEntry (ce_messages entry @ [msg]) (ce_hasOlder entry)) (jm_delete i c), True))"

record ack_extras =
  ex_packet_hash :: "string option option"
  ex_observer_reach_eligible :: "bool option option"

abbreviation "no_extras \<equiv> \<lparr>ex_packet_hash = None, ex_observer_reach_eligible = None\<rparr>"

text \<open>\<open>overwrite new old\<close> is a spread of a property that is present only when it is defined.\<close>

definition overwrite :: "'a option \<Rightarrow> 'a option \<Rightarrow> 'a option" where
  "overwrite new old = (case new of None \<Rightarrow> old | Some _ \<Rightarrow> new)"

definition paths_len :: "message_path list option \<Rightarrow> nat" where
  "paths_len ps = (case ps of None \<Rightarrow> 0 | Some l \<Rightarrow> length l)"

definition ack_update ::
  "int \<Rightarrow> message_path list option \<Rightarrow> int option option \<Rightarrow> ack_extras \<Rightarrow> message \<Rightarrow> message" where
  "ack_update ackCount paths packetId extras m =
     m\<lparr>msg_acked := max (msg_acked m) ackCount,
       msg_paths := (case paths of Some ps \<Rightarrow>
                        if paths_len (msg_paths m) \<le> length ps then Some ps else msg_paths m
                      | None \<Rightarrow> msg_paths m),
       msg_packet_id := overwrite packetId (msg_packet_id m),
       msg_packet_hash := overwrite (ex_packet_hash extras) (msg_packet_hash m),
       msg_observer_reach_eligible :=
         overwrite (ex_observer_reach_eligible extras) (msg_observer_reach_eligible m)\<rparr>"

text \<open>The loop over the entries stops at the first entry that holds the message.\<close>

definition cache_updateAck ::
  "int \<Rightarrow> int \<Rightarrow> message_path list option \<Rightarrow> int option option \<Rightarrow> ack_extras \<Rightarrow> conversation_cache \<Rightarrow>
    conversation_cache" where
  "cache_updateAck messageId ackCount paths packetId extras c =
     update_first (\<lambda>(k, e). list_ex (\<lambda>m. msg_id m = messageId) (ce_messages e))
       (\<lambda>(k, e). (k, e\<lparr>ce_messages :=
          update_first (\<lambda>m. msg_id m = messageId) (ack_update ackCount paths packetId extras) (ce_messages e)\<rparr>))
       c"

definition cache_remove :: "string \<Rightarrow> conversation_cache \<Rightarrow> conversation_cache" where
  "cache_remove i c = jm_delete i c"

fun merge_by_id :: "message list \<Rightarrow> message list \<Rightarrow> message list" where
  "merge_by_id merged [] = merged"
| "merge_by_id merged (m # ms) =
     (if msg_id m \<in> set (map msg_id merged) then merge_by_id merged ms else merge_by_id (merged @ [m]) ms)"

definition cache_rename :: "string \<Rightarrow> string \<Rightarrow> conversation_cache \<Rightarrow> conversation_cache" where
  "cache_rename oldId newId c =
     (if oldId = newId then c
      else case jm_get c oldId of
        None \<Rightarrow> c
      | Some oldEntry \<Rightarrow>
          (case jm_get c newId of
             None \<Rightarrow> jm_set newId oldEntry (jm_delete oldId c)
           | Some newEntry \<Rightarrow>
               jm_set newId
                 (normalizeEntry (merge_by_id (ce_messages newEntry) (ce_messages oldEntry))
                    (ce_hasOlder newEntry \<or> ce_hasOlder oldEntry))
                 (jm_delete oldId c)))"

definition cache_removeMessage :: "int \<Rightarrow> conversation_cache \<Rightarrow> conversation_cache" where
  "cache_removeMessage messageId c =
     update_first (\<lambda>(k, e). list_ex (\<lambda>m. msg_id m = messageId) (ce_messages e))
       (\<lambda>(k, e). (k, normalizeEntry (filter (\<lambda>m. msg_id m \<noteq> messageId) (ce_messages e)) (ce_hasOlder e)))
       c"

definition cache_clear :: "conversation_cache \<Rightarrow> conversation_cache" where
  "cache_clear c = []"

section \<open>Reconciliation with a fetched page\<close>

record current_summary =
  cs_acked :: int
  cs_pathsLen :: nat
  cs_text :: string
  cs_packetId :: "int option option"

definition summary_of :: "message \<Rightarrow> current_summary" where
  "summary_of m = \<lparr>cs_acked = msg_acked m, cs_pathsLen = paths_len (msg_paths m), cs_text = msg_text m,
     cs_packetId = msg_packet_id m\<rparr>"

definition reconcileConversationMessages :: "message list \<Rightarrow> message list \<Rightarrow> message list option" where
  "reconcileConversationMessages current fetched =
     (let currentById = fold (\<lambda>m t. jm_set (msg_id m) (summary_of m) t) current [];
          needsUpdate = list_ex (\<lambda>m. jm_get currentById (msg_id m) \<noteq> Some (summary_of m)) fetched
      in if \<not> needsUpdate then None
         else Some (fetched @ filter (\<lambda>m. msg_id m \<notin> set (js_set (map msg_id fetched))) current))"

section \<open>Acknowledgements that arrive early\<close>

record pending_ack =
  pa_ackCount :: int
  pa_paths :: "message_path list option"
  pa_packetId :: "int option option"
  pa_packetHash :: "string option option"
  pa_observerReachEligible :: "bool option option"

definition mergePendingAck ::
  "pending_ack option \<Rightarrow> int \<Rightarrow> message_path list option \<Rightarrow> int option option \<Rightarrow> ack_extras \<Rightarrow> pending_ack" where
  "mergePendingAck existing ackCount paths packetId extras =
     (case existing of
        None \<Rightarrow>
          \<lparr>pa_ackCount = ackCount, pa_paths = paths, pa_packetId = packetId,
           pa_packetHash = ex_packet_hash extras,
           pa_observerReachEligible = ex_observer_reach_eligible extras\<rparr>
      | Some ex \<Rightarrow>
          let hash = overwrite (ex_packet_hash extras) (pa_packetHash ex);
              reach = overwrite (ex_observer_reach_eligible extras) (pa_observerReachEligible ex);
              packetIdChanged = (packetId \<noteq> None \<and> packetId \<noteq> pa_packetId ex)
          in
          if pa_ackCount ex < ackCount then
            \<lparr>pa_ackCount = ackCount, pa_paths = overwrite paths (pa_paths ex),
             pa_packetId = overwrite packetId (pa_packetId ex),
             pa_packetHash = hash, pa_observerReachEligible = reach\<rparr>
          else if ackCount < pa_ackCount ex then ex
          else
            (case paths of
               None \<Rightarrow>
                 if \<not> packetIdChanged \<and> ex_packet_hash extras = None \<and> ex_observer_reach_eligible extras = None
                 then ex
                 else ex\<lparr>pa_packetId := (if packetIdChanged then packetId else pa_packetId ex),
                         pa_packetHash := hash, pa_observerReachEligible := reach\<rparr>
             | Some ps \<Rightarrow>
                 let existingPathCount = (case pa_paths ex of None \<Rightarrow> -1 | Some l \<Rightarrow> int (length l)) in
                 if existingPathCount \<le> int (length ps) then
                   \<lparr>pa_ackCount = ackCount, pa_paths = Some ps, pa_packetId = packetId,
                    pa_packetHash = hash, pa_observerReachEligible = reach\<rparr>
                 else if \<not> packetIdChanged then ex
                 else ex\<lparr>pa_packetId := packetId\<rparr>))"

section \<open>The messages of the open conversation\<close>

definition isMessageConversation :: "conversation option \<Rightarrow> bool" where
  "isMessageConversation conv =
     (case conv of
        None \<Rightarrow> False
      | Some c \<Rightarrow> conv_type c \<notin> {ConvRaw, ConvControl, ConvMap, ConvVisualizer, ConvSearch, ConvTrace, ConvLocate})"

definition isActiveConversationMessage :: "conversation option \<Rightarrow> message \<Rightarrow> bool" where
  "isActiveConversationMessage active msg =
     (case active of
        None \<Rightarrow> False
      | Some c \<Rightarrow>
          if msg_type msg = CHAN \<and> conv_type c = ConvChannel then msg_conversation_key msg = conv_id c
          else if msg_type msg = PRIV \<and> conv_type c = ConvContact then msg_conversation_key msg = conv_id c
          else False)"

fun collect_unique :: "int list \<Rightarrow> string list \<Rightarrow> message list \<Rightarrow> message list" where
  "collect_unique seenIds seenContent [] = []"
| "collect_unique seenIds seenContent (m # ms) =
     (let contentKey = getMessageContentKey m in
      if msg_id m \<in> set seenIds \<or> contentKey \<in> set seenContent
      then collect_unique seenIds seenContent ms
      else m # collect_unique (js_add (msg_id m) seenIds) (js_add contentKey seenContent) ms)"

definition appendUniqueMessages :: "message list \<Rightarrow> message list \<Rightarrow> message list" where
  "appendUniqueMessages current incoming =
     current @ collect_unique (js_set (map msg_id current)) (js_set (map getMessageContentKey current)) incoming"

section \<open>The cache invariant\<close>

definition entry_ok :: "internal_entry \<Rightarrow> bool" where
  "entry_ok e \<longleftrightarrow> length (ce_messages e) \<le> MAX_MESSAGES_PER_ENTRY \<and>
     set (ce_contentKeys e) = getMessageContentKey ` set (ce_messages e)"

definition cache_ok :: "conversation_cache \<Rightarrow> bool" where
  "cache_ok c \<longleftrightarrow> jm_wf c \<and> length c \<le> MAX_CACHED_CONVERSATIONS \<and> jm_all (\<lambda>_ e. entry_ok e) c"

lemma getMessageContentKey_ack [simp]:
  "getMessageContentKey (ack_update n ps pid ex m) = getMessageContentKey m"
  by (simp add: getMessageContentKey_def ack_update_def split: option.split)

lemma ack_update_same [simp]:
  "msg_id (ack_update n ps pid ex m) = msg_id m"
  "msg_conversation_key (ack_update n ps pid ex m) = msg_conversation_key m"
  "msg_type (ack_update n ps pid ex m) = msg_type m"
  "msg_text (ack_update n ps pid ex m) = msg_text m"
  "msg_received_at (ack_update n ps pid ex m) = msg_received_at m"
  "msg_acked (ack_update n ps pid ex m) = max (msg_acked m) n"
  by (simp_all add: ack_update_def)

lemma entry_ok_normalize [js_inv]: "entry_ok (normalizeEntry ms older)"
  by (auto simp: normalizeEntry_def entry_ok_def Let_def js_slice_def)

lemma entry_ok_ack:
  assumes "entry_ok e"
  shows "entry_ok (e\<lparr>ce_messages := update_first P (ack_update n ps pid ex) (ce_messages e)\<rparr>)"
proof -
  have "map getMessageContentKey (update_first P (ack_update n ps pid ex) (ce_messages e)) =
      map getMessageContentKey (ce_messages e)"
    by (rule map_update_first) simp
  then show ?thesis using assms by (simp add: entry_ok_def flip: set_map)
qed

lemma cache_ok_Nil [js_inv]: "cache_ok []"
  by (simp add: cache_ok_def)

lemma cache_ok_replace [js_inv]:
  assumes "cache_ok c" and "entry_ok e" and "a \<in> set (jm_keys c)"
  shows "cache_ok (jm_set b e (jm_delete a c))"
  using assms length_jm_replace [OF assms(3), of b e] by (auto simp: cache_ok_def intro!: js_inv)

lemma cache_ok_insert:
  assumes "cache_ok c" and "entry_ok e"
  shows "cache_ok (evict_oldest MAX_CACHED_CONVERSATIONS (jm_set i e c))"
proof -
  have "length (jm_set i e c) \<le> Suc MAX_CACHED_CONVERSATIONS"
    using assms(1) by (simp add: cache_ok_def length_jm_set)
  then show ?thesis using assms unfolding cache_ok_def by (intro conjI js_inv length_evict_oldest) auto
qed

lemma cache_ok_delete [js_inv]: "cache_ok c \<Longrightarrow> cache_ok (jm_delete i c)"
  using length_jm_delete_le [of i c] by (auto simp: cache_ok_def intro: js_inv)

lemma cache_ok_set [js_inv]: "cache_ok c \<Longrightarrow> cache_ok (cache_set i e c)"
  unfolding cache_set_def by (intro cache_ok_insert js_inv)

lemma cache_ok_entry: "cache_ok c \<Longrightarrow> jm_get c i = Some e \<Longrightarrow> entry_ok e"
  by (auto simp: cache_ok_def dest: jm_all_get)

lemma cache_ok_get [js_inv]: "cache_ok c \<Longrightarrow> cache_ok (fst (cache_get i c))"
  by (auto simp: cache_get_def split: option.split
      intro!: cache_ok_replace dest: cache_ok_entry jm.get_SomeD)

lemma cache_ok_add [js_inv]: "cache_ok c \<Longrightarrow> cache_ok (fst (cache_addMessage i m c))"
proof (cases "jm_get c i")
  case None
  assume "cache_ok c"
  then show ?thesis
    unfolding cache_addMessage_def Let_def None option.case fst_conv
    by (intro cache_ok_insert) (auto simp: entry_ok_def MAX_MESSAGES_PER_ENTRY_def)
next
  case (Some e)
  assume "cache_ok c"
  then show ?thesis
    using Some by (auto simp: cache_addMessage_def Let_def intro!: js_inv jm.get_SomeD [OF Some])
qed

lemma cache_ok_updateAck [js_inv]: "cache_ok c \<Longrightarrow> cache_ok (cache_updateAck i n ps pid ex c)"
  unfolding cache_ok_def cache_updateAck_def
  by (intro conjI js_inv jm_all_update_first) (auto intro: entry_ok_ack)

lemma cache_ok_removeMessage [js_inv]: "cache_ok c \<Longrightarrow> cache_ok (cache_removeMessage i c)"
  unfolding cache_ok_def cache_removeMessage_def
  by (intro conjI js_inv jm_all_update_first) (auto intro: js_inv)

lemma cache_ok_rename [js_inv]: "cache_ok c \<Longrightarrow> cache_ok (cache_rename a b c)"
  by (auto simp: cache_rename_def split: option.split
      intro!: cache_ok_replace js_inv dest: cache_ok_entry jm.get_SomeD)

datatype cache_op =
    OpGet string | OpSet string cached_entry | OpAdd string message
  | OpAck int int "message_path list option" "int option option" ack_extras
  | OpRemove string | OpRename string string | OpRemoveMessage int | OpClear

fun cache_step :: "cache_op \<Rightarrow> conversation_cache \<Rightarrow> conversation_cache" where
  "cache_step (OpGet i) c = fst (cache_get i c)"
| "cache_step (OpSet i e) c = cache_set i e c"
| "cache_step (OpAdd i m) c = fst (cache_addMessage i m c)"
| "cache_step (OpAck i n ps pid ex) c = cache_updateAck i n ps pid ex c"
| "cache_step (OpRemove i) c = cache_remove i c"
| "cache_step (OpRename a b) c = cache_rename a b c"
| "cache_step (OpRemoveMessage i) c = cache_removeMessage i c"
| "cache_step OpClear c = cache_clear c"

lemma cache_step_ok: "cache_ok c \<Longrightarrow> cache_ok (cache_step op c)"
  by (cases op) (auto simp: cache_remove_def cache_clear_def intro: js_inv)

interpretation cache_machine: event_machine cache_step cache_ok "\<lambda>_. True"
  by unfold_locales (rule cache_step_ok)

section \<open>The least recently used conversation\<close>

interpretation cache_lru: lru_store MAX_CACHED_CONVERSATIONS "lru_put MAX_CACHED_CONVERSATIONS"
    "jm_get :: conversation_cache \<Rightarrow> _" jm_keys
  by (rule lru_put_is_lru) (simp add: MAX_CACHED_CONVERSATIONS_def)

lemma cache_set_lru:
  "cache_set i e c = lru_put MAX_CACHED_CONVERSATIONS i (normalizeEntry (ce_messages e) (ce_hasOlder e)) c"
  by (simp add: cache_set_def lru_put_def)

section \<open>What an entry keeps\<close>

lemma normalize_short:
  "length ms \<le> MAX_MESSAGES_PER_ENTRY \<Longrightarrow> ce_messages (normalizeEntry ms older) = ms"
  by (simp add: normalizeEntry_def)

lemma normalize_subset: "set (ce_messages (normalizeEntry ms older)) \<subseteq> set ms"
  by (auto simp: normalizeEntry_def Let_def js_slice_def dest!: in_set_takeD)

lemma sort_newest:
  "js_sort (\<lambda>a b. msg_received_at b - msg_received_at a) ms = sort_key (\<lambda>m. - msg_received_at m) ms"
  by (rule js_sort_key) simp

lemma normalize_newest:
  assumes "m \<in> set ms" "m \<notin> set (ce_messages (normalizeEntry ms older))"
    and "k \<in> set (ce_messages (normalizeEntry ms older))"
  shows "msg_received_at m \<le> msg_received_at k"
proof -
  define s where "s = sort_key (\<lambda>m. - msg_received_at m) ms"
  have long: "MAX_MESSAGES_PER_ENTRY < length ms"
    using assms(1,2) by (auto simp: normalizeEntry_def split: if_splits)
  then have kept: "ce_messages (normalizeEntry ms older) = take MAX_MESSAGES_PER_ENTRY s"
    by (simp add: normalizeEntry_def Let_def js_slice_def sort_newest s_def)
  have "set ms = set (take MAX_MESSAGES_PER_ENTRY s) \<union> set (drop MAX_MESSAGES_PER_ENTRY s)"
    by (metis append_take_drop_id s_def set_append set_sort)
  then have "m \<in> set (drop MAX_MESSAGES_PER_ENTRY s)" using assms(1,2) kept by auto
  moreover have "sorted (map (\<lambda>m. - msg_received_at m)
      (take MAX_MESSAGES_PER_ENTRY s @ drop MAX_MESSAGES_PER_ENTRY s))"
    by (simp add: s_def)
  ultimately show ?thesis
    using assms(3) unfolding kept map_append sorted_append by fastforce
qed

lemma normalize_distinct:
  "distinct (map msg_id ms) \<Longrightarrow> distinct (map msg_id (ce_messages (normalizeEntry ms older)))"
  unfolding normalizeEntry_def Let_def js_slice_def sort_newest
  by (auto simp: take_map [symmetric] distinct_map inj_on_def intro!: distinct_take dest!: in_set_takeD)

lemma merge_by_id_ids:
  "distinct (map msg_id a) \<Longrightarrow> distinct (map msg_id (merge_by_id a b)) \<and>
     msg_id ` set (merge_by_id a b) = msg_id ` set a \<union> msg_id ` set b \<and>
     set a \<subseteq> set (merge_by_id a b) \<and> set (merge_by_id a b) \<subseteq> set a \<union> set b"
proof (induction a b rule: merge_by_id.induct)
  case (2 a m ms)
  show ?case
  proof (cases "msg_id m \<in> set (map msg_id a)")
    case True
    then have "merge_by_id a (m # ms) = merge_by_id a ms" by simp
    then show ?thesis using "2.IH"(1) [OF True "2.prems"] True by auto
  next
    case False
    then have "distinct (map msg_id (a @ [m]))" using "2.prems" by auto
    then show ?thesis using "2.IH"(2) [OF False] False by auto
  qed
qed simp

section \<open>Reconciliation\<close>

lemma fold_jm_set_get:
  "jm_get (fold (\<lambda>m t. jm_set (f m) (g m) t) ms t0) k =
     (case filter (\<lambda>m. f m = k) ms of [] \<Rightarrow> jm_get t0 k | l \<Rightarrow> Some (g (last l)))"
  by (induction ms arbitrary: t0) (auto simp: jm.get_put split: list.splits)

lemma filter_id_unique:
  "distinct (map f ms) \<Longrightarrow> m \<in> set ms \<Longrightarrow> filter (\<lambda>x. f x = f m) ms = [m]"
proof (induction ms)
  case (Cons a ms)
  show ?case
  proof (cases "a = m")
    case True
    then have "\<forall>x \<in> set ms. f x \<noteq> f m" using Cons.prems by (auto simp: image_iff)
    then show ?thesis using True by (simp add: filter_empty_conv)
  next
    case False
    then show ?thesis using Cons by (auto simp: image_iff)
  qed
qed simp

lemma summary_lookup:
  assumes "distinct (map msg_id current)"
  shows "jm_get (fold (\<lambda>m t. jm_set (msg_id m) (summary_of m) t) current []) i = Some s \<longleftrightarrow>
     (\<exists>m \<in> set current. msg_id m = i \<and> summary_of m = s)"
proof (cases "\<exists>m \<in> set current. msg_id m = i")
  case True
  then obtain m where m: "m \<in> set current" "msg_id m = i" by blast
  have "filter (\<lambda>x. msg_id x = i) current = [m]"
    using filter_id_unique [OF assms m(1)] m(2) by simp
  then have "jm_get (fold (\<lambda>m t. jm_set (msg_id m) (summary_of m) t) current []) i = Some (summary_of m)"
    by (simp add: fold_jm_set_get)
  moreover have "x = m" if "x \<in> set current" "msg_id x = i" for x
    using inj_onD [OF conjunct2 [OF iffD1 [OF distinct_map assms]], of x m] that m by simp
  ultimately show ?thesis using m by (metis option.inject)
next
  case False
  then have "filter (\<lambda>x. msg_id x = i) current = []" by (auto simp: filter_empty_conv)
  then show ?thesis using False by (auto simp: fold_jm_set_get)
qed

lemma reconcile_None:
  assumes "distinct (map msg_id current)"
  shows "reconcileConversationMessages current fetched = None \<longleftrightarrow>
     (\<forall>f \<in> set fetched. \<exists>m \<in> set current. msg_id m = msg_id f \<and> summary_of m = summary_of f)"
  by (auto simp: reconcileConversationMessages_def Let_def list_ex_iff summary_lookup [OF assms])

lemma reconcile_Some:
  "reconcileConversationMessages current fetched = Some r \<Longrightarrow>
     r = fetched @ filter (\<lambda>m. msg_id m \<notin> msg_id ` set fetched) current"
  by (auto simp: reconcileConversationMessages_def Let_def split: if_splits)

lemma reconcile_ids:
  assumes "reconcileConversationMessages current fetched = Some r"
    and "distinct (map msg_id current)" and "distinct (map msg_id fetched)"
  shows "distinct (map msg_id r)" and "msg_id ` set r = msg_id ` set current \<union> msg_id ` set fetched"
  using assms(2,3) unfolding reconcile_Some [OF assms(1)]
  by (auto simp: distinct_map_filter image_iff)

lemma collect_unique_props:
  "distinct (map msg_id (collect_unique ids keys ms)) \<and>
   distinct (map getMessageContentKey (collect_unique ids keys ms)) \<and>
   msg_id ` set (collect_unique ids keys ms) \<inter> set ids = {} \<and>
   getMessageContentKey ` set (collect_unique ids keys ms) \<inter> set keys = {} \<and>
   set (collect_unique ids keys ms) \<subseteq> set ms"
  by (induction ids keys ms rule: collect_unique.induct) (auto simp: Let_def)

lemma appendUnique_distinct:
  assumes "distinct (map msg_id current)"
  shows "distinct (map msg_id (appendUniqueMessages current incoming))"
  using assms collect_unique_props [of "js_set (map msg_id current)" "js_set (map getMessageContentKey current)" incoming]
  by (auto simp: appendUniqueMessages_def)

lemma appendUnique_subset: "set (appendUniqueMessages current incoming) \<subseteq> set current \<union> set incoming"
  using collect_unique_props [of "js_set (map msg_id current)" "js_set (map getMessageContentKey current)" incoming]
  by (auto simp: appendUniqueMessages_def)

text \<open>An entry already counted is kept with its packet id only on the branch of a larger count.\<close>

lemma merge_equal_count_drops_packet_id:
  "mergePendingAck (Some \<lparr>pa_ackCount = 1, pa_paths = None, pa_packetId = Some (Some 7), pa_packetHash = None,
       pa_observerReachEligible = None\<rparr>) 1 (Some []) None no_extras =
     \<lparr>pa_ackCount = 1, pa_paths = Some [], pa_packetId = None, pa_packetHash = None,
       pa_observerReachEligible = None\<rparr>"
  by (simp add: mergePendingAck_def overwrite_def)

definition cached_messages :: "string \<Rightarrow> conversation_cache \<Rightarrow> message list" where
  "cached_messages i c = (case jm_get c i of None \<Rightarrow> [] | Some e \<Rightarrow> ce_messages e)"

section \<open>Properties\<close>

text \<open>
  C12: After any sequence of cache operations from the empty cache, no conversation is stored
  twice, there are at most 20 conversations of at most 200 messages each, and the key set used
  for duplicate detection is exactly the set of content keys of the stored messages.
\<close>

theorem cache_always_bounded: "cache_ok (fold cache_step ops [])"
  by (rule cache_machine.run_inv) (simp_all add: cache_ok_Nil list_all_iff)

text \<open>
  Storing a conversation makes it readable with its newest messages, and at most the least
  recently used conversation is lost: every other one reads as before.
\<close>

theorem cache_set_keeps_recent:
  assumes "cache_ok c" and "k \<in> set (jm_keys c)" and "k \<noteq> i" and "k \<noteq> hd (jm_keys c)"
  shows "cache_peek i (cache_set i e c) =
       Some (public_entry (normalizeEntry (ce_messages e) (ce_hasOlder e))) \<and>
     cache_peek k (cache_set i e c) = cache_peek k c"
proof -
  have d: "distinct (jm_keys c)" and b: "length (jm_keys c) \<le> MAX_CACHED_CONVERSATIONS"
    using assms(1) by (auto simp: cache_ok_def jm_wf_def)
  have "k \<in> set (jm_keys (cache_set i e c))"
    unfolding cache_set_lru by (rule cache_lru.lru_survives [OF d b assms(2,4)])
  then have "jm_get (cache_set i e c) k = jm_get c k"
    using assms(3) cache_lru.get_put [OF d] unfolding cache_set_lru by simp
  then show ?thesis
    using cache_lru.lru_get_self [OF d] unfolding cache_set_lru by (simp add: cache_peek_def)
qed

theorem cache_set_keeps_recent_witness:
  "cache_peek ''c'' (cache_set ''c'' \<lparr>ce_messages = [], ce_hasOlder = True\<rparr>
      [(''a'', normalizeEntry [] False), (''b'', normalizeEntry [] False)]) =
       Some (public_entry (normalizeEntry [] True)) \<and>
   cache_peek ''b'' (cache_set ''c'' \<lparr>ce_messages = [], ce_hasOlder = True\<rparr>
      [(''a'', normalizeEntry [] False), (''b'', normalizeEntry [] False)]) =
     cache_peek ''b'' [(''a'', normalizeEntry [] False), (''b'', normalizeEntry [] False)]"
proof -
  have "cache_ok [(''a'', normalizeEntry [] False), (''b'', normalizeEntry [] False)]"
    by (simp add: cache_ok_def jm_wf_def jm_all_def entry_ok_normalize MAX_CACHED_CONVERSATIONS_def)
  from cache_set_keeps_recent [OF this, of "''b''" "''c''" "\<lparr>ce_messages = [], ce_hasOlder = True\<rparr>"]
  show ?thesis by simp
qed

text \<open>
  Reading a cached conversation changes no content and protects it from the next eviction:
  whatever other conversation is stored next, it still reads the same.
\<close>

theorem cache_get_protects:
  assumes "cache_ok c" and "jm_get c i = Some e" and "j \<noteq> i"
  shows "snd (cache_get i c) = Some (public_entry e) \<and>
     cache_peek k (fst (cache_get i c)) = cache_peek k c \<and>
     cache_peek i (cache_set j x (fst (cache_get i c))) = Some (public_entry e)"
proof -
  define c' where "c' = jm_set i e (jm_delete i c)"
  have g: "cache_get i c = (c', Some (public_entry e))"
    using assms(2) by (simp add: cache_get_def c'_def)
  have ok: "cache_ok c'" using cache_ok_get [OF assms(1), of i] by (simp add: g)
  then have d: "distinct (jm_keys c')" and b: "length (jm_keys c') \<le> MAX_CACHED_CONVERSATIONS"
    by (auto simp: cache_ok_def jm_wf_def)
  have get: "jm_get c' k = jm_get c k" for k
    using assms(2) by (simp add: c'_def js_map_simps)
  have keys: "jm_keys c' = filter (\<lambda>k. k \<noteq> i) (jm_keys c) @ [i]"
    by (simp add: c'_def js_map_simps)
  have "i \<in> set (jm_keys (lru_put MAX_CACHED_CONVERSATIONS j v c'))" for v
  proof (cases "i = hd (jm_keys c')")
    case True
    then have "filter (\<lambda>k. k \<noteq> i) (jm_keys c) = []"
      using keys by (cases "filter (\<lambda>k. k \<noteq> i) (jm_keys c)") (auto simp: filter_eq_Cons_iff)
    then show ?thesis
      using assms(3) keys cache_lru.keys_put [OF d, of j v]
      by (auto simp: lru_keys_def Let_def MAX_CACHED_CONVERSATIONS_def)
  next
    case False
    then show ?thesis using cache_lru.lru_survives [OF d b] keys by simp
  qed
  then have "jm_get (cache_set j x c') i = jm_get c' i"
    using cache_lru.get_put [OF d] assms(3) unfolding cache_set_lru by simp
  then show ?thesis using get assms(2) by (simp add: g cache_peek_def)
qed

theorem cache_get_protects_witness:
  "snd (cache_get ''a'' [(''a'', normalizeEntry [] False)]) = Some (public_entry (normalizeEntry [] False)) \<and>
   cache_peek ''a'' (fst (cache_get ''a'' [(''a'', normalizeEntry [] False)])) =
     cache_peek ''a'' [(''a'', normalizeEntry [] False)] \<and>
   cache_peek ''a'' (cache_set ''b'' \<lparr>ce_messages = [], ce_hasOlder = True\<rparr>
      (fst (cache_get ''a'' [(''a'', normalizeEntry [] False)]))) = Some (public_entry (normalizeEntry [] False))"
  by (rule cache_get_protects)
    (simp_all add: cache_ok_def jm_wf_def jm_all_def entry_ok_normalize MAX_CACHED_CONVERSATIONS_def jm_get_def)

text \<open>
  An entry that overflows keeps 200 messages and remembers that older ones exist; a message
  that is dropped was received no later than any message that is kept.
\<close>

theorem entry_keeps_newest:
  assumes "MAX_MESSAGES_PER_ENTRY < length ms"
  shows "length (ce_messages (normalizeEntry ms older)) = MAX_MESSAGES_PER_ENTRY \<and>
     ce_hasOlder (normalizeEntry ms older) \<and>
     set (ce_messages (normalizeEntry ms older)) \<subseteq> set ms \<and>
     (\<forall>m \<in> set ms - set (ce_messages (normalizeEntry ms older)).
        \<forall>k \<in> set (ce_messages (normalizeEntry ms older)). msg_received_at m \<le> msg_received_at k)"
proof -
  have "length (ce_messages (normalizeEntry ms older)) = MAX_MESSAGES_PER_ENTRY" and
    "ce_hasOlder (normalizeEntry ms older)"
    using assms by (simp_all add: normalizeEntry_def Let_def js_slice_def)
  then show ?thesis using normalize_subset [of ms older] normalize_newest [of _ ms older] by blast
qed

theorem entry_keeps_newest_witness:
  "length (ce_messages (normalizeEntry (replicate 201 (sample_message 1 ''a'' 5)) False)) =
     MAX_MESSAGES_PER_ENTRY \<and>
   ce_hasOlder (normalizeEntry (replicate 201 (sample_message 1 ''a'' 5)) False)"
  using entry_keeps_newest [of "replicate 201 (sample_message 1 ''a'' 5)" False]
  by (simp add: MAX_MESSAGES_PER_ENTRY_def)

text \<open>
  Adding a message to a cached conversation either reports False, changes nothing, and the
  conversation already held a message with the same id or the same content; or it reports True
  and the conversation holds the old messages and the new one, cut to the newest 200.
\<close>

theorem cache_add_message:
  assumes "cache_ok c" and "cache_addMessage i m c = (c', added)"
  shows "if added
     then m \<notin> set (cached_messages i c) \<and>
       (\<exists>older. cached_messages i c' = ce_messages (normalizeEntry (cached_messages i c @ [m]) older))
     else c' = c \<and> (\<exists>x \<in> set (cached_messages i c).
       msg_id x = msg_id m \<or> getMessageContentKey x = getMessageContentKey m)"
proof (cases "jm_get c i")
  case None
  define e where "e = \<lparr>ce_messages = [m], ce_hasOlder = True, ce_contentKeys = js_set [getMessageContentKey m]\<rparr>"
  have d: "distinct (jm_keys c)" using assms(1) by (simp add: cache_ok_def jm_wf_def)
  have "jm_delete i c = c"
    using None by (auto simp: jm_delete_def filter_id_conv jm.get_None jm_keys_def)
  then have "c' = lru_put MAX_CACHED_CONVERSATIONS i e c" and "added"
    using assms(2) None by (auto simp: cache_addMessage_def Let_def lru_put_def e_def)
  then have "jm_get c' i = Some e" using cache_lru.lru_get_self [OF d] by simp
  then show ?thesis
    using None \<open>added\<close> by (simp add: cached_messages_def e_def normalizeEntry_def MAX_MESSAGES_PER_ENTRY_def)
next
  case (Some e)
  have keys: "set (ce_contentKeys e) = getMessageContentKey ` set (ce_messages e)"
    using cache_ok_entry [OF assms(1) Some] by (simp add: entry_ok_def)
  show ?thesis
  proof (cases "getMessageContentKey m \<in> set (ce_contentKeys e) \<or>
      list_ex (\<lambda>x. msg_id x = msg_id m) (ce_messages e)")
    case True
    then have "c' = c" "\<not> added" using assms(2) Some by (auto simp: cache_addMessage_def Let_def split: if_splits)
    then show ?thesis using True Some keys by (fastforce simp: cached_messages_def list_ex_iff)
  next
    case False
    then have "added" and "jm_get c' i = Some (normalizeEntry (ce_messages e @ [m]) (ce_hasOlder e))"
      using assms(2) Some by (auto simp: cache_addMessage_def Let_def js_map_simps split: if_splits)
    then show ?thesis using False Some keys by (auto simp: cached_messages_def)
  qed
qed

theorem cache_add_message_witness:
  "sample_message 1 ''a'' 5 \<notin> set (cached_messages ''a'' [])"
  using cache_add_message [OF cache_ok_Nil, of "''a''" "sample_message 1 ''a'' 5"
      "fst (cache_addMessage ''a'' (sample_message 1 ''a'' 5) [])"
      "snd (cache_addMessage ''a'' (sample_message 1 ''a'' 5) [])"]
  by (simp add: cache_addMessage_def)

text \<open>
  Reconciling the messages on screen with a fetched page. No update is made exactly when every
  fetched message is already there with the same acknowledgement count, number of paths, text
  and packet id. Otherwise the fetched messages come first, then the current ones that were not
  fetched; no id is lost, none appears twice.
\<close>

theorem reconcile_correct:
  assumes "distinct (map msg_id current)" and "distinct (map msg_id fetched)"
  shows "case reconcileConversationMessages current fetched of
     None \<Rightarrow> \<forall>f \<in> set fetched. \<exists>m \<in> set current. msg_id m = msg_id f \<and> summary_of m = summary_of f
   | Some r \<Rightarrow> r = fetched @ filter (\<lambda>m. msg_id m \<notin> msg_id ` set fetched) current \<and>
       distinct (map msg_id r) \<and> msg_id ` set r = msg_id ` set current \<union> msg_id ` set fetched \<and>
       \<not> (\<forall>f \<in> set fetched. \<exists>m \<in> set current. msg_id m = msg_id f \<and> summary_of m = summary_of f)"
proof (cases "reconcileConversationMessages current fetched")
  case None
  show ?thesis
    unfolding None option.case by (rule iffD1 [OF reconcile_None [OF assms(1)] None])
next
  case (Some r)
  then have "\<not> (\<forall>f \<in> set fetched. \<exists>m \<in> set current. msg_id m = msg_id f \<and> summary_of m = summary_of f)"
    using reconcile_None [OF assms(1), of fetched] by simp
  then show ?thesis
    unfolding Some option.case using reconcile_Some [OF Some] reconcile_ids [OF Some assms] by blast
qed

theorem reconcile_correct_witness:
  "case reconcileConversationMessages [sample_message 1 ''a'' 5] [sample_message 2 ''a'' 6] of
     None \<Rightarrow> False
   | Some r \<Rightarrow> distinct (map msg_id r) \<and> msg_id ` set r = {1, 2}"
  using reconcile_correct [of "[sample_message 1 ''a'' 5]" "[sample_message 2 ''a'' 6]"]
  by (auto simp: sample_message_def split: option.splits)

text \<open>
  Merging an acknowledgement into the buffer never lowers the count: the merged count is the
  larger one. At an equal count the number of known paths does not shrink, and an update with a
  smaller count changes nothing.
\<close>

theorem merge_pending_monotone:
  "pa_ackCount (mergePendingAck (Some e) n ps pid ex) = max (pa_ackCount e) n \<and>
   (if n < pa_ackCount e then mergePendingAck (Some e) n ps pid ex = e
    else if n = pa_ackCount e
    then paths_len (pa_paths e) \<le> paths_len (pa_paths (mergePendingAck (Some e) n ps pid ex))
    else paths_len (pa_paths (mergePendingAck (Some e) n ps pid ex)) = paths_len (overwrite ps (pa_paths e)))"
  by (auto simp: mergePendingAck_def overwrite_def paths_len_def Let_def split: option.splits)

end
