(* ===== verification/Conversation.thy ===== *)
theory Conversation
  imports MessageCache
begin

text \<open>
  The hook \<^verbatim>\<open>useConversationMessages\<close>: the messages on screen, the early acknowledgements, the
  requests to the backend and the hand-over to the cache when the user opens another
  conversation. The state record holds the React state, the refs and the outstanding requests.

  A handler runs after the effects that copy state into refs, so a ref and its state variable are
  one field. An asynchronous function is split at its \<^verbatim>\<open>await\<close>: the first half adds a request to
  the outstanding ones, the second half runs when the response is delivered. Responses arrive in
  any order. An aborted request may still be answered or may report \<open>Aborted\<close>: which of the two
  is left to the environment, so every behaviour of the abort controllers is covered.
\<close>

section \<open>State\<close>

datatype request_kind =
    KLatest bool | KReconcile nat | KOlder int int | KNewer int int | KAround int

record request =
  rq_kind :: request_kind
  rq_type :: message_type
  rq_conversation :: string

datatype response = Data "message list" | AroundData "message list" bool bool | Failed | Aborted

record conv_state =
  cv_active :: "conversation option"
  cv_seen :: "string list"
  cv_pending :: "(int, pending_ack) jsmap"
  cv_messages :: "message list"
  cv_messagesLoading :: bool
  cv_loadingOlder :: bool
  cv_hasOlder :: bool
  cv_hasNewer :: bool
  cv_loadingNewer :: bool
  cv_fetchingId :: "string option"
  cv_latestReconcile :: nat
  cv_pendingReconnect :: bool
  cv_prevId :: "string option"
  cv_prevReload :: nat
  cv_reload :: nat
  cv_cache :: conversation_cache
  cv_requests :: "request list"

definition conv_init :: conv_state where
  "conv_init =
     \<lparr>cv_active = None, cv_seen = [], cv_pending = [], cv_messages = [], cv_messagesLoading = False,
      cv_loadingOlder = False, cv_hasOlder = False, cv_hasNewer = False, cv_loadingNewer = False,
      cv_fetchingId = None, cv_latestReconcile = 0, cv_pendingReconnect = False, cv_prevId = None,
      cv_prevReload = 0, cv_reload = 0, cv_cache = [], cv_requests = []\<rparr>"

section \<open>Early acknowledgements\<close>

definition setPendingAck :: "int \<Rightarrow> int \<Rightarrow> message_path list option \<Rightarrow> int option option \<Rightarrow> ack_extras \<Rightarrow>
    (int, pending_ack) jsmap \<Rightarrow> (int, pending_ack) jsmap" where
  "setPendingAck messageId ackCount paths packetId extras pending =
     (let merged = mergePendingAck (jm_get pending messageId) ackCount paths packetId extras in
      evict_oldest MAX_PENDING_ACKS (jm_set messageId merged (jm_delete messageId pending)))"

definition with_pending :: "pending_ack \<Rightarrow> message \<Rightarrow> message" where
  "with_pending p m =
     m\<lparr>msg_acked := max (msg_acked m) (pa_ackCount p),
       msg_paths := overwrite (pa_paths p) (msg_paths m),
       msg_packet_id := overwrite (pa_packetId p) (msg_packet_id m),
       msg_packet_hash := overwrite (pa_packetHash p) (msg_packet_hash m),
       msg_observer_reach_eligible :=
         overwrite (pa_observerReachEligible p) (msg_observer_reach_eligible m)\<rparr>"

definition applyPendingAck ::
  "message \<Rightarrow> (int, pending_ack) jsmap \<Rightarrow> (int, pending_ack) jsmap \<times> message" where
  "applyPendingAck m pending =
     (case jm_get pending (msg_id m) of
        None \<Rightarrow> (pending, m)
      | Some p \<Rightarrow> (jm_delete (msg_id m) pending, with_pending p m))"

text \<open>\<^verbatim>\<open>data.map((msg) => applyPendingAck(msg))\<close>.\<close>

fun apply_acks ::
  "message list \<Rightarrow> (int, pending_ack) jsmap \<Rightarrow> (int, pending_ack) jsmap \<times> message list" where
  "apply_acks [] pending = (pending, [])"
| "apply_acks (m # ms) pending =
     (let (p1, m') = applyPendingAck m pending; (p2, ms') = apply_acks ms p1 in (p2, m' # ms'))"

section \<open>Fetching\<close>

definition syncSeenContent :: "message list \<Rightarrow> conv_state \<Rightarrow> conv_state" where
  "syncSeenContent ms s = s\<lparr>cv_seen := js_set (map getMessageContentKey ms)\<rparr>"

definition request_type :: "conversation \<Rightarrow> message_type" where
  "request_type c = (if conv_type c = ConvChannel then CHAN else PRIV)"

definition send_request :: "request_kind \<Rightarrow> conversation \<Rightarrow> conv_state \<Rightarrow> conv_state" where
  "send_request k c s =
     s\<lparr>cv_requests := cv_requests s @
         [\<lparr>rq_kind = k, rq_type = request_type c, rq_conversation = conv_id c\<rparr>]\<rparr>"

definition fetchLatestMessages :: "bool \<Rightarrow> conv_state \<Rightarrow> conv_state" where
  "fetchLatestMessages showLoading s =
     (case cv_active s of
        Some c \<Rightarrow>
          if isMessageConversation (cv_active s) then
            let s1 = s\<lparr>cv_pendingReconnect := False\<rparr>;
                s2 = (if showLoading then s1\<lparr>cv_messagesLoading := True, cv_messages := []\<rparr> else s1)
            in send_request (KLatest showLoading) c s2
          else s\<lparr>cv_messages := [], cv_hasOlder := False\<rparr>
      | None \<Rightarrow> s\<lparr>cv_messages := [], cv_hasOlder := False\<rparr>)"

definition latest_answer :: "string \<Rightarrow> bool \<Rightarrow> response \<Rightarrow> conv_state \<Rightarrow> conv_state" where
  "latest_answer conversationId showLoading r s =
     (let s' =
        (case r of
           Data data \<Rightarrow>
             if cv_fetchingId s \<noteq> Some conversationId then s
             else
               let (pending, withAck) = apply_acks data (cv_pending s);
                   merged = reconcileConversationMessages (cv_messages s) withAck;
                   nextMessages = coalesce merged (cv_messages s);
                   s1 = s\<lparr>cv_pending := pending\<rparr>;
                   s2 = (case merged of Some m \<Rightarrow> s1\<lparr>cv_messages := m\<rparr> | None \<Rightarrow> s1);
                   s3 = syncSeenContent nextMessages s2
               in s3\<lparr>cv_hasOlder := (MESSAGE_PAGE_SIZE \<le> length withAck)\<rparr>
         | _ \<Rightarrow> s)
      in if showLoading then s'\<lparr>cv_messagesLoading := False\<rparr> else s')"

definition reconcileFromBackend :: "conversation \<Rightarrow> nat \<Rightarrow> conv_state \<Rightarrow> conv_state" where
  "reconcileFromBackend c requestId s = send_request (KReconcile requestId) c s"

definition reconcile_answer :: "string \<Rightarrow> nat \<Rightarrow> response \<Rightarrow> conv_state \<Rightarrow> conv_state" where
  "reconcile_answer conversationId requestId r s =
     (case r of
        Data data \<Rightarrow>
          if cv_fetchingId s \<noteq> Some conversationId then s
          else if cv_latestReconcile s \<noteq> requestId then s
          else
            let (pending, withAck) = apply_acks data (cv_pending s);
                s1 = s\<lparr>cv_pending := pending, cv_hasOlder := (MESSAGE_PAGE_SIZE \<le> length withAck)\<rparr>
            in (case reconcileConversationMessages (cv_messages s) withAck of
                  None \<Rightarrow> s1
                | Some merged \<Rightarrow> syncSeenContent merged (s1\<lparr>cv_messages := merged\<rparr>))
      | _ \<Rightarrow> s)"

fun oldest_message :: "message option \<Rightarrow> message list \<Rightarrow> message option" where
  "oldest_message acc [] = acc"
| "oldest_message acc (m # ms) =
     oldest_message
       (case acc of
          None \<Rightarrow> Some m
        | Some old \<Rightarrow>
            if msg_received_at m < msg_received_at old then Some m
            else if msg_received_at m = msg_received_at old \<and> msg_id m < msg_id old then Some m
            else Some old) ms"

fun newest_message :: "message option \<Rightarrow> message list \<Rightarrow> message option" where
  "newest_message acc [] = acc"
| "newest_message acc (m # ms) =
     newest_message
       (case acc of
          None \<Rightarrow> Some m
        | Some new \<Rightarrow>
            if msg_received_at new < msg_received_at m then Some m
            else if msg_received_at m = msg_received_at new \<and> msg_id new < msg_id m then Some m
            else Some new) ms"

definition fetchOlderMessages :: "conv_state \<Rightarrow> conv_state" where
  "fetchOlderMessages s =
     (case cv_active s of
        Some c \<Rightarrow>
          if \<not> isMessageConversation (cv_active s) \<or> cv_loadingOlder s \<or> \<not> cv_hasOlder s then s
          else (case oldest_message None (cv_messages s) of
                  None \<Rightarrow> s
                | Some m \<Rightarrow> send_request (KOlder (msg_received_at m) (msg_id m)) c (s\<lparr>cv_loadingOlder := True\<rparr>))
      | None \<Rightarrow> s)"

definition older_answer :: "string \<Rightarrow> response \<Rightarrow> conv_state \<Rightarrow> conv_state" where
  "older_answer conversationId r s =
     (let s' =
        (case r of
           Data data \<Rightarrow>
             if cv_fetchingId s \<noteq> Some conversationId then s
             else
               let (pending, withAck) = apply_acks data (cv_pending s);
                   s1 = s\<lparr>cv_pending := pending\<rparr>;
                   merged = appendUniqueMessages (cv_messages s) withAck;
                   s2 = (if 0 < length withAck \<and> merged \<noteq> cv_messages s
                         then syncSeenContent merged (s1\<lparr>cv_messages := merged\<rparr>) else s1)
               in s2\<lparr>cv_hasOlder := (MESSAGE_PAGE_SIZE \<le> length withAck)\<rparr>
         | _ \<Rightarrow> s)
      in s'\<lparr>cv_loadingOlder := False\<rparr>)"

definition fetchNewerMessages :: "conv_state \<Rightarrow> conv_state" where
  "fetchNewerMessages s =
     (case cv_active s of
        Some c \<Rightarrow>
          if \<not> isMessageConversation (cv_active s) \<or> cv_loadingNewer s \<or> \<not> cv_hasNewer s then s
          else (case newest_message None (cv_messages s) of
                  None \<Rightarrow> s
                | Some m \<Rightarrow> send_request (KNewer (msg_received_at m) (msg_id m)) c (s\<lparr>cv_loadingNewer := True\<rparr>))
      | None \<Rightarrow> s)"

text \<open>The conversation the request was sent for is the one the handler closes over.\<close>

definition newer_answer :: "message_type \<Rightarrow> string \<Rightarrow> response \<Rightarrow> conv_state \<Rightarrow> conv_state" where
  "newer_answer typ conversationId r s =
     (let s' =
        (case r of
           Data data \<Rightarrow>
             if cv_fetchingId s \<noteq> Some conversationId then s
             else
               let (pending, withAck) = apply_acks data (cv_pending s);
                   newMessages = filter (\<lambda>m. getMessageContentKey m \<notin> set (cv_seen s)) withAck;
                   s1 = s\<lparr>cv_pending := pending\<rparr>;
                   s2 = (if 0 < length newMessages
                         then s1\<lparr>cv_messages := cv_messages s @ newMessages,
                                 cv_seen := fold js_add (map getMessageContentKey newMessages) (cv_seen s)\<rparr>
                         else s1);
                   still = (MESSAGE_PAGE_SIZE \<le> length withAck);
                   s3 = s2\<lparr>cv_hasNewer := still\<rparr>
               in if \<not> still \<and> cv_pendingReconnect s3
                  then let requestId = cv_latestReconcile s3 + 1 in
                    s3\<lparr>cv_pendingReconnect := False, cv_latestReconcile := requestId,
                       cv_requests := cv_requests s3 @
                         [\<lparr>rq_kind = KReconcile requestId, rq_type = typ, rq_conversation = conversationId\<rparr>]\<rparr>
                  else s3
         | _ \<Rightarrow> s)
      in s'\<lparr>cv_loadingNewer := False\<rparr>)"

definition around_answer :: "string \<Rightarrow> response \<Rightarrow> conv_state \<Rightarrow> conv_state" where
  "around_answer conversationId r s =
     (let s' =
        (case r of
           AroundData data hasOlder hasNewer \<Rightarrow>
             if cv_fetchingId s \<noteq> Some conversationId then s
             else
               let (pending, withAck) = apply_acks data (cv_pending s);
                   s1 = syncSeenContent withAck (s\<lparr>cv_pending := pending, cv_messages := withAck\<rparr>)
               in s1\<lparr>cv_hasOlder := hasOlder, cv_hasNewer := hasNewer\<rparr>
         | _ \<Rightarrow> s)
      in s'\<lparr>cv_messagesLoading := False\<rparr>)"

definition jumpToBottom :: "conv_state \<Rightarrow> conv_state" where
  "jumpToBottom s =
     (case cv_active s of
        None \<Rightarrow> s
      | Some c \<Rightarrow>
          fetchLatestMessages True
            (s\<lparr>cv_hasNewer := False, cv_cache := cache_remove (conv_id c) (cv_cache s)\<rparr>))"

definition reloadCurrentConversation :: "conv_state \<Rightarrow> conv_state" where
  "reloadCurrentConversation s =
     (case cv_active s of
        None \<Rightarrow> s
      | Some c \<Rightarrow>
          if \<not> isMessageConversation (cv_active s) then s
          else s\<lparr>cv_hasNewer := False, cv_cache := cache_remove (conv_id c) (cv_cache s),
                 cv_reload := cv_reload s + 1\<rparr>)"

definition reconcileOnReconnect :: "conv_state \<Rightarrow> conv_state" where
  "reconcileOnReconnect s =
     (case cv_active s of
        None \<Rightarrow> s
      | Some c \<Rightarrow>
          if \<not> isMessageConversation (cv_active s) then s
          else if cv_hasNewer s then s\<lparr>cv_pendingReconnect := True\<rparr>
          else
            let requestId = cv_latestReconcile s + 1 in
            reconcileFromBackend c requestId
              (s\<lparr>cv_pendingReconnect := False, cv_latestReconcile := requestId\<rparr>))"

section \<open>Opening a conversation\<close>

text \<open>
  The effect that runs when the open conversation, the target message or the reload counter
  changes. A message id is never 0, so \<^verbatim>\<open>!targetMessageId\<close> is the absence of a target.
\<close>

definition handed_over :: "conv_state \<Rightarrow> conversation_cache" where
  "handed_over s =
     (case cv_prevId s of
        Some p \<Rightarrow>
          if cv_prevId s \<noteq> map_option conv_id (cv_active s) \<and> p \<noteq> [] \<and> 0 < length (cv_messages s) \<and> \<not> cv_hasNewer s
          then cache_set p \<lparr>ce_messages = cv_messages s, ce_hasOlder = cv_hasOlder s\<rparr> (cv_cache s)
          else cv_cache s
      | None \<Rightarrow> cv_cache s)"

text \<open>The assignments up to the hand-over to the cache.\<close>

definition effect_base :: "conv_state \<Rightarrow> conv_state" where
  "effect_base s =
     (let newId = map_option conv_id (cv_active s) in
      s\<lparr>cv_fetchingId := newId, cv_prevId := newId, cv_prevReload := cv_reload s,
        cv_latestReconcile := 0, cv_pendingReconnect := False, cv_loadingOlder := False, cv_loadingNewer := False,
        cv_hasNewer := (if cv_prevId s \<noteq> newId then False else cv_hasNewer s), cv_cache := handed_over s\<rparr>)"

definition conversation_effect :: "int option \<Rightarrow> conv_state \<Rightarrow> conv_state" where
  "conversation_effect target s =
     (let newId = map_option conv_id (cv_active s);
          conversationChanged = (cv_prevId s \<noteq> newId);
          reloadRequested = (cv_prevReload s \<noteq> cv_reload s)
      in
      if \<not> conversationChanged \<and> target = None \<and> \<not> reloadRequested then
        s\<lparr>cv_fetchingId := newId, cv_prevId := newId, cv_prevReload := cv_reload s,
          cv_latestReconcile := 0, cv_pendingReconnect := False\<rparr>
      else
        let s3 = effect_base s in
        case cv_active s of
          None \<Rightarrow> s3\<lparr>cv_messages := [], cv_hasOlder := False\<rparr>
        | Some c \<Rightarrow>
            if \<not> isMessageConversation (cv_active s) then s3\<lparr>cv_messages := [], cv_hasOlder := False\<rparr>
            else
              (case target of
                 Some t \<Rightarrow>
                   send_request (KAround t) c (s3\<lparr>cv_messagesLoading := True, cv_messages := []\<rparr>)
               | None \<Rightarrow>
                   let (cache', cached) = cache_get (conv_id c) (cv_cache s3); s4 = s3\<lparr>cv_cache := cache'\<rparr> in
                   (case cached of
                      Some e \<Rightarrow>
                        let requestId = cv_latestReconcile s4 + 1 in
                        reconcileFromBackend c requestId
                          (s4\<lparr>cv_messages := ce_messages e,
                              cv_seen := js_set (map getMessageContentKey (ce_messages e)),
                              cv_hasOlder := ce_hasOlder e, cv_messagesLoading := False,
                              cv_latestReconcile := requestId\<rparr>)
                    | None \<Rightarrow> fetchLatestMessages True s4)))"

definition open_conversation :: "conversation option \<Rightarrow> int option \<Rightarrow> conv_state \<Rightarrow> conv_state" where
  "open_conversation conv target s = conversation_effect target (s\<lparr>cv_active := conv\<rparr>)"

section \<open>Live events\<close>

definition appendActiveMessageIfNew :: "message \<Rightarrow> conv_state \<Rightarrow> conv_state \<times> bool" where
  "appendActiveMessageIfNew msg s =
     (let (pending, m) = applyPendingAck msg (cv_pending s);
          s1 = s\<lparr>cv_pending := pending\<rparr>;
          contentKey = getMessageContentKey m
      in
      if contentKey \<in> set (cv_seen s) then (s1, False)
      else
        let seen1 = js_add contentKey (cv_seen s);
            seen2 = (if 1000 < length seen1
                     then js_add contentKey (js_set (map getMessageContentKey (cv_messages s)))
                     else seen1);
            messages' = (if list_ex (\<lambda>x. msg_id x = msg_id m) (cv_messages s) then cv_messages s
                         else cv_messages s @ [m])
        in (s1\<lparr>cv_seen := seen2, cv_messages := messages'\<rparr>, True))"

definition updateMessageAck ::
  "int \<Rightarrow> int \<Rightarrow> message_path list option \<Rightarrow> int option option \<Rightarrow> ack_extras \<Rightarrow> conv_state \<Rightarrow> conv_state" where
  "updateMessageAck messageId ackCount paths packetId extras s =
     (if \<not> list_ex (\<lambda>m. msg_id m = messageId) (cv_messages s)
      then s\<lparr>cv_pending := setPendingAck messageId ackCount paths packetId extras (cv_pending s)\<rparr>
      else s\<lparr>cv_pending := jm_delete messageId (cv_pending s),
             cv_messages := update_first (\<lambda>m. msg_id m = messageId)
               (ack_update ackCount paths packetId extras) (cv_messages s)\<rparr>)"

definition receiveMessageAck ::
  "int \<Rightarrow> int \<Rightarrow> message_path list option \<Rightarrow> int option option \<Rightarrow> ack_extras \<Rightarrow> conv_state \<Rightarrow> conv_state" where
  "receiveMessageAck messageId ackCount paths packetId extras s =
     (let s1 = updateMessageAck messageId ackCount paths packetId extras s in
      s1\<lparr>cv_cache := cache_updateAck messageId ackCount paths packetId extras (cv_cache s1)\<rparr>)"

record observation =
  ob_added :: bool
  ob_activeConversation :: bool

definition observeMessage :: "message \<Rightarrow> conv_state \<Rightarrow> conv_state \<times> observation" where
  "observeMessage msg s =
     (let (pending, m) = applyPendingAck msg (cv_pending s);
          s1 = s\<lparr>cv_pending := pending\<rparr>
      in
      if isActiveConversationMessage (cv_active s) m then
        if cv_hasNewer s then (s1, \<lparr>ob_added = False, ob_activeConversation = True\<rparr>)
        else
          let (s2, added) = appendActiveMessageIfNew m s1 in
          (s2, \<lparr>ob_added = added, ob_activeConversation = True\<rparr>)
      else
        let (cache', added) = cache_addMessage (msg_conversation_key m) m (cv_cache s1) in
        (s1\<lparr>cv_cache := cache'\<rparr>, \<lparr>ob_added = added, ob_activeConversation = False\<rparr>))"

definition renameConversationMessages :: "string \<Rightarrow> string \<Rightarrow> conv_state \<Rightarrow> conv_state" where
  "renameConversationMessages oldId newId s = s\<lparr>cv_cache := cache_rename oldId newId (cv_cache s)\<rparr>"

definition removeConversationMessages :: "string \<Rightarrow> conv_state \<Rightarrow> conv_state" where
  "removeConversationMessages i s = s\<lparr>cv_cache := cache_remove i (cv_cache s)\<rparr>"

definition removeMessage :: "int \<Rightarrow> conv_state \<Rightarrow> conv_state" where
  "removeMessage messageId s =
     s\<lparr>cv_messages := filter (\<lambda>m. msg_id m \<noteq> messageId) (cv_messages s),
       cv_cache := cache_removeMessage messageId (cv_cache s)\<rparr>"

definition clearConversationMessages :: "conv_state \<Rightarrow> conv_state" where
  "clearConversationMessages s = s\<lparr>cv_cache := cache_clear (cv_cache s)\<rparr>"

section \<open>The machine\<close>

datatype conv_event =
    EvOpen "conversation option" "int option"
  | EvReload "int option"
  | EvJumpToBottom
  | EvFetchOlder
  | EvFetchNewer
  | EvReconnect
  | EvResponse request response
  | EvMessage message
  | EvAck int int "message_path list option" "int option option" ack_extras
  | EvRename string string
  | EvRemoveConversation string
  | EvRemoveMessage int
  | EvClear

definition deliver :: "request \<Rightarrow> response \<Rightarrow> conv_state \<Rightarrow> conv_state" where
  "deliver q r s =
     (if q \<notin> set (cv_requests s) then s
      else
        let s1 = s\<lparr>cv_requests := remove1 q (cv_requests s)\<rparr>; conv = rq_conversation q in
        case rq_kind q of
          KLatest showLoading \<Rightarrow> latest_answer conv showLoading r s1
        | KReconcile requestId \<Rightarrow> reconcile_answer conv requestId r s1
        | KOlder _ _ \<Rightarrow> older_answer conv r s1
        | KNewer _ _ \<Rightarrow> newer_answer (rq_type q) conv r s1
        | KAround _ \<Rightarrow> around_answer conv r s1)"

fun conv_step :: "conv_event \<Rightarrow> conv_state \<Rightarrow> conv_state" where
  "conv_step (EvOpen conv target) s = open_conversation conv target s"
| "conv_step (EvReload target) s = conversation_effect target (reloadCurrentConversation s)"
| "conv_step EvJumpToBottom s = jumpToBottom s"
| "conv_step EvFetchOlder s = fetchOlderMessages s"
| "conv_step EvFetchNewer s = fetchNewerMessages s"
| "conv_step EvReconnect s = reconcileOnReconnect s"
| "conv_step (EvResponse q r) s = deliver q r s"
| "conv_step (EvMessage m) s = fst (observeMessage m s)"
| "conv_step (EvAck i n ps pid ex) s = receiveMessageAck i n ps pid ex s"
| "conv_step (EvRename a b) s = renameConversationMessages a b s"
| "conv_step (EvRemoveConversation i) s = removeConversationMessages i s"
| "conv_step (EvRemoveMessage i) s = removeMessage i s"
| "conv_step EvClear s = clearConversationMessages s"

section \<open>The invariant\<close>

text \<open>
  Two things the backend promises are parameters of the invariant. \<open>C\<close> gives the content key of
  every message id: a message keeps its content. \<open>owner\<close> sends the ids under which a
  conversation is known (a key prefix and the full key it was resolved to) to one
  representative.
\<close>

definition msgs_ok :: "(int \<Rightarrow> string) \<Rightarrow> (string \<Rightarrow> string) \<Rightarrow> string \<Rightarrow> message list \<Rightarrow> bool" where
  "msgs_ok C owner i ms \<longleftrightarrow> distinct (map msg_id ms) \<and>
     (\<forall>m \<in> set ms. owner (msg_conversation_key m) = owner i \<and> getMessageContentKey m = C (msg_id m))"

definition cache_owned :: "(int \<Rightarrow> string) \<Rightarrow> (string \<Rightarrow> string) \<Rightarrow> conversation_cache \<Rightarrow> bool" where
  "cache_owned C owner c \<longleftrightarrow> cache_ok c \<and> jm_all (\<lambda>k e. msgs_ok C owner k (ce_messages e)) c"

definition pending_ok :: "(int, pending_ack) jsmap \<Rightarrow> bool" where
  "pending_ok p \<longleftrightarrow> jm_wf p \<and> length p \<le> MAX_PENDING_ACKS"

fun shown_ok :: "(int \<Rightarrow> string) \<Rightarrow> (string \<Rightarrow> string) \<Rightarrow> conversation option \<Rightarrow> message list \<Rightarrow> bool" where
  "shown_ok C owner None ms = (ms = [])"
| "shown_ok C owner (Some c) ms = msgs_ok C owner (conv_id c) ms"

definition screen_ok :: "(int \<Rightarrow> string) \<Rightarrow> (string \<Rightarrow> string) \<Rightarrow> conv_state \<Rightarrow> bool" where
  "screen_ok C owner s \<longleftrightarrow>
     shown_ok C owner (cv_active s) (cv_messages s) \<and>
     getMessageContentKey ` set (cv_messages s) \<subseteq> set (cv_seen s)"

definition conv_ok :: "(int \<Rightarrow> string) \<Rightarrow> (string \<Rightarrow> string) \<Rightarrow> conv_state \<Rightarrow> bool" where
  "conv_ok C owner s \<longleftrightarrow>
     screen_ok C owner s \<and> cache_owned C owner (cv_cache s) \<and> pending_ok (cv_pending s) \<and>
     cv_fetchingId s = map_option conv_id (cv_active s) \<and> cv_prevId s = cv_fetchingId s"

fun promised :: "(int \<Rightarrow> string) \<Rightarrow> (string \<Rightarrow> string) \<Rightarrow> conv_event \<Rightarrow> bool" where
  "promised C owner (EvResponse q (Data ms)) = msgs_ok C owner (rq_conversation q) ms"
| "promised C owner (EvResponse q (AroundData ms _ _)) = msgs_ok C owner (rq_conversation q) ms"
| "promised C owner (EvMessage m) = (getMessageContentKey m = C (msg_id m))"
| "promised C owner (EvRename a b) = (owner a = owner b)"
| "promised C owner _ = True"

subsection \<open>Messages\<close>

definition ident :: "message \<Rightarrow> int \<times> string \<times> string" where
  "ident m = (msg_id m, msg_conversation_key m, getMessageContentKey m)"

lemma msgs_ok_ident: "map ident a = map ident b \<Longrightarrow> msgs_ok C owner i a = msgs_ok C owner i b"
proof -
  assume eq: "map ident a = map ident b"
  have "map msg_id x = map fst (map ident x)" for x by (simp add: ident_def)
  moreover have "(\<forall>m \<in> set x. owner (msg_conversation_key m) = owner i \<and> getMessageContentKey m = C (msg_id m)) \<longleftrightarrow>
      (\<forall>(n, k, t) \<in> set (map ident x). owner k = owner i \<and> t = C n)" for x
    by (auto simp: ident_def)
  ultimately show ?thesis unfolding msgs_ok_def by (metis (no_types, lifting) eq)
qed

lemma msgs_ok_Nil [simp]: "msgs_ok C owner i []"
  by (simp add: msgs_ok_def)

lemma msgs_ok_subset:
  "msgs_ok C owner i ms \<Longrightarrow> set ms' \<subseteq> set ms \<Longrightarrow> distinct (map msg_id ms') \<Longrightarrow> msgs_ok C owner i ms'"
  by (auto simp: msgs_ok_def)

lemma msgs_ok_filter: "msgs_ok C owner i ms \<Longrightarrow> msgs_ok C owner i (filter P ms)"
  by (auto simp: msgs_ok_def distinct_map_filter)

lemma msgs_ok_append:
  "msgs_ok C owner i (a @ b) \<longleftrightarrow>
     msgs_ok C owner i a \<and> msgs_ok C owner i b \<and> msg_id ` set a \<inter> msg_id ` set b = {}"
  by (auto simp: msgs_ok_def)

lemma msgs_ok_normalize: "msgs_ok C owner i ms \<Longrightarrow> msgs_ok C owner i (ce_messages (normalizeEntry ms older))"
  using msgs_ok_subset normalize_subset normalize_distinct by (metis msgs_ok_def)

lemma ident_ack [simp]: "ident (ack_update n ps pid ex m) = ident m"
  by (simp add: ident_def)

lemma ident_with_pending [simp]: "ident (with_pending p m) = ident m"
  by (simp add: ident_def with_pending_def getMessageContentKey_def split: option.split)

lemma ident_apply [simp]: "ident (snd (applyPendingAck m p)) = ident m"
  by (simp add: applyPendingAck_def split: option.split)

lemma ident_apply_acks: "map ident (snd (apply_acks ms p)) = map ident ms"
  by (induction ms arbitrary: p) (auto simp: split_beta Let_def)

lemma msgs_ok_ack_first:
  "msgs_ok C owner i (update_first P (ack_update n ps pid ex) ms) = msgs_ok C owner i ms"
  by (rule msgs_ok_ident) (rule map_update_first, simp)

lemma msgs_ok_apply_acks: "msgs_ok C owner i (snd (apply_acks ms p)) = msgs_ok C owner i ms"
  by (rule msgs_ok_ident) (rule ident_apply_acks)

lemma content_ack_first:
  "getMessageContentKey ` set (update_first P (ack_update n ps pid ex) ms) = getMessageContentKey ` set ms"
  using map_update_first [of P getMessageContentKey "ack_update n ps pid ex" ms]
  by (metis getMessageContentKey_ack set_map)

lemma ident_facts: "ident a = ident b \<Longrightarrow>
   msg_id a = msg_id b \<and> msg_conversation_key a = msg_conversation_key b \<and>
   getMessageContentKey a = getMessageContentKey b"
  by (simp add: ident_def)

lemma msgs_ok_reconcile:
  assumes "msgs_ok C owner i a" and "msgs_ok C owner i b" and "reconcileConversationMessages a b = Some r"
  shows "msgs_ok C owner i r"
proof -
  have "set r \<subseteq> set a \<union> set b" and "distinct (map msg_id r)"
    using reconcile_Some [OF assms(3)] reconcile_ids(1) [OF assms(3)] assms(1,2) by (auto simp: msgs_ok_def)
  then show ?thesis using assms(1,2) by (auto simp: msgs_ok_def)
qed

lemma msgs_ok_appendUnique:
  "msgs_ok C owner i a \<Longrightarrow> msgs_ok C owner i b \<Longrightarrow> msgs_ok C owner i (appendUniqueMessages a b)"
  using appendUnique_subset [of a b] appendUnique_distinct [of a b] by (auto simp: msgs_ok_def)

subsection \<open>Pending acknowledgements\<close>

interpretation pending_lru: lru_store MAX_PENDING_ACKS "lru_put MAX_PENDING_ACKS"
    "jm_get :: (int, pending_ack) jsmap \<Rightarrow> _" jm_keys
  by (rule lru_put_is_lru) (simp add: MAX_PENDING_ACKS_def)

lemma setPendingAck_lru:
  "setPendingAck i n ps pid ex p = lru_put MAX_PENDING_ACKS i (mergePendingAck (jm_get p i) n ps pid ex) p"
  by (simp add: setPendingAck_def lru_put_def)

lemma pending_ok_set [js_inv]: "pending_ok p \<Longrightarrow> pending_ok (setPendingAck i n ps pid ex p)"
  using pending_lru.lru_distinct [of p] pending_lru.lru_bounded [of p]
  by (auto simp: pending_ok_def setPendingAck_lru jm_wf_def)

lemma pending_ok_delete [js_inv]: "pending_ok p \<Longrightarrow> pending_ok (jm_delete i p)"
  using length_jm_delete_le [of i p] by (auto simp: pending_ok_def intro: js_inv)

lemma pending_ok_apply [js_inv]: "pending_ok p \<Longrightarrow> pending_ok (fst (applyPendingAck m p))"
  by (auto simp: applyPendingAck_def intro: js_inv split: option.split)

lemma pending_ok_apply_acks [js_inv]: "pending_ok p \<Longrightarrow> pending_ok (fst (apply_acks ms p))"
  by (induction ms arbitrary: p) (auto simp: split_beta Let_def intro: js_inv)

subsection \<open>The cache\<close>

lemma owned_Nil [js_inv]: "cache_owned C owner []"
  by (simp add: cache_owned_def cache_ok_Nil)

lemma owned_entry: "cache_owned C owner c \<Longrightarrow> jm_get c i = Some e \<Longrightarrow> msgs_ok C owner i (ce_messages e)"
  by (auto simp: cache_owned_def dest: jm_all_get)

lemma owned_set [js_inv]:
  "cache_owned C owner c \<Longrightarrow> msgs_ok C owner i (ce_messages e) \<Longrightarrow> cache_owned C owner (cache_set i e c)"
  unfolding cache_owned_def
  by (intro conjI js_inv) (auto simp: cache_set_def intro!: js_inv msgs_ok_normalize)

lemma owned_get [js_inv]:
  assumes "cache_owned C owner c"
  shows "cache_owned C owner (fst (cache_get i c))"
proof -
  have "jm_all (\<lambda>k e. msgs_ok C owner k (ce_messages e)) (fst (cache_get i c))"
    using assms owned_entry [OF assms]
    by (auto simp: cache_owned_def cache_get_def split: option.split intro!: js_inv)
  then show ?thesis using assms by (auto simp: cache_owned_def intro: js_inv)
qed

lemma owned_add [js_inv]:
  assumes "cache_owned C owner c" and "getMessageContentKey m = C (msg_id m)"
  shows "cache_owned C owner (fst (cache_addMessage (msg_conversation_key m) m c))"
proof -
  have "jm_all (\<lambda>k e. msgs_ok C owner k (ce_messages e)) (fst (cache_addMessage (msg_conversation_key m) m c))"
  proof (cases "jm_get c (msg_conversation_key m)")
    case None
    then show ?thesis
      using assms by (auto simp: cache_addMessage_def Let_def cache_owned_def msgs_ok_def intro!: js_inv)
  next
    case (Some e)
    have "msgs_ok C owner (msg_conversation_key m) (ce_messages e @ [m])"
      if "\<not> list_ex (\<lambda>x. msg_id x = msg_id m) (ce_messages e)"
      using owned_entry [OF assms(1) Some] assms(2) that
      by (auto simp: msgs_ok_append msgs_ok_def [of _ _ _ "[m]"] list_ex_iff image_iff)
    then show ?thesis
      using assms Some
      by (auto simp: cache_addMessage_def Let_def cache_owned_def intro!: js_inv msgs_ok_normalize)
  qed
  then show ?thesis using assms(1) by (auto simp: cache_owned_def intro: js_inv)
qed

lemma owned_updateAck [js_inv]:
  "cache_owned C owner c \<Longrightarrow> cache_owned C owner (cache_updateAck i n ps pid ex c)"
  unfolding cache_owned_def
  by (intro conjI js_inv) (auto simp: cache_updateAck_def msgs_ok_ack_first intro!: jm_all_update_first)

lemma owned_removeMessage [js_inv]:
  "cache_owned C owner c \<Longrightarrow> cache_owned C owner (cache_removeMessage i c)"
  unfolding cache_owned_def
  by (intro conjI js_inv)
    (auto simp: cache_removeMessage_def intro!: jm_all_update_first msgs_ok_normalize msgs_ok_filter)

lemma owned_remove [js_inv]: "cache_owned C owner c \<Longrightarrow> cache_owned C owner (cache_remove i c)"
  by (auto simp: cache_owned_def cache_remove_def intro: js_inv)

lemma msgs_ok_owner: "owner a = owner b \<Longrightarrow> msgs_ok C owner a ms = msgs_ok C owner b ms"
  by (simp add: msgs_ok_def)

lemma msgs_ok_merge:
  "msgs_ok C owner i a \<Longrightarrow> msgs_ok C owner i b \<Longrightarrow> msgs_ok C owner i (merge_by_id a b)"
  using merge_by_id_ids [of a b] by (auto simp: msgs_ok_def)

lemma owned_rename [js_inv]:
  assumes "cache_owned C owner c" and "owner a = owner b"
  shows "cache_owned C owner (cache_rename a b c)"
proof -
  have "jm_all (\<lambda>k e. msgs_ok C owner k (ce_messages e)) (cache_rename a b c)"
    using assms(1) owned_entry [OF assms(1), of a] owned_entry [OF assms(1), of b]
    by (auto simp: cache_rename_def cache_owned_def msgs_ok_owner [of owner a b, OF assms(2)] split: option.split
        intro!: js_inv msgs_ok_normalize msgs_ok_merge)
  then show ?thesis using assms(1) by (auto simp: cache_owned_def intro: js_inv)
qed

subsection \<open>The handlers\<close>

lemma shown_ok_Nil [simp]: "shown_ok C owner a []"
  by (cases a) auto

lemma shown_ok_filter: "shown_ok C owner a ms \<Longrightarrow> shown_ok C owner a (filter P ms)"
  by (cases a) (auto intro: msgs_ok_filter)

lemma shown_ok_ack:
  "shown_ok C owner a (update_first P (ack_update n ps pid ex) ms) = shown_ok C owner a ms"
  by (cases a) (auto simp: msgs_ok_ack_first simp flip: length_0_conv)

lemma conv_ok_frame:
  "conv_ok C owner s \<Longrightarrow> cv_active s' = cv_active s \<Longrightarrow> cv_messages s' = cv_messages s \<Longrightarrow>
     cv_seen s' = cv_seen s \<Longrightarrow> cv_cache s' = cv_cache s \<Longrightarrow> cv_pending s' = cv_pending s \<Longrightarrow>
     cv_fetchingId s' = cv_fetchingId s \<Longrightarrow> cv_prevId s' = cv_prevId s \<Longrightarrow> conv_ok C owner s'"
  by (simp add: conv_ok_def screen_ok_def)

lemma screen_ok_show:
  assumes "conv_ok C owner s" and "cv_active s = Some c" and "msgs_ok C owner (conv_id c) ms"
    and "getMessageContentKey ` set ms \<subseteq> set seen"
  shows "conv_ok C owner (s\<lparr>cv_messages := ms, cv_seen := seen\<rparr>)"
  using assms by (simp add: conv_ok_def screen_ok_def)

lemma conv_ok_screen: "conv_ok C owner s \<Longrightarrow> cv_active s = Some c \<Longrightarrow> msgs_ok C owner (conv_id c) (cv_messages s)"
  by (simp add: conv_ok_def screen_ok_def)

lemma conv_ok_blank: "conv_ok C owner s \<Longrightarrow> conv_ok C owner (s\<lparr>cv_messages := []\<rparr>)"
  by (simp add: conv_ok_def screen_ok_def)

lemma conv_ok_cache: "conv_ok C owner s \<Longrightarrow> cache_owned C owner c \<Longrightarrow> conv_ok C owner (s\<lparr>cv_cache := c\<rparr>)"
  by (simp add: conv_ok_def screen_ok_def)

lemma conv_ok_pending: "conv_ok C owner s \<Longrightarrow> pending_ok p \<Longrightarrow> conv_ok C owner (s\<lparr>cv_pending := p\<rparr>)"
  by (simp add: conv_ok_def screen_ok_def)

lemma conv_ok_send: "conv_ok C owner (send_request k c s) = conv_ok C owner s"
  by (simp add: conv_ok_def screen_ok_def send_request_def)

lemma fetching_active:
  "conv_ok C owner s \<Longrightarrow> cv_fetchingId s = Some i \<Longrightarrow> \<exists>c. cv_active s = Some c \<and> conv_id c = i"
  by (cases "cv_active s") (auto simp: conv_ok_def)

lemma conv_ok_fetchLatest: "conv_ok C owner s \<Longrightarrow> conv_ok C owner (fetchLatestMessages b s)"
  unfolding fetchLatestMessages_def Let_def
  by (auto simp: conv_ok_send split: option.split intro: conv_ok_frame [OF conv_ok_blank] conv_ok_frame)

lemma acks_applied:
  assumes "msgs_ok C owner i data" and "pending_ok p" and "apply_acks data p = (p', w)"
  shows "msgs_ok C owner i w" and "pending_ok p'"
  using assms msgs_ok_apply_acks [of C owner i data p] pending_ok_apply_acks [of p data] by auto

lemma conv_ok_parts:
  assumes "conv_ok C owner s" and "cv_fetchingId s = Some i"
  shows "msgs_ok C owner i (cv_messages s)" and "pending_ok (cv_pending s)"
    and "cache_owned C owner (cv_cache s)"
    and "getMessageContentKey ` set (cv_messages s) \<subseteq> set (cv_seen s)"
proof -
  obtain c where c: "cv_active s = Some c" "conv_id c = i" using fetching_active [OF assms] by blast
  show "msgs_ok C owner i (cv_messages s)" and "pending_ok (cv_pending s)"
    and "cache_owned C owner (cv_cache s)"
    and "getMessageContentKey ` set (cv_messages s) \<subseteq> set (cv_seen s)"
    using assms(1) unfolding conv_ok_def screen_ok_def c(1) by (simp_all add: c(2))
qed

text \<open>Replacing what is shown in the conversation being fetched.\<close>

lemma conv_ok_update:
  assumes "conv_ok C owner s" and "cv_fetchingId s = Some i" and "msgs_ok C owner i (cv_messages s')"
    and "getMessageContentKey ` set (cv_messages s') \<subseteq> set (cv_seen s')" and "pending_ok (cv_pending s')"
    and "cv_active s' = cv_active s" "cv_cache s' = cv_cache s" "cv_fetchingId s' = cv_fetchingId s"
    "cv_prevId s' = cv_prevId s"
  shows "conv_ok C owner s'"
proof -
  obtain c where c: "cv_active s = Some c" "conv_id c = i" using fetching_active [OF assms(1,2)] by blast
  show ?thesis
    using assms(1) unfolding conv_ok_def screen_ok_def assms(6-9) c(1)
    by (simp add: c(2) assms(3-5))
qed

lemma conv_ok_latest:
  assumes ok: "conv_ok C owner s" and r: "\<And>ms. r = Data ms \<Longrightarrow> msgs_ok C owner i ms"
  shows "conv_ok C owner (latest_answer i b r s)"
proof (cases "\<exists>data. r = Data data \<and> cv_fetchingId s = Some i")
  case True
  then obtain data where rd: "r = Data data" and f: "cv_fetchingId s = Some i" by blast
  obtain p w where pw: "apply_acks data (cv_pending s) = (p, w)" by (rule prod.exhaust)
  note parts = conv_ok_parts [OF ok f]
  have w: "msgs_ok C owner i w" and p: "pending_ok p" using acks_applied [OF r [OF rd] parts(2) pw] .
  have "msgs_ok C owner i (coalesce (reconcileConversationMessages (cv_messages s) w) (cv_messages s))"
    using msgs_ok_reconcile [OF parts(1) w] parts(1) by (auto simp: coalesce_def split: option.split)
  then show ?thesis
    using p by (intro conv_ok_update [OF ok f])
      (auto simp: latest_answer_def rd f pw Let_def syncSeenContent_def coalesce_def split: option.split)
next
  case False
  then show ?thesis
    by (intro conv_ok_frame [OF ok]) (auto simp: latest_answer_def Let_def split: response.split)
qed

lemma conv_ok_reconcile:
  assumes ok: "conv_ok C owner s" and r: "\<And>ms. r = Data ms \<Longrightarrow> msgs_ok C owner i ms"
  shows "conv_ok C owner (reconcile_answer i n r s)"
proof (cases "\<exists>data. r = Data data \<and> cv_fetchingId s = Some i \<and> cv_latestReconcile s = n")
  case True
  then obtain data where rd: "r = Data data" and f: "cv_fetchingId s = Some i" and n: "cv_latestReconcile s = n"
    by blast
  obtain p w where pw: "apply_acks data (cv_pending s) = (p, w)" by (rule prod.exhaust)
  note parts = conv_ok_parts [OF ok f]
  have w: "msgs_ok C owner i w" and p: "pending_ok p" using acks_applied [OF r [OF rd] parts(2) pw] .
  show ?thesis
    using p parts msgs_ok_reconcile [OF parts(1) w] by (intro conv_ok_update [OF ok f])
      (auto simp: reconcile_answer_def rd f n pw Let_def syncSeenContent_def split: option.split)
next
  case False
  then show ?thesis
    by (intro conv_ok_frame [OF ok]) (auto simp: reconcile_answer_def Let_def split: response.split)
qed

lemma conv_ok_older:
  assumes ok: "conv_ok C owner s" and r: "\<And>ms. r = Data ms \<Longrightarrow> msgs_ok C owner i ms"
  shows "conv_ok C owner (older_answer i r s)"
proof (cases "\<exists>data. r = Data data \<and> cv_fetchingId s = Some i")
  case True
  then obtain data where rd: "r = Data data" and f: "cv_fetchingId s = Some i" by blast
  obtain p w where pw: "apply_acks data (cv_pending s) = (p, w)" by (rule prod.exhaust)
  note parts = conv_ok_parts [OF ok f]
  have w: "msgs_ok C owner i w" and p: "pending_ok p" using acks_applied [OF r [OF rd] parts(2) pw] .
  show ?thesis
    using p parts msgs_ok_appendUnique [OF parts(1) w] by (intro conv_ok_update [OF ok f])
      (auto simp: older_answer_def rd f pw Let_def syncSeenContent_def)
next
  case False
  then show ?thesis
    by (intro conv_ok_frame [OF ok]) (auto simp: older_answer_def Let_def split: response.split)
qed

text \<open>A message whose content was not seen is not on screen, because content belongs to the id.\<close>

lemma msgs_ok_unseen:
  assumes "msgs_ok C owner i a" and "msgs_ok C owner i b" and "getMessageContentKey ` set a \<subseteq> set seen"
  shows "msgs_ok C owner i (a @ filter (\<lambda>m. getMessageContentKey m \<notin> set seen) b)"
proof -
  have False if "x \<in> set a" "y \<in> set b" "msg_id x = msg_id y" "getMessageContentKey y \<notin> set seen" for x y
    using that assms by (metis image_subset_iff msgs_ok_def)
  then show ?thesis using assms(1) msgs_ok_filter [OF assms(2)] unfolding msgs_ok_append by auto
qed

lemma conv_ok_newer:
  assumes ok: "conv_ok C owner s" and r: "\<And>ms. r = Data ms \<Longrightarrow> msgs_ok C owner i ms"
  shows "conv_ok C owner (newer_answer t i r s)"
proof (cases "\<exists>data. r = Data data \<and> cv_fetchingId s = Some i")
  case True
  then obtain data where rd: "r = Data data" and f: "cv_fetchingId s = Some i" by blast
  obtain p w where pw: "apply_acks data (cv_pending s) = (p, w)" by (rule prod.exhaust)
  note parts = conv_ok_parts [OF ok f]
  have w: "msgs_ok C owner i w" and p: "pending_ok p" using acks_applied [OF r [OF rd] parts(2) pw] .
  show ?thesis
    using p parts msgs_ok_unseen [OF parts(1) w parts(4)] by (intro conv_ok_update [OF ok f])
      (auto simp: newer_answer_def rd f pw Let_def)
next
  case False
  then show ?thesis
    by (intro conv_ok_frame [OF ok]) (auto simp: newer_answer_def Let_def split: response.split)
qed

lemma conv_ok_around:
  assumes ok: "conv_ok C owner s" and r: "\<And>ms a b. r = AroundData ms a b \<Longrightarrow> msgs_ok C owner i ms"
  shows "conv_ok C owner (around_answer i r s)"
proof (cases "\<exists>data a b. r = AroundData data a b \<and> cv_fetchingId s = Some i")
  case True
  then obtain data a b where rd: "r = AroundData data a b" and f: "cv_fetchingId s = Some i" by blast
  obtain p w where pw: "apply_acks data (cv_pending s) = (p, w)" by (rule prod.exhaust)
  note parts = conv_ok_parts [OF ok f]
  have w: "msgs_ok C owner i w" and p: "pending_ok p" using acks_applied [OF r [OF rd] parts(2) pw] .
  then show ?thesis
    by (intro conv_ok_update [OF ok f])
      (auto simp: around_answer_def rd f pw Let_def syncSeenContent_def)
next
  case False
  then show ?thesis
    by (intro conv_ok_frame [OF ok]) (auto simp: around_answer_def Let_def split: response.split)
qed

lemma conv_ok_deliver:
  assumes "conv_ok C owner s" and "promised C owner (EvResponse q r)"
  shows "conv_ok C owner (deliver q r s)"
proof -
  have ok: "conv_ok C owner (s\<lparr>cv_requests := x\<rparr>)" for x
    using assms(1) by (simp add: conv_ok_def screen_ok_def)
  have d: "\<And>ms. r = Data ms \<Longrightarrow> msgs_ok C owner (rq_conversation q) ms"
    and a: "\<And>ms x y. r = AroundData ms x y \<Longrightarrow> msgs_ok C owner (rq_conversation q) ms"
    using assms(2) by auto
  show ?thesis
  proof (cases "q \<in> set (cv_requests s)")
    case True
    then show ?thesis
      by (cases "rq_kind q")
        (simp_all add: deliver_def Let_def conv_ok_latest conv_ok_reconcile conv_ok_older conv_ok_newer
          conv_ok_around ok d a)
  qed (simp add: deliver_def assms(1))
qed

fun prev_ok :: "(int \<Rightarrow> string) \<Rightarrow> (string \<Rightarrow> string) \<Rightarrow> string option \<Rightarrow> message list \<Rightarrow> bool" where
  "prev_ok C owner None ms = (ms = [])"
| "prev_ok C owner (Some p) ms = msgs_ok C owner p ms"

lemma prev_ok_shown: "prev_ok C owner (map_option conv_id a) ms = shown_ok C owner a ms"
  by (cases a) auto

text \<open>What the effect finds: the screen still shows the conversation that was open before.\<close>

definition before_effect :: "(int \<Rightarrow> string) \<Rightarrow> (string \<Rightarrow> string) \<Rightarrow> conv_state \<Rightarrow> bool" where
  "before_effect C owner s \<longleftrightarrow> prev_ok C owner (cv_prevId s) (cv_messages s) \<and>
     getMessageContentKey ` set (cv_messages s) \<subseteq> set (cv_seen s) \<and>
     cache_owned C owner (cv_cache s) \<and> pending_ok (cv_pending s)"

lemma conv_ok_before: "conv_ok C owner s \<Longrightarrow> before_effect C owner (s\<lparr>cv_active := a\<rparr>)"
  unfolding conv_ok_def screen_ok_def before_effect_def by (simp add: prev_ok_shown)

lemma owned_handed_over: "before_effect C owner s \<Longrightarrow> cache_owned C owner (cv_cache (effect_base s))"
  by (cases "cv_prevId s") (auto simp: before_effect_def effect_base_def handed_over_def Let_def intro: js_inv)

lemma effect_base_ok: "before_effect C owner s \<Longrightarrow> conv_ok C owner (effect_base s\<lparr>cv_messages := []\<rparr>)"
  using owned_handed_over [of C owner s]
  by (auto simp: before_effect_def conv_ok_def screen_ok_def effect_base_def Let_def)

lemma cache_get_snd: "snd (cache_get i c) = Some e \<Longrightarrow> \<exists>x. jm_get c i = Some x \<and> e = public_entry x"
  by (auto simp: cache_get_def split: option.splits)

lemma conv_ok_effect:
  assumes "before_effect C owner s"
  shows "conv_ok C owner (conversation_effect target s)"
proof (cases "cv_prevId s \<noteq> map_option conv_id (cv_active s) \<or> target \<noteq> None \<or> cv_prevReload s \<noteq> cv_reload s")
  case False
  then have same: "cv_prevId s = map_option conv_id (cv_active s)" by blast
  have "conversation_effect target s =
      s\<lparr>cv_fetchingId := cv_prevId s, cv_prevId := cv_prevId s, cv_prevReload := cv_reload s,
        cv_latestReconcile := 0, cv_pendingReconnect := False\<rparr>"
    using False by (simp add: conversation_effect_def Let_def)
  then show ?thesis
    using assms unfolding before_effect_def conv_ok_def screen_ok_def same prev_ok_shown by simp
next
  case True
  note blank = effect_base_ok [OF assms]
  note owned = owned_handed_over [OF assms]
  have shown: "conv_ok C owner (effect_base s\<lparr>cv_cache := fst (cache_get i (cv_cache (effect_base s))),
      cv_messages := ms, cv_seen := js_set (map getMessageContentKey ms),
      cv_hasOlder := older, cv_messagesLoading := False, cv_latestReconcile := n\<rparr>)"
    if "cv_active s = Some c" "msgs_ok C owner (conv_id c) ms" for i ms older c n
    using blank that owned_get [OF owned, of i] by (simp add: conv_ok_def screen_ok_def effect_base_def Let_def)
  have latest: "conv_ok C owner
      (fetchLatestMessages True (effect_base s\<lparr>cv_cache := fst (cache_get i (cv_cache (effect_base s)))\<rparr>))"
    if "cv_active s = Some c" "isMessageConversation (Some c)" for i c
    using blank owned_get [OF owned, of i] that
    by (simp add: fetchLatestMessages_def effect_base_def Let_def send_request_def conv_ok_def screen_ok_def)
  have cached: "msgs_ok C owner i (ce_messages e)" if "snd (cache_get i (cv_cache (effect_base s))) = Some e"
    for i e
    using cache_get_snd [OF that] owned_entry [OF owned] by (auto simp: public_entry_def)
  have changed: "\<not> (\<not> cv_prevId s \<noteq> map_option conv_id (cv_active s) \<and> target = None \<and>
      \<not> cv_prevReload s \<noteq> cv_reload s)" using True by blast
  show ?thesis
    unfolding conversation_effect_def Let_def reconcileFromBackend_def if_not_P [OF changed] split_beta
    using conv_ok_frame [OF blank] latest shown cached
    by (auto simp: conv_ok_send split: option.split)
qed

lemma conv_ok_open: "conv_ok C owner s \<Longrightarrow> conv_ok C owner (open_conversation conv target s)"
  unfolding open_conversation_def by (intro conv_ok_effect conv_ok_before)

lemma conv_ok_reload: "conv_ok C owner s \<Longrightarrow> conv_ok C owner (reloadCurrentConversation s)"
  unfolding conv_ok_def screen_ok_def
  by (auto simp: reloadCurrentConversation_def intro: js_inv split: option.split)

lemma conv_ok_jump:
  assumes "conv_ok C owner s"
  shows "conv_ok C owner (jumpToBottom s)"
proof -
  have "conv_ok C owner (s\<lparr>cv_hasNewer := False, cv_cache := cache_remove i (cv_cache s)\<rparr>)" for i
    using assms owned_remove by (simp add: conv_ok_def screen_ok_def)
  then show ?thesis
    using assms by (auto simp: jumpToBottom_def intro: conv_ok_fetchLatest split: option.split)
qed

lemma conv_ok_append:
  assumes ok: "conv_ok C owner s" and c: "cv_active s = Some c" "msg_conversation_key m = conv_id c"
    and k: "getMessageContentKey m = C (msg_id m)"
  shows "conv_ok C owner (fst (appendActiveMessageIfNew m s))"
proof -
  obtain p m' where pm: "applyPendingAck m (cv_pending s) = (p, m')" by (rule prod.exhaust)
  have id: "msg_id m' = msg_id m" "msg_conversation_key m' = msg_conversation_key m"
    "getMessageContentKey m' = getMessageContentKey m"
    using ident_facts [of m' m] ident_apply [of m "cv_pending s"] pm by auto
  have f: "cv_fetchingId s = Some (conv_id c)" using ok c by (simp add: conv_ok_def)
  note parts = conv_ok_parts [OF ok f]
  have p: "pending_ok p" using pending_ok_apply [OF parts(2), of m] pm by simp
  have "msgs_ok C owner (conv_id c) (cv_messages s @ [m'])"
    if "\<not> list_ex (\<lambda>x. msg_id x = msg_id m') (cv_messages s)"
    using that parts(1) id c(2) k
    by (auto simp: msgs_ok_append msgs_ok_def [of _ _ _ "[m']"] list_ex_iff image_iff)
  then show ?thesis
    using parts p by (intro conv_ok_update [OF ok f]) (auto simp: appendActiveMessageIfNew_def pm Let_def)
qed

lemma active_message:
  "isActiveConversationMessage a m \<Longrightarrow> \<exists>c. a = Some c \<and> msg_conversation_key m = conv_id c"
  by (auto simp: isActiveConversationMessage_def split: option.splits if_splits)

lemma conv_ok_observe:
  assumes ok: "conv_ok C owner s" and k: "getMessageContentKey m = C (msg_id m)"
  shows "conv_ok C owner (fst (observeMessage m s))"
proof -
  obtain p m' where pm: "applyPendingAck m (cv_pending s) = (p, m')" by (rule prod.exhaust)
  have id: "getMessageContentKey m' = C (msg_id m')"
    using k ident_facts [of m' m] ident_apply [of m "cv_pending s"] pm by auto
  have owned: "cache_owned C owner (cv_cache s)" using ok by (simp add: conv_ok_def)
  have "pending_ok p" using ok pending_ok_apply [of "cv_pending s" m] pm by (simp add: conv_ok_def)
  then have ok1: "conv_ok C owner (s\<lparr>cv_pending := p\<rparr>)" using ok by (intro conv_ok_pending)
  show ?thesis
  proof (cases "isActiveConversationMessage (cv_active s) m'")
    case True
    then obtain c where "cv_active s = Some c" "msg_conversation_key m' = conv_id c"
      using active_message by blast
    then show ?thesis
      using True ok1 conv_ok_append [OF ok1, of c m'] id
      by (simp add: observeMessage_def pm Let_def split_beta)
  next
    case False
    then show ?thesis
      using conv_ok_cache [OF ok1 owned_add [OF owned id]]
      by (simp add: observeMessage_def pm Let_def split_beta)
  qed
qed

lemma conv_ok_ack: "conv_ok C owner s \<Longrightarrow> conv_ok C owner (receiveMessageAck i n ps pid ex s)"
  unfolding conv_ok_def screen_ok_def receiveMessageAck_def updateMessageAck_def Let_def
  by (auto simp: shown_ok_ack content_ack_first intro: js_inv)

lemma conv_ok_removeMessage: "conv_ok C owner s \<Longrightarrow> conv_ok C owner (removeMessage i s)"
  unfolding conv_ok_def screen_ok_def removeMessage_def by (auto intro: js_inv shown_ok_filter)

lemma conv_ok_fetchers:
  "conv_ok C owner s \<Longrightarrow> conv_ok C owner (fetchOlderMessages s)"
  "conv_ok C owner s \<Longrightarrow> conv_ok C owner (fetchNewerMessages s)"
  "conv_ok C owner s \<Longrightarrow> conv_ok C owner (reconcileOnReconnect s)"
  by (auto simp: fetchOlderMessages_def fetchNewerMessages_def reconcileOnReconnect_def
      reconcileFromBackend_def conv_ok_send Let_def split: option.split intro: conv_ok_frame)

lemma conv_step_ok: "conv_ok C owner s \<Longrightarrow> promised C owner e \<Longrightarrow> conv_ok C owner (conv_step e s)"
proof (cases e)
  case (EvReload t)
  assume "conv_ok C owner s"
  then have ok: "conv_ok C owner (reloadCurrentConversation s)" by (rule conv_ok_reload)
  then have "before_effect C owner (reloadCurrentConversation s)"
    using conv_ok_before [OF ok, of "cv_active (reloadCurrentConversation s)"] by simp
  then show ?thesis unfolding EvReload by (simp add: conv_ok_effect)
qed (simp_all add: conv_ok_open conv_ok_jump conv_ok_fetchers conv_ok_deliver conv_ok_observe conv_ok_ack
      conv_ok_removeMessage conv_ok_cache renameConversationMessages_def removeConversationMessages_def
      clearConversationMessages_def cache_clear_def owned_Nil owned_rename owned_remove conv_ok_def [of _ _ s])

interpretation conv_machine: event_machine conv_step "conv_ok C owner" "promised C owner" for C owner
  by unfold_locales (rule conv_step_ok)

lemma conv_ok_init: "conv_ok C owner conv_init"
  by (simp add: conv_ok_def screen_ok_def conv_init_def owned_Nil pending_ok_def)

lemma active_cong:
  "msg_type a = msg_type b \<Longrightarrow> msg_conversation_key a = msg_conversation_key b \<Longrightarrow>
     isActiveConversationMessage c a = isActiveConversationMessage c b"
  by (cases c) (auto simp: isActiveConversationMessage_def)

lemma type_apply: "msg_type (snd (applyPendingAck m p)) = msg_type m"
  by (simp add: applyPendingAck_def with_pending_def split: option.split)

section \<open>Properties\<close>


definition sample_conversation :: "string \<Rightarrow> conversation" where
  "sample_conversation i = \<lparr>conv_type = ConvContact, conv_id = i, conv_name = i, conv_mapFocusKey = None,
     conv_locateKey = None\<rparr>"

definition sample_request :: request where
  "sample_request = \<lparr>rq_kind = KLatest True, rq_type = PRIV, rq_conversation = ''a''\<rparr>"





lemma cache_set_existing:
  assumes "cache_ok c" and "b \<in> set (jm_keys c)" and "i \<noteq> b"
  shows "jm_get (cache_set b e c) i = jm_get c i"
proof -
  have "length (jm_set b x (jm_delete b c)) \<le> MAX_CACHED_CONVERSATIONS" for x
    using assms(1) length_jm_replace [OF assms(2), of b x] by (simp add: cache_ok_def)
  then show ?thesis using assms(3) by (simp add: cache_set_def evict_oldest_id js_map_simps)
qed

text \<open>Leaving a conversation puts it into the cache.\<close>

lemma leave_caches:
  assumes prev: "cv_prevId s = Some i" and ok: "cache_ok (cv_cache s)" and ms: "cv_messages s \<noteq> []" "\<not> cv_hasNewer s"
    and i: "i \<noteq> []" and b: "conv_id b \<noteq> i"
  shows "let s1 = open_conversation (Some b) None s in
     cv_prevId s1 = Some (conv_id b) \<and>
     jm_get (cv_cache s1) i = Some (normalizeEntry (cv_messages s) (cv_hasOlder s)) \<and> cache_ok (cv_cache s1) \<and>
     (cv_messages s1 = [] \<or> conv_id b \<in> set (jm_keys (cv_cache s1)))"
proof -
  define t where "t = s\<lparr>cv_active := Some b\<rparr>"
  define H where "H = cache_set i \<lparr>ce_messages = cv_messages s, ce_hasOlder = cv_hasOlder s\<rparr> (cv_cache s)"
  have H: "handed_over t = H"
    using prev ms i b by (simp add: handed_over_def t_def H_def)
  have "distinct (jm_keys (cv_cache s))" using ok by (simp add: cache_ok_def jm_wf_def)
  then have getH: "jm_get H i = Some (normalizeEntry (cv_messages s) (cv_hasOlder s))"
    unfolding H_def cache_set_lru by (simp add: cache_lru.lru_get_self)
  have okH: "cache_ok H" unfolding H_def by (intro js_inv ok)
  have get_fst: "jm_get (fst (cache_get j H)) k = jm_get H k" for j k
    by (simp add: cache_get_def js_map_simps split: option.split)
  have hit: "conv_id b \<in> set (jm_keys (fst (cache_get (conv_id b) H)))"
    if "snd (cache_get (conv_id b) H) = Some e" for e
    using cache_get_snd [OF that] get_fst [of "conv_id b" "conv_id b"] by (auto dest: jm.get_SomeD)
  have "cv_prevId t \<noteq> map_option conv_id (cv_active t)" using prev b by (simp add: t_def)
  then show ?thesis
    using getH okH get_fst cache_ok_get [OF okH] hit
    unfolding open_conversation_def t_def [symmetric] Let_def
    by (auto simp: conversation_effect_def Let_def effect_base_def H [unfolded t_def] split_beta
        reconcileFromBackend_def send_request_def fetchLatestMessages_def t_def split: option.split)
qed

lemma opened_sample:
  "open_conversation (Some (sample_conversation ''a'')) None conv_init =
     conv_init\<lparr>cv_active := Some (sample_conversation ''a''), cv_fetchingId := Some ''a'', cv_prevId := Some ''a'',
       cv_messagesLoading := True, cv_requests := [sample_request]\<rparr>"
  by (simp add: open_conversation_def conversation_effect_def effect_base_def handed_over_def cache_get_def
      isMessageConversation_def fetchLatestMessages_def send_request_def request_type_def conv_init_def
      sample_conversation_def sample_request_def Let_def)



definition sample_state :: conv_state where
  "sample_state = fst (observeMessage (sample_message 1 ''a'' 5)
     (open_conversation (Some (sample_conversation ''a'')) None conv_init))"

lemma sample_state_simps:
  "cv_active sample_state = Some (sample_conversation ''a'')" "\<not> cv_hasNewer sample_state"
  "cv_messages sample_state = [sample_message 1 ''a'' 5]"
  by (simp_all add: sample_state_def opened_sample, simp_all add: observeMessage_def applyPendingAck_def
      appendActiveMessageIfNew_def conv_init_def isActiveConversationMessage_def sample_conversation_def
      sample_message_def Let_def)


text \<open>Older than: received earlier, or in the same second with a smaller id.\<close>

definition older_than :: "message \<Rightarrow> message \<Rightarrow> bool" where
  "older_than m x \<longleftrightarrow> msg_received_at m < msg_received_at x \<or>
     msg_received_at m = msg_received_at x \<and> msg_id m \<le> msg_id x"

lemma oldest_message_least:
  "oldest_message acc ms = Some m \<Longrightarrow>
     (m \<in> set ms \<or> acc = Some m) \<and> (\<forall>x \<in> set ms \<union> set_option acc. older_than m x)"
proof (induction acc ms rule: oldest_message.induct)
  case (2 acc x ms)
  then show ?case
    by (cases acc) (auto simp: older_than_def split: if_splits)
qed (auto simp: older_than_def)

lemma newest_message_greatest:
  "newest_message acc ms = Some m \<Longrightarrow>
     (m \<in> set ms \<or> acc = Some m) \<and> (\<forall>x \<in> set ms \<union> set_option acc. older_than x m)"
proof (induction acc ms rule: newest_message.induct)
  case (2 acc x ms)
  then show ?case
    by (cases acc) (auto simp: older_than_def split: if_splits)
qed (auto simp: older_than_def)

lemma page_cursor_none: "oldest_message (Some a) ms \<noteq> None" "newest_message (Some a) ms \<noteq> None"
  by (induction ms arbitrary: a) (auto split: option.splits)

text \<open>
  Paging asks for what is not there yet. A request for older messages that is sent names the
  oldest message on screen (the smallest time, then the smallest id), a request for newer ones the
  newest; none is sent while another is under way, when nothing more exists, or for a view
  without messages, and in that case the state does not change.
\<close>

theorem paging_cursor:
  "(fetchOlderMessages s = s \<or>
     (\<exists>c m. cv_active s = Some c \<and> isMessageConversation (Some c) \<and> cv_loadingOlder s = False \<and> cv_hasOlder s \<and>
        m \<in> set (cv_messages s) \<and> list_all (older_than m) (cv_messages s) \<and>
        fetchOlderMessages s =
          send_request (KOlder (msg_received_at m) (msg_id m)) c (s\<lparr>cv_loadingOlder := True\<rparr>))) \<and>
   (fetchNewerMessages s = s \<or>
     (\<exists>c m. cv_active s = Some c \<and> isMessageConversation (Some c) \<and> cv_loadingNewer s = False \<and> cv_hasNewer s \<and>
        m \<in> set (cv_messages s) \<and> list_all (\<lambda>x. older_than x m) (cv_messages s) \<and>
        fetchNewerMessages s =
          send_request (KNewer (msg_received_at m) (msg_id m)) c (s\<lparr>cv_loadingNewer := True\<rparr>)))"
proof (cases "cv_active s")
  case None
  then show ?thesis by (simp add: fetchOlderMessages_def fetchNewerMessages_def)
next
  case (Some c)
  have "fetchOlderMessages s = s \<or> (\<exists>m. oldest_message None (cv_messages s) = Some m \<and>
      isMessageConversation (Some c) \<and> \<not> cv_loadingOlder s \<and> cv_hasOlder s \<and>
      fetchOlderMessages s = send_request (KOlder (msg_received_at m) (msg_id m)) c (s\<lparr>cv_loadingOlder := True\<rparr>))"
    using Some by (auto simp: fetchOlderMessages_def split: option.split)
  moreover have "fetchNewerMessages s = s \<or> (\<exists>m. newest_message None (cv_messages s) = Some m \<and>
      isMessageConversation (Some c) \<and> \<not> cv_loadingNewer s \<and> cv_hasNewer s \<and>
      fetchNewerMessages s = send_request (KNewer (msg_received_at m) (msg_id m)) c (s\<lparr>cv_loadingNewer := True\<rparr>))"
    using Some by (auto simp: fetchNewerMessages_def split: option.split)
  ultimately show ?thesis
    using Some oldest_message_least [of None "cv_messages s"] newest_message_greatest [of None "cv_messages s"]
    by (auto simp: list_all_iff)
qed

text \<open>
  A new message of the open conversation is shown. Observing it removes nothing from the
  screen; if it is reported as added, it is on screen afterwards, and if not, the conversation is
  scrolled into the past or its content was already seen. A message of another conversation leaves
  the screen alone.
\<close>

theorem observed_message_shown:
  "case observeMessage m s of (s', ob) \<Rightarrow>
     (if isActiveConversationMessage (cv_active s) m
      then ob_activeConversation ob \<and> (\<exists>x. cv_messages s' = cv_messages s @ x) \<and>
        (if ob_added ob then msg_id m \<in> msg_id ` set (cv_messages s')
         else cv_messages s' = cv_messages s \<and>
           (if cv_hasNewer s then True else getMessageContentKey m \<in> set (cv_seen s)))
      else \<not> ob_activeConversation ob \<and> cv_messages s' = cv_messages s)"
proof -
  obtain p m' where pm: "applyPendingAck m (cv_pending s) = (p, m')" by (rule prod.exhaust)
  obtain p2 m2 where pm2: "applyPendingAck m' p = (p2, m2)" by (rule prod.exhaust)
  have i: "ident m' = ident m" "ident m2 = ident m"
    using ident_apply [of m "cv_pending s"] ident_apply [of m' p] pm pm2 by auto
  have "isActiveConversationMessage (cv_active s) m' = isActiveConversationMessage (cv_active s) m"
    using type_apply [of m "cv_pending s"] ident_facts [OF i(1)] pm by (intro active_cong) auto
  then show ?thesis
    using ident_facts [OF i(2)]
    by (auto simp: observeMessage_def appendActiveMessageIfNew_def pm pm2 Let_def split_beta list_ex_iff
        intro: rev_image_eqI)
qed

end
