(* ===== verification/Unread.thy ===== *)
theory Unread
  imports MeshTypes
begin

text \<open>
  Unread counts, mentions, the unread boundary and the last-message times of the sidebar:
  \<^verbatim>\<open>hooks/useUnreadCounts.ts\<close> and the in-memory half of \<^verbatim>\<open>utils/conversationState.ts\<close>.
  A JavaScript object used as a dictionary is a map. Calls to the server that mark a conversation
  as read are recorded in the order they are made; nothing else is done with their answers.
\<close>

section \<open>Conversation times\<close>

type_synonym conversation_times = "string \<rightharpoonup> int"

datatype tracked_type = TrackedChannel | TrackedContact

definition getStateKey :: "tracked_type \<Rightarrow> string \<Rightarrow> string" where
  "getStateKey t i = (case t of TrackedChannel \<Rightarrow> ''channel'' | TrackedContact \<Rightarrow> ''contact'') @ ''-'' @ i"

definition initLastMessageTimes :: "conversation_times \<Rightarrow> conversation_times" where
  "initLastMessageTimes serverTimes = serverTimes"

definition setLastMessageTime :: "string \<Rightarrow> int \<Rightarrow> conversation_times \<Rightarrow> conversation_times" where
  "setLastMessageTime key timestamp cache = cache(key \<mapsto> timestamp)"

definition renameConversationTimeKey :: "string \<Rightarrow> string \<Rightarrow> conversation_times \<Rightarrow> conversation_times" where
  "renameConversationTimeKey oldKey newKey cache =
     (if oldKey = newKey then cache
      else case cache oldKey of
        None \<Rightarrow> cache
      | Some old \<Rightarrow>
          (cache(newKey \<mapsto> (case cache newKey of None \<Rightarrow> old | Some new \<Rightarrow> max new old)))(oldKey := None))"

section \<open>State\<close>

datatype mark_call = MarkChannelRead string | MarkContactRead string | MarkAllRead

record unread_state =
  un_active :: "conversation option"
  un_counts :: "string \<rightharpoonup> int"
  un_mentions :: "string \<rightharpoonup> bool"
  un_timesCache :: conversation_times
  un_times :: conversation_times
  un_previews :: "string \<rightharpoonup> string"
  un_outgoing :: "string \<rightharpoonup> bool"
  un_lastReadAts :: "string \<rightharpoonup> int option"
  un_firstUnread :: "string \<rightharpoonup> int option"
  un_calls :: "mark_call list"

definition unread_init :: unread_state where
  "unread_init =
     \<lparr>un_active = None, un_counts = Map.empty, un_mentions = Map.empty, un_timesCache = Map.empty,
      un_times = Map.empty, un_previews = Map.empty, un_outgoing = Map.empty, un_lastReadAts = Map.empty,
      un_firstUnread = Map.empty, un_calls = []\<rparr>"

definition PREVIEW_MAX_LEN :: nat where "PREVIEW_MAX_LEN = 120"

text \<open>The state key of a conversation whose unread messages are tracked.\<close>

definition trackedKey :: "conversation option \<Rightarrow> string option" where
  "trackedKey conv =
     (case conv of
        None \<Rightarrow> None
      | Some c \<Rightarrow>
          (case conv_type c of
             ConvChannel \<Rightarrow> Some (getStateKey TrackedChannel (conv_id c))
           | ConvContact \<Rightarrow> Some (getStateKey TrackedContact (conv_id c))
           | _ \<Rightarrow> None))"

section \<open>Operations\<close>

definition applyUnreads :: "unread_counts \<Rightarrow> unread_state \<Rightarrow> unread_state" where
  "applyUnreads data s =
     (let counts = (case trackedKey (un_active s) of Some k \<Rightarrow> (uc_counts data)(k := None) | None \<Rightarrow> uc_counts data);
          mentions = (case trackedKey (un_active s) of Some k \<Rightarrow> (uc_mentions data)(k := None) | None \<Rightarrow> uc_mentions data);
          s1 = s\<lparr>un_counts := counts, un_mentions := mentions, un_lastReadAts := uc_last_read_ats data,
                 un_firstUnread := uc_first_unread_ids data\<rparr>;
          s2 = (if 0 < length (uc_last_message_times data)
                then let cache = fold (\<lambda>(k, ts) c. setLastMessageTime k ts c) (uc_last_message_times data) (un_timesCache s1)
                     in s1\<lparr>un_timesCache := cache, un_times := cache\<rparr>
                else s1)
      in s2\<lparr>un_previews := un_previews s2 ++ uc_last_message_previews data,
            un_outgoing := un_outgoing s2 ++ uc_last_message_outgoing data\<rparr>)"

definition mark_active_read :: "unread_state \<Rightarrow> unread_state" where
  "mark_active_read s =
     (case un_active s of
        None \<Rightarrow> s
      | Some c \<Rightarrow>
          (case conv_type c of
             ConvChannel \<Rightarrow> s\<lparr>un_calls := un_calls s @ [MarkChannelRead (conv_id c)]\<rparr>
           | ConvContact \<Rightarrow> s\<lparr>un_calls := un_calls s @ [MarkContactRead (conv_id c)]\<rparr>
           | _ \<Rightarrow> s))"

text \<open>The answer of the server, or its failure, reaches \<open>fetchUnreads\<close> as an option.\<close>

definition fetchUnreads :: "unread_counts option \<Rightarrow> unread_state \<Rightarrow> unread_state" where
  "fetchUnreads answer s =
     mark_active_read (case answer of Some data \<Rightarrow> applyUnreads data s | None \<Rightarrow> s)"

text \<open>
  Opening a conversation, which is always a new object: the clearing during render and the effect
  that tells the server.
\<close>

definition open_tracked :: "conversation option \<Rightarrow> unread_state \<Rightarrow> unread_state" where
  "open_tracked conv s =
     (let s1 = s\<lparr>un_active := conv\<rparr>;
          s2 = (case trackedKey conv of
                  None \<Rightarrow> s1
                | Some key \<Rightarrow>
                    s1\<lparr>un_counts :=
                         (case un_counts s key of
                            Some n \<Rightarrow> if n \<noteq> 0 then (un_counts s)(key := None) else un_counts s
                          | None \<Rightarrow> un_counts s),
                       un_mentions :=
                         (if un_mentions s key = Some True then (un_mentions s)(key := None) else un_mentions s)\<rparr>)
      in mark_active_read s2)"

definition incrementUnread :: "string \<Rightarrow> int \<Rightarrow> bool \<Rightarrow> unread_state \<Rightarrow> unread_state" where
  "incrementUnread stateKey messageId hasMention s =
     s\<lparr>un_counts := (un_counts s)(stateKey \<mapsto> coalesce (un_counts s stateKey) 0 + 1),
       un_firstUnread :=
         (case un_firstUnread s stateKey of
            Some (Some _) \<Rightarrow> un_firstUnread s
          | _ \<Rightarrow> (un_firstUnread s)(stateKey \<mapsto> Some messageId)),
       un_mentions := (if hasMention then (un_mentions s)(stateKey \<mapsto> True) else un_mentions s)\<rparr>"

definition messageStateKey :: "message \<Rightarrow> string option" where
  "messageStateKey msg =
     (if msg_conversation_key msg = [] then None
      else Some (getStateKey (case msg_type msg of CHAN \<Rightarrow> TrackedChannel | PRIV \<Rightarrow> TrackedContact)
                   (msg_conversation_key msg)))"

definition recordMessageEvent :: "int \<Rightarrow> message \<Rightarrow> bool \<Rightarrow> bool \<Rightarrow> bool \<Rightarrow> unread_state \<Rightarrow> unread_state" where
  "recordMessageEvent nowSeconds msg isActiveConversation isNewMessage hasMention s =
     (case messageStateKey msg of
        None \<Rightarrow> s
      | Some stateKey \<Rightarrow>
          let timestamp = (if msg_received_at msg \<noteq> 0 then msg_received_at msg else nowSeconds);
              cache = setLastMessageTime stateKey timestamp (un_timesCache s);
              s1 = s\<lparr>un_timesCache := cache, un_times := cache,
                     un_previews := (un_previews s)(stateKey \<mapsto> take PREVIEW_MAX_LEN (msg_text msg)),
                     un_outgoing := (un_outgoing s)(stateKey \<mapsto> msg_outgoing msg)\<rparr>
          in if \<not> isActiveConversation \<and> \<not> msg_outgoing msg \<and> isNewMessage
             then incrementUnread stateKey (msg_id msg) hasMention s1 else s1)"

text \<open>\<^verbatim>\<open>next[new] = merge(next[new], next[old]); delete next[old]\<close>, when \<open>old\<close> is a key.\<close>

definition rename_key :: "('v option \<Rightarrow> 'v \<Rightarrow> 'v) \<Rightarrow> string \<Rightarrow> string \<Rightarrow> (string \<rightharpoonup> 'v) \<Rightarrow> (string \<rightharpoonup> 'v)" where
  "rename_key merge oldKey newKey m =
     (case m oldKey of None \<Rightarrow> m | Some v \<Rightarrow> (m(newKey \<mapsto> merge (m newKey) v))(oldKey := None))"

definition renameConversationState :: "string \<Rightarrow> string \<Rightarrow> unread_state \<Rightarrow> unread_state" where
  "renameConversationState oldKey newKey s =
     (if oldKey = newKey then s
      else
        let cache = renameConversationTimeKey oldKey newKey (un_timesCache s) in
        s\<lparr>un_counts := rename_key (\<lambda>new old. coalesce new 0 + old) oldKey newKey (un_counts s),
          un_mentions := rename_key (\<lambda>new old. new = Some True \<or> old) oldKey newKey (un_mentions s),
          un_firstUnread :=
            rename_key (\<lambda>new old. case new of Some (Some i) \<Rightarrow> Some i | _ \<Rightarrow> old) oldKey newKey (un_firstUnread s),
          un_previews := rename_key (\<lambda>new old. coalesce new old) oldKey newKey (un_previews s),
          un_outgoing := rename_key (\<lambda>new old. coalesce new old) oldKey newKey (un_outgoing s),
          un_timesCache := cache, un_times := cache\<rparr>)"

definition removeConversationState :: "string \<Rightarrow> unread_state \<Rightarrow> unread_state" where
  "removeConversationState key s =
     s\<lparr>un_counts := (un_counts s)(key := None),
       un_mentions := (un_mentions s)(key := None),
       un_firstUnread := (un_firstUnread s)(key := None),
       un_lastReadAts := (un_lastReadAts s)(key := None),
       un_previews := (un_previews s)(key := None),
       un_outgoing := (un_outgoing s)(key := None)\<rparr>"

definition markAllRead :: "unread_state \<Rightarrow> unread_state" where
  "markAllRead s =
     s\<lparr>un_counts := Map.empty, un_mentions := Map.empty, un_lastReadAts := Map.empty,
       un_firstUnread := Map.empty, un_calls := un_calls s @ [MarkAllRead]\<rparr>"

section \<open>Lemmas\<close>

abbreviation count_of :: "unread_state \<Rightarrow> string \<Rightarrow> int" where
  "count_of s k \<equiv> coalesce (un_counts s k) 0"

text \<open>A recorded message counts as unread: incoming, new, and not in the open conversation.\<close>

definition counts_for :: "string \<Rightarrow> message \<times> bool \<times> bool \<times> bool \<Rightarrow> bool" where
  "counts_for k e =
     (case e of (m, active, new, mention) \<Rightarrow>
        messageStateKey m = Some k \<and> \<not> active \<and> \<not> msg_outgoing m \<and> new)"

definition record_all :: "int \<Rightarrow> (message \<times> bool \<times> bool \<times> bool) list \<Rightarrow> unread_state \<Rightarrow> unread_state" where
  "record_all now es s = fold (\<lambda>(m, active, new, mention). recordMessageEvent now m active new mention) es s"

lemma record_count:
  "count_of (recordMessageEvent now m active new mention s) k =
     count_of s k + (if counts_for k (m, active, new, mention) then 1 else 0)"
  by (auto simp: recordMessageEvent_def counts_for_def incrementUnread_def coalesce_def Let_def
      split: option.splits)

lemma record_first:
  "un_firstUnread (recordMessageEvent now m active new mention s) k =
     (if counts_for k (m, active, new, mention) \<and> un_firstUnread s k \<in> {None, Some None}
      then Some (Some (msg_id m)) else un_firstUnread s k)"
  by (auto simp: recordMessageEvent_def counts_for_def incrementUnread_def Let_def split: option.splits)

lemma record_all_count:
  "count_of (record_all now es s) k = count_of s k + int (length (filter (counts_for k) es))"
proof (induction es arbitrary: s)
  case Nil
  then show ?case by (simp add: record_all_def)
next
  case (Cons e es)
  obtain m a n h where e: "e = (m, a, n, h)" by (rule prod_cases4)
  have "record_all now (e # es) s = record_all now es (recordMessageEvent now m a n h s)"
    by (simp add: record_all_def e)
  then show ?case using Cons [of "recordMessageEvent now m a n h s"] record_count [of now m a n h s k]
    by (simp add: e)
qed

lemma record_all_first_kept:
  "un_firstUnread s k = Some (Some i) \<Longrightarrow> un_firstUnread (record_all now es s) k = Some (Some i)"
proof (induction es arbitrary: s)
  case (Cons e es)
  obtain m a n h where e: "e = (m, a, n, h)" by (rule prod_cases4)
  have "un_firstUnread (recordMessageEvent now m a n h s) k = Some (Some i)"
    using Cons.prems by (simp add: record_first)
  then show ?case using Cons.IH by (simp add: record_all_def e)
qed (simp add: record_all_def)

lemma record_all_first:
  assumes "un_firstUnread s k \<in> {None, Some None}"
  shows "un_firstUnread (record_all now es s) k =
     (case filter (counts_for k) es of [] \<Rightarrow> un_firstUnread s k | (m, _) # _ \<Rightarrow> Some (Some (msg_id m)))"
  using assms
proof (induction es arbitrary: s)
  case (Cons e es)
  obtain m a n h where e: "e = (m, a, n, h)" by (rule prod_cases4)
  define s' where "s' = recordMessageEvent now m a n h s"
  have step: "record_all now (e # es) s = record_all now es s'" by (simp add: record_all_def e s'_def)
  show ?case
  proof (cases "counts_for k e")
    case True
    then have "un_firstUnread s' k = Some (Some (msg_id m))"
      using Cons.prems by (simp add: s'_def record_first e)
    then show ?thesis unfolding step using True by (simp add: record_all_first_kept e)
  next
    case False
    then have "un_firstUnread s' k = un_firstUnread s k" by (simp add: s'_def record_first e)
    then show ?thesis unfolding step using False Cons by (simp split: list.split)
  qed
qed (simp add: record_all_def)

text \<open>The open conversation has no unread badge.\<close>

definition active_clear :: "unread_state \<Rightarrow> bool" where
  "active_clear s =
     (case trackedKey (un_active s) of
        None \<Rightarrow> True
      | Some k \<Rightarrow> count_of s k = 0 \<and> un_mentions s k \<noteq> Some True)"

lemma mark_active_read_frame [simp]:
  "un_active (mark_active_read s) = un_active s" "un_counts (mark_active_read s) = un_counts s"
  "un_mentions (mark_active_read s) = un_mentions s" "un_firstUnread (mark_active_read s) = un_firstUnread s"
  by (simp_all add: mark_active_read_def split: option.split conversation_type.split)

lemma active_clear_mark [simp]: "active_clear (mark_active_read s) = active_clear s"
  by (simp add: active_clear_def split: option.split)

lemma active_clear_apply: "active_clear (applyUnreads data s)"
  by (simp add: active_clear_def applyUnreads_def Let_def coalesce_def split: option.split)

lemma active_clear_fetch [js_inv]: "active_clear s \<Longrightarrow> active_clear (fetchUnreads answer s)"
  by (cases answer) (simp_all add: fetchUnreads_def active_clear_apply)

lemma active_clear_open [js_inv]: "active_clear s \<Longrightarrow> active_clear (open_tracked conv s)"
  by (auto simp: open_tracked_def active_clear_def coalesce_def Let_def split: option.splits)

lemma record_mentions:
  "un_mentions (recordMessageEvent now m active new mention s) k =
     (if counts_for k (m, active, new, mention) \<and> mention then Some True else un_mentions s k)"
  by (auto simp: recordMessageEvent_def counts_for_def incrementUnread_def Let_def split: option.splits)

lemma record_active [simp]: "un_active (recordMessageEvent now m active new mention s) = un_active s"
  by (simp add: recordMessageEvent_def incrementUnread_def Let_def split: option.split)

lemma active_clear_record [js_inv]:
  assumes "active_clear s" and "messageStateKey m = trackedKey (un_active s) \<Longrightarrow> active"
  shows "active_clear (recordMessageEvent now m active new mention s)"
proof (cases "trackedKey (un_active s)")
  case (Some k)
  then have "\<not> counts_for k (m, active, new, mention)" using assms(2) by (auto simp: counts_for_def)
  then show ?thesis using assms(1) Some by (simp add: active_clear_def record_count record_mentions)
qed (simp add: active_clear_def)

lemma active_clear_markAll [js_inv]: "active_clear (markAllRead s)"
  by (simp add: active_clear_def markAllRead_def coalesce_def split: option.split)

lemma active_clear_remove [js_inv]: "active_clear s \<Longrightarrow> active_clear (removeConversationState k s)"
  by (auto simp: active_clear_def removeConversationState_def coalesce_def split: option.splits)

lemma active_clear_rename [js_inv]:
  assumes "active_clear s" and "trackedKey (un_active s) = Some b \<Longrightarrow> count_of s a = 0 \<and> un_mentions s a \<noteq> Some True"
  shows "active_clear (renameConversationState a b s)"
  using assms
  by (auto simp: active_clear_def renameConversationState_def rename_key_def coalesce_def Let_def split: option.splits)

text \<open>
  Opening a conversation clears its count but not its boundary, so the next unread message does
  not become the boundary: the old one, already read, stays.
\<close>

lemma boundary_survives_opening:
  assumes "un_firstUnread s k = Some (Some i)"
  shows "un_firstUnread (recordMessageEvent now m False True mention (open_tracked c2 (open_tracked c1 s))) k =
     Some (Some i)"
  using assms by (auto simp: record_first open_tracked_def Let_def split: option.split)

section \<open>Properties\<close>

text \<open>
  Counting is exact. After any sequence of recorded messages, the count of every conversation
  has grown by exactly the number of its messages that are incoming, new and not in the open
  conversation, and where no boundary was set before, the unread boundary is the first of them.
\<close>

theorem unread_counts_exact:
  "count_of (record_all now es s) k = count_of s k + int (length (filter (counts_for k) es)) \<and>
   (if un_firstUnread s k \<in> {None, Some None}
    then un_firstUnread (record_all now es s) k =
      (case filter (counts_for k) es of [] \<Rightarrow> un_firstUnread s k | (m, _) # _ \<Rightarrow> Some (Some (msg_id m)))
    else un_firstUnread (record_all now es s) k = un_firstUnread s k)"
  using record_all_count [of now es s k] record_all_first [of s k now es] record_all_first_kept [of s k _ now es]
  by auto

text \<open>
  Renaming a conversation loses no unread message: the new key gets the sum of both counts, a
  mention under either key is kept, the last message time is the later one, the old key
  disappears, and every other conversation is untouched.
\<close>

theorem rename_conserves_unread:
  assumes "a \<noteq> b"
  shows "count_of (renameConversationState a b s) b = count_of s b + count_of s a \<and>
     un_counts (renameConversationState a b s) a = None \<and>
     (un_mentions (renameConversationState a b s) b = Some True \<longleftrightarrow>
        un_mentions s a = Some True \<or> un_mentions s b = Some True) \<and>
     (\<forall>ta tb. un_timesCache s a = Some ta \<longrightarrow> un_timesCache s b = Some tb \<longrightarrow>
        un_timesCache (renameConversationState a b s) b = Some (max ta tb)) \<and>
     (\<forall>k. k \<noteq> a \<longrightarrow> k \<noteq> b \<longrightarrow> count_of (renameConversationState a b s) k = count_of s k \<and>
        un_timesCache (renameConversationState a b s) k = un_timesCache s k)"
  using assms
  by (auto simp: renameConversationState_def rename_key_def renameConversationTimeKey_def coalesce_def
      Let_def max.commute split: option.splits)

theorem rename_conserves_unread_witness:
  "count_of (renameConversationState ''contact-ab'' ''contact-abcd''
     (unread_init\<lparr>un_counts := [''contact-ab'' \<mapsto> 2, ''contact-abcd'' \<mapsto> 3]\<rparr>)) ''contact-abcd'' = 5"
  using rename_conserves_unread [of "''contact-ab''" "''contact-abcd''"
      "unread_init\<lparr>un_counts := [''contact-ab'' \<mapsto> 2, ''contact-abcd'' \<mapsto> 3]\<rparr>"]
  by (simp add: coalesce_def)

end
