(* ===== verification/MeshDecoder.thy ===== *)
theory MeshDecoder
  imports MeshTypes
begin

text \<open>
  What the frontend reads of the results of \<^verbatim>\<open>@michaelhart/meshcore-decoder\<close>, a package that is not
  part of the sources. The decoder and its naming functions are parameters of the definitions that
  call them: the components of the record \<open>decoder\<close>. Decoding that throws is \<open>None\<close>.
  A payload type the program does not name is \<open>PtOther\<close>.
\<close>

datatype payload_type =
    PtAdvert | PtGroupText | PtTextMessage | PtAck | PtTrace | PtRequest | PtResponse | PtAnonRequest
  | PtOther int

record decoded_payload =
  pl_pathHashes :: "string list option"
  pl_publicKey :: "string option"
  pl_sourceHash :: "string option"
  pl_destinationHash :: "string option"
  pl_senderPublicKey :: "string option"
  pl_decrypted_sender :: "string option"

record decoded_packet =
  dp_isValid :: bool
  dp_payloadType :: payload_type
  dp_routeType :: int
  dp_payload :: "decoded_payload option"
  dp_path :: "string list option"
  dp_pathHashSize :: "nat option"
  dp_messageHash :: "string option"

record decoder =
  dec_decode :: "string \<Rightarrow> decoded_packet option"
  dec_payloadTypeName :: "payload_type \<Rightarrow> string"
  dec_routeTypeName :: "int \<Rightarrow> string"

text \<open>The hops of a packet: those of the trace payload for a trace, the path field otherwise.\<close>

definition getPathTokens :: "decoded_packet \<Rightarrow> string list" where
  "getPathTokens decoded =
     (let traceHashes =
        (case dp_payload decoded of
           Some p \<Rightarrow> if dp_payloadType decoded = PtTrace then pl_pathHashes p else None
         | None \<Rightarrow> None)
      in case traceHashes of
           Some hs \<Rightarrow> hs
         | None \<Rightarrow> coalesce (dp_path decoded) [])"

text \<open>\<^verbatim>\<open>x || y\<close> on numbers, as comparison functions chain their keys.\<close>

definition js_or :: "int \<Rightarrow> int \<Rightarrow> int" where
  "js_or x y = (if x \<noteq> 0 then x else y)"

text \<open>
  Whatever breaks the ties, a list sorted by a comparison whose first key is the difference of
  \<open>f\<close> is ordered by \<open>f\<close>.
\<close>

lemma insert_by_sorted:
  assumes "\<And>x y. cmp x y \<le> (0 :: int) \<Longrightarrow> f x \<le> (f y :: int)" and "\<And>x y. \<not> cmp x y \<le> 0 \<Longrightarrow> f y \<le> f x"
    and "sorted (map f ys)"
  shows "sorted (map f (insert_by cmp x ys))"
  using assms(3)
proof (induction ys)
  case (Cons y ys)
  have "set (insert_by cmp x ys) = insert x (set ys)"
    by (metis mset_insert_by set_mset_add_mset_insert set_mset_mset)
  then show ?case using Cons assms(1) [of x y] assms(2) [of x y] by (auto dest: order_trans)
qed simp

lemma js_sort_first_key:
  "sorted (map f (js_sort (\<lambda>x y. js_or (f x - f y) (g x y)) xs))" for f :: "'a \<Rightarrow> int"
proof -
  have "sorted (map f (foldr (insert_by (\<lambda>x y. js_or (f x - f y) (g x y))) xs []))"
    by (induction xs) (auto simp: js_or_def intro!: insert_by_sorted split: if_splits)
  then show ?thesis by (simp add: js_sort_def)
qed

end
