(* ===== verification/RawStats.thy ===== *)
theory RawStats
  imports MeshDecoder
begin

text \<open>
  Statistics of the packets the radio overhears (\<^verbatim>\<open>utils/rawPacketStats.ts\<close>) and the identity of an
  observation (\<^verbatim>\<open>utils/rawPacketIdentity.ts\<close>). Besides the packet decoder, two functions of the
  environment are parameters: \<open>compare\<close> is \<^verbatim>\<open>localeCompare\<close>, \<open>timeLabel\<close> is \<^verbatim>\<open>formatTimelineLabel\<close>,
  which formats a time for the locale.
\<close>

section \<open>Identity of an observation\<close>

definition getRawPacketObservationKey :: "raw_packet \<Rightarrow> string" where
  "getRawPacketObservationKey p =
     (case rp_observation_id p of
        Some i \<Rightarrow> ''obs-'' @ int_to_string i
      | None \<Rightarrow> ''db-'' @ int_to_string (rp_id p))"

definition appendRawPacketUnique :: "raw_packet list \<Rightarrow> raw_packet \<Rightarrow> nat \<Rightarrow> raw_packet list" where
  "appendRawPacketUnique prev packet maxPackets =
     (let packetKey = getRawPacketObservationKey packet in
      if list_ex (\<lambda>p. getRawPacketObservationKey p = packetKey) prev then prev
      else
        let updated = prev @ [packet] in
        if maxPackets < length updated then slice_from (- int maxPackets) updated else updated)"

section \<open>Summaries\<close>

definition KNOWN_PAYLOAD_TYPES :: "string list" where
  "KNOWN_PAYLOAD_TYPES =
     [''Advert'', ''GroupText'', ''TextMessage'', ''Ack'', ''Request'', ''Response'', ''Trace'', ''Path'',
      ''Control'', ''GroupData'', ''AnonRequest'', ''Multipart'', ''RawCustom'', ''Unknown'']"

definition KNOWN_ROUTE_TYPES :: "string list" where
  "KNOWN_ROUTE_TYPES = [''Flood'', ''Direct'', ''TransportFlood'', ''TransportDirect'', ''Unknown'']"

definition MAX_RAW_PACKET_STATS_OBSERVATIONS :: nat where
  "MAX_RAW_PACKET_STATS_OBSERVATIONS = 20000"

definition getPacketTypeName :: "decoder \<Rightarrow> raw_packet \<Rightarrow> string" where
  "getPacketTypeName dec packet =
     (case dec_decode dec (rp_data packet) of
        None \<Rightarrow> ''Unknown''
      | Some decoded \<Rightarrow>
          if \<not> dp_isValid decoded then ''Unknown''
          else
            let name = dec_payloadTypeName dec (dp_payloadType decoded) in
            if name \<in> set KNOWN_PAYLOAD_TYPES then name else ''Unknown'')"

record stats_observation =
  so_observationKey :: string
  so_timestamp :: int
  so_payloadType :: string
  so_routeType :: string
  so_decrypted :: bool
  so_rssi :: "int option"
  so_snr :: "real option"
  so_sourceKey :: "string option"
  so_sourceLabel :: "string option"
  so_pathTokenCount :: nat
  so_pathSignature :: "string option"
  so_hopByteWidth :: "nat option"

record stats_session =
  ss_sessionStartedAt :: int
  ss_totalObservedPackets :: nat
  ss_trimmedObservationCount :: nat
  ss_observations :: "stats_observation list"

definition toSourceLabel :: "string \<Rightarrow> string" where
  "toSourceLabel sourceKey =
     (if starts_with sourceKey ''name:'' then drop 5 sourceKey else to_upper (take 12 sourceKey))"

definition contactKeyOf :: "raw_packet \<Rightarrow> string option" where
  "contactKeyOf p =
     (case rp_decrypted_info p of
        None \<Rightarrow> None
      | Some i \<Rightarrow> or_null (map_option to_upper (di_contact_key i)))"

definition senderOf :: "raw_packet \<Rightarrow> string option" where
  "senderOf p = (case rp_decrypted_info p of None \<Rightarrow> None | Some i \<Rightarrow> or_null (di_sender i))"

text \<open>The two ways \<open>getSourceInfo\<close> falls back to what the backend decrypted.\<close>

definition contactSource :: "raw_packet \<Rightarrow> (string option \<times> string option) option" where
  "contactSource p =
     (case contactKeyOf p of
        Some k \<Rightarrow> Some (Some k, Some (coalesce (senderOf p) (toSourceLabel k)))
      | None \<Rightarrow> None)"

definition nameSource :: "raw_packet \<Rightarrow> string option \<times> string option" where
  "nameSource p =
     (case senderOf p of
        Some n \<Rightarrow> (Some (''name:'' @ to_lower n), Some n)
      | None \<Rightarrow> (None, None))"

definition keySource :: "string option \<Rightarrow> string option \<times> string option" where
  "keySource key =
     (case or_null key of
        Some k \<Rightarrow> (Some (to_upper k), Some (to_upper (take 12 k)))
      | None \<Rightarrow> (None, None))"

definition getSourceInfo :: "raw_packet \<Rightarrow> decoded_packet \<Rightarrow> string option \<times> string option" where
  "getSourceInfo packet decoded =
     (case dp_payload decoded of
        Some payload \<Rightarrow>
          if \<not> dp_isValid decoded then
            (case contactSource packet of Some r \<Rightarrow> r | None \<Rightarrow> nameSource packet)
          else
            (case dp_payloadType decoded of
               PtAdvert \<Rightarrow> keySource (pl_publicKey payload)
             | PtAnonRequest \<Rightarrow> keySource (pl_senderPublicKey payload)
             | PtGroupText \<Rightarrow> (case contactSource packet of Some r \<Rightarrow> r | None \<Rightarrow> nameSource packet)
             | t \<Rightarrow>
                 if t = PtTextMessage \<or> t = PtRequest \<or> t = PtResponse then
                   (case contactSource packet of
                      Some r \<Rightarrow> r
                    | None \<Rightarrow>
                        (case or_null (pl_sourceHash payload) of
                           Some h \<Rightarrow> (Some (''hash1:'' @ to_upper h), Some (to_upper h))
                         | None \<Rightarrow> (None, None)))
                 else (case contactSource packet of Some r \<Rightarrow> r | None \<Rightarrow> (None, None)))
      | None \<Rightarrow> (case contactSource packet of Some r \<Rightarrow> r | None \<Rightarrow> nameSource packet))"

definition getObservationTimestampSec :: "raw_packet \<Rightarrow> int" where
  "getObservationTimestampSec p =
     (case rp_received_at_ms p of Some ms \<Rightarrow> ms div 1000 | None \<Rightarrow> rp_timestamp p)"

definition summarizeRawPacketForStats :: "decoder \<Rightarrow> raw_packet \<Rightarrow> stats_observation" where
  "summarizeRawPacketForStats dec packet =
     (case dec_decode dec (rp_data packet) of
        Some decoded \<Rightarrow>
          let pathTokens = (if dp_isValid decoded then getPathTokens decoded else []);
              payloadType = (if dp_isValid decoded then dec_payloadTypeName dec (dp_payloadType decoded)
                             else rp_payload_type packet);
              routeType = (if dp_isValid decoded then dec_routeTypeName dec (dp_routeType decoded) else ''Unknown'');
              (key, label) = getSourceInfo packet decoded
          in \<lparr>so_observationKey = getRawPacketObservationKey packet,
              so_timestamp = getObservationTimestampSec packet,
              so_payloadType = payloadType, so_routeType = routeType,
              so_decrypted = rp_decrypted packet, so_rssi = rp_rssi packet, so_snr = rp_snr packet,
              so_sourceKey = key, so_sourceLabel = label,
              so_pathTokenCount = length pathTokens,
              so_pathSignature = (if 0 < length pathTokens then Some (join ''>'' pathTokens) else None),
              so_hopByteWidth = (if 0 < length pathTokens then Some (coalesce (dp_pathHashSize decoded) 1) else None)\<rparr>
      | None \<Rightarrow>
          \<lparr>so_observationKey = getRawPacketObservationKey packet,
           so_timestamp = getObservationTimestampSec packet,
           so_payloadType = rp_payload_type packet, so_routeType = ''Unknown'',
           so_decrypted = rp_decrypted packet, so_rssi = rp_rssi packet, so_snr = rp_snr packet,
           so_sourceKey = None, so_sourceLabel = None, so_pathTokenCount = 0,
           so_pathSignature = None, so_hopByteWidth = None\<rparr>)"

text \<open>The width read off the first hop of the signature.\<close>

definition signatureWidth :: "stats_observation \<Rightarrow> nat option" where
  "signatureWidth p =
     (case or_null (map_option (takeWhile (\<lambda>c. c \<noteq> CHR ''>'')) (so_pathSignature p)) of
        None \<Rightarrow> None
      | Some firstToken \<Rightarrow>
          if length firstToken mod 2 \<noteq> 0 then None
          else
            let inferred = length firstToken div 2 in
            if 1 \<le> inferred \<and> inferred \<le> 3 then Some inferred else None)"

definition inferHopByteWidth :: "stats_observation \<Rightarrow> nat option" where
  "inferHopByteWidth p =
     (if so_pathTokenCount p \<le> 0 then None
      else case so_hopByteWidth p of
        Some w \<Rightarrow> if 0 < w then Some w else signatureWidth p
      | None \<Rightarrow> signatureWidth p)"

section \<open>Counting\<close>

type_synonym counts = "(string, nat) jsmap"

definition share :: "nat \<Rightarrow> nat \<Rightarrow> real" where
  "share n outOf = (if outOf \<le> 0 then 0 else real n / real outOf)"

definition createCountsMap :: "string list \<Rightarrow> counts" where
  "createCountsMap labels = fold (\<lambda>l m. jm_set l 0 m) labels []"

definition bump :: "string \<Rightarrow> counts \<Rightarrow> counts" where
  "bump k m = jm_set k (coalesce (jm_get m k) 0 + 1) m"

record ranked_stat =
  rs_label :: string
  rs_count :: nat
  rs_share :: real

definition to_stat :: "nat \<Rightarrow> string \<times> nat \<Rightarrow> ranked_stat" where
  "to_stat outOf e = \<lparr>rs_label = fst e, rs_count = snd e, rs_share = share (snd e) outOf\<rparr>"

definition rankedBreakdown :: "(string \<Rightarrow> string \<Rightarrow> int) \<Rightarrow> counts \<Rightarrow> nat \<Rightarrow> ranked_stat list" where
  "rankedBreakdown compare counts outOf =
     map (to_stat outOf)
       (js_sort (\<lambda>a b. js_or (int (snd b) - int (snd a)) (compare (fst a) (fst b))) counts)"

definition orderedBreakdown :: "counts \<Rightarrow> nat \<Rightarrow> ranked_stat list" where
  "orderedBreakdown counts outOf = map (to_stat outOf) counts"

definition median :: "int list \<Rightarrow> real option" where
  "median values =
     (if length values = 0 then None
      else
        let sorted_values = js_sort (\<lambda>a b. a - b) values; mid = length sorted_values div 2 in
        if length sorted_values mod 2 = 1 then Some (real_of_int (sorted_values ! mid))
        else Some ((real_of_int (sorted_values ! (mid - 1)) + real_of_int (sorted_values ! mid)) / 2))"

definition getHopProfileBucket :: "nat \<Rightarrow> string" where
  "getHopProfileBucket n =
     (if n \<le> 0 then ''0'' else if n = 1 then ''1'' else if n \<le> 5 then ''2-5'' else if n \<le> 10 then ''6-10''
      else if n \<le> 15 then ''11-15'' else if n \<le> 20 then ''16-20'' else if n \<le> 31 then ''21-31'' else ''32+'')"

record neighbor_stat =
  ns_key :: string
  ns_label :: string
  ns_count :: nat
  ns_bestRssi :: "int option"
  ns_lastSeen :: int

text \<open>The collections the loop over the packets of the window fills.\<close>

record stats_acc =
  ac_payload :: counts
  ac_route :: counts
  ac_hops :: counts
  ac_widths :: counts
  ac_neighbors :: "(string, neighbor_stat) jsmap"
  ac_rssi :: "int list"
  ac_buckets :: counts

definition stats_acc_init :: stats_acc where
  "stats_acc_init =
     \<lparr>ac_payload = createCountsMap KNOWN_PAYLOAD_TYPES, ac_route = createCountsMap KNOWN_ROUTE_TYPES,
      ac_hops = createCountsMap [''0'', ''1'', ''2-5'', ''6-10'', ''11-15'', ''16-20'', ''21-31'', ''32+''],
      ac_widths = createCountsMap [''No path'', ''1 byte / hop'', ''2 bytes / hop'', ''3 bytes / hop'', ''Unknown width''],
      ac_neighbors = [], ac_rssi = [],
      ac_buckets = createCountsMap [''Strong (>-70 dBm)'', ''Okay (-70 to -85 dBm)'', ''Weak (<-85 dBm)'']\<rparr>"

definition widthLabel :: "stats_observation \<Rightarrow> string" where
  "widthLabel p =
     (if so_pathTokenCount p \<le> 0 then ''No path''
      else if inferHopByteWidth p = Some 1 then ''1 byte / hop''
      else if inferHopByteWidth p = Some 2 then ''2 bytes / hop''
      else if inferHopByteWidth p = Some 3 then ''3 bytes / hop''
      else ''Unknown width'')"

definition update_neighbor :: "stats_observation \<Rightarrow> (string, neighbor_stat) jsmap \<Rightarrow> (string, neighbor_stat) jsmap" where
  "update_neighbor p m =
     (case or_null (so_sourceKey p) of
        None \<Rightarrow> m
      | Some key \<Rightarrow>
          (case or_null (so_sourceLabel p) of
             None \<Rightarrow> m
           | Some label \<Rightarrow>
               (case jm_get m key of
                  None \<Rightarrow> jm_set key \<lparr>ns_key = key, ns_label = label, ns_count = 1, ns_bestRssi = so_rssi p,
                                     ns_lastSeen = so_timestamp p\<rparr> m
                | Some n \<Rightarrow>
                    jm_set key (n\<lparr>ns_count := ns_count n + 1,
                      ns_lastSeen := max (ns_lastSeen n) (so_timestamp p),
                      ns_bestRssi :=
                        (case so_rssi p of
                           None \<Rightarrow> ns_bestRssi n
                         | Some r \<Rightarrow> (case ns_bestRssi n of
                                         None \<Rightarrow> Some r
                                       | Some b \<Rightarrow> if b < r then Some r else Some b))\<rparr>) m)))"

definition bucketLabel :: "int \<Rightarrow> string" where
  "bucketLabel rssi =
     (if -70 < rssi then ''Strong (>-70 dBm)''
      else if -85 \<le> rssi then ''Okay (-70 to -85 dBm)''
      else ''Weak (<-85 dBm)'')"

definition stats_step :: "stats_observation \<Rightarrow> stats_acc \<Rightarrow> stats_acc" where
  "stats_step p a =
     (let a1 = a\<lparr>ac_payload := bump (so_payloadType p) (ac_payload a),
                 ac_route := bump (so_routeType p) (ac_route a),
                 ac_hops := bump (getHopProfileBucket (so_pathTokenCount p)) (ac_hops a),
                 ac_widths := bump (widthLabel p) (ac_widths a),
                 ac_neighbors := update_neighbor p (ac_neighbors a)\<rparr>
      in case so_rssi p of
           None \<Rightarrow> a1
         | Some r \<Rightarrow> a1\<lparr>ac_rssi := ac_rssi a @ [r], ac_buckets := bump (bucketLabel r) (ac_buckets a)\<rparr>)"

section \<open>The snapshot\<close>

datatype stats_window = W1m | W5m | W10m | W30m | WSession

definition windowSecondsOf :: "stats_window \<Rightarrow> int option" where
  "windowSecondsOf w =
     (case w of W1m \<Rightarrow> Some 60 | W5m \<Rightarrow> Some (5 * 60) | W10m \<Rightarrow> Some (10 * 60) | W30m \<Rightarrow> Some (30 * 60)
              | WSession \<Rightarrow> None)"

record timeline_bin =
  tb_label :: string
  tb_total :: nat
  tb_countsByType :: counts

record stats_snapshot =
  sn_window :: stats_window
  sn_nowSec :: int
  sn_packets :: "stats_observation list"
  sn_packetCount :: nat
  sn_packetsPerMinute :: real
  sn_uniqueSources :: nat
  sn_decryptedCount :: nat
  sn_undecryptedCount :: nat
  sn_decryptRate :: real
  sn_pathBearingCount :: nat
  sn_pathBearingRate :: real
  sn_distinctPaths :: nat
  sn_payloadBreakdown :: "ranked_stat list"
  sn_routeBreakdown :: "ranked_stat list"
  sn_topPacketTypes :: "ranked_stat list"
  sn_hopProfile :: "ranked_stat list"
  sn_hopByteWidthProfile :: "ranked_stat list"
  sn_strongestNeighbors :: "neighbor_stat list"
  sn_mostActiveNeighbors :: "neighbor_stat list"
  sn_newestNeighbors :: "neighbor_stat list"
  sn_averageRssi :: "real option"
  sn_medianRssi :: "real option"
  sn_bestRssi :: "int option"
  sn_rssiBuckets :: "ranked_stat list"
  sn_coverageSeconds :: int
  sn_windowFullyCovered :: bool
  sn_oldestStoredTimestamp :: "int option"
  sn_timeline :: "timeline_bin list"

definition non_empty_texts :: "string option list \<Rightarrow> string list" where
  "non_empty_texts xs = concat (map (\<lambda>x. case or_null x of Some t \<Rightarrow> [t] | None \<Rightarrow> []) xs)"

definition timeline_index :: "int \<Rightarrow> real \<Rightarrow> stats_observation \<Rightarrow> nat" where
  "timeline_index windowStart binWidth p =
     nat (max 0 (min 9 \<lfloor>(real_of_int (so_timestamp p - windowStart)) / binWidth\<rfloor>))"

definition timeline_step :: "int \<Rightarrow> real \<Rightarrow> stats_observation \<Rightarrow> timeline_bin list \<Rightarrow> timeline_bin list" where
  "timeline_step windowStart binWidth p bins =
     (let i = timeline_index windowStart binWidth p; b = bins ! i in
      bins[i := b\<lparr>tb_total := tb_total b + 1, tb_countsByType := bump (so_payloadType p) (tb_countsByType b)\<rparr>])"

definition rssi_value :: "neighbor_stat \<Rightarrow> int" where
  "rssi_value n = coalesce (ns_bestRssi n) 0"

definition buildRawPacketStatsSnapshot ::
  "(string \<Rightarrow> string \<Rightarrow> int) \<Rightarrow> (int \<Rightarrow> string) \<Rightarrow> stats_session \<Rightarrow> stats_window \<Rightarrow> int \<Rightarrow> stats_snapshot" where
  "buildRawPacketStatsSnapshot compare timeLabel session w nowSec =
     (let sessionStartedSec = ss_sessionStartedAt session div 1000;
          windowSeconds = windowSecondsOf w;
          windowStart = (case windowSeconds of None \<Rightarrow> sessionStartedSec | Some n \<Rightarrow> nowSec - n);
          packets = filter (\<lambda>p. windowStart \<le> so_timestamp p) (ss_observations session);
          packetCount = length packets;
          decryptedCount = length (filter so_decrypted packets);
          pathBearingCount = length (filter (\<lambda>p. 0 < so_pathTokenCount p) packets);
          effectiveCoverageSeconds =
            (case windowSeconds of Some n \<Rightarrow> n | None \<Rightarrow> max 1 (nowSec - min sessionStartedSec nowSec));
          acc = fold stats_step packets stats_acc_init;
          rssiValues = ac_rssi acc;
          neighbors = map snd (ac_neighbors acc);
          oldestStored = (case ss_observations session of [] \<Rightarrow> None | o1 # _ \<Rightarrow> Some (so_timestamp o1));
          detailedStart = (if 0 < ss_trimmedObservationCount session then coalesce oldestStored nowSec
                           else sessionStartedSec);
          coverageStart = max windowStart detailedStart;
          span = max (case windowSeconds of Some n \<Rightarrow> n | None \<Rightarrow> max 60 (nowSec - sessionStartedSec)) 60;
          binWidth = max 1 (real_of_int span / 10);
          bins0 = map (\<lambda>i. \<lparr>tb_label = timeLabel \<lfloor>real_of_int windowStart + real i * binWidth\<rfloor>,
                            tb_total = 0, tb_countsByType = []\<rparr>) [0..<10]
      in \<lparr>sn_window = w, sn_nowSec = nowSec, sn_packets = packets, sn_packetCount = packetCount,
          sn_packetsPerMinute = real packetCount / max (real_of_int effectiveCoverageSeconds / 60) (1 / 60),
          sn_uniqueSources = length (js_set (non_empty_texts (map so_sourceKey packets))),
          sn_decryptedCount = decryptedCount,
          sn_undecryptedCount = packetCount - decryptedCount,
          sn_decryptRate = share decryptedCount packetCount,
          sn_pathBearingCount = pathBearingCount,
          sn_pathBearingRate = share pathBearingCount packetCount,
          sn_distinctPaths = length (js_set (non_empty_texts (map so_pathSignature packets))),
          sn_payloadBreakdown = rankedBreakdown compare (ac_payload acc) packetCount,
          sn_routeBreakdown = rankedBreakdown compare (ac_route acc) packetCount,
          sn_topPacketTypes = take 5 (rankedBreakdown compare (ac_payload acc) packetCount),
          sn_hopProfile = orderedBreakdown (ac_hops acc) packetCount,
          sn_hopByteWidthProfile = rankedBreakdown compare (ac_widths acc) packetCount,
          sn_strongestNeighbors =
            take 5 (js_sort (\<lambda>a b. js_or (rssi_value b - rssi_value a)
                       (js_or (int (ns_count b) - int (ns_count a)) (compare (ns_label a) (ns_label b))))
                     (filter (\<lambda>n. ns_bestRssi n \<noteq> None) neighbors)),
          sn_mostActiveNeighbors =
            take 5 (js_sort (\<lambda>a b. js_or (int (ns_count b) - int (ns_count a))
                       (js_or (ns_lastSeen b - ns_lastSeen a) (compare (ns_label a) (ns_label b)))) neighbors),
          sn_newestNeighbors =
            take 5 (js_sort (\<lambda>a b. js_or (ns_lastSeen b - ns_lastSeen a)
                       (js_or (int (ns_count b) - int (ns_count a)) (compare (ns_label a) (ns_label b)))) neighbors),
          sn_averageRssi = (if 0 < length rssiValues
                            then Some (real_of_int (sum_list rssiValues) / real (length rssiValues)) else None),
          sn_medianRssi = median rssiValues,
          sn_bestRssi = (case rssiValues of [] \<Rightarrow> None | v # vs \<Rightarrow> Some (fold max vs v)),
          sn_rssiBuckets = rankedBreakdown compare (ac_buckets acc) (length rssiValues),
          sn_coverageSeconds = (if w = WSession then max 1 (nowSec - detailedStart) else max 1 (nowSec - coverageStart)),
          sn_windowFullyCovered =
            (if w = WSession then ss_trimmedObservationCount session = 0 else detailedStart \<le> windowStart),
          sn_oldestStoredTimestamp = oldestStored,
          sn_timeline = fold (timeline_step windowStart binWidth) packets bins0\<rparr>)"

section \<open>Lemmas\<close>

lemma sum_jm_set: "sum_list (map f (map snd (jm_set k v m))) + (case jm_get m k of None \<Rightarrow> 0 | Some x \<Rightarrow> f x) =
   sum_list (map f (map snd m)) + f v" for f :: "'v \<Rightarrow> nat"
  by (induction m) (auto simp: jm_get_def split: option.splits)

lemma sum_jm_set_new: "jm_get m k = None \<Longrightarrow>
   sum_list (map f (map snd (jm_set k v m))) = sum_list (map f (map snd m)) + f v" for f :: "'v \<Rightarrow> nat"
  using sum_jm_set [of f k v m] by simp

lemma sum_jm_set_old: "jm_get m k = Some x \<Longrightarrow> f v = Suc (f x) \<Longrightarrow>
   sum_list (map f (map snd (jm_set k v m))) = Suc (sum_list (map f (map snd m)))" for f :: "'v \<Rightarrow> nat"
  using sum_jm_set [of f k v m] by simp

abbreviation counted :: "counts \<Rightarrow> nat" where
  "counted m \<equiv> sum_list (map snd m)"

lemma counted_bump [simp]: "counted (bump k m) = Suc (counted m)"
  using sum_jm_set [of "\<lambda>x. x" k "coalesce (jm_get m k) 0 + 1" m]
  by (cases "jm_get m k") (auto simp: bump_def coalesce_def)

lemma counted_create [simp]: "counted (createCountsMap ls) = 0"
proof -
  have "counted (fold (\<lambda>l m. jm_set l 0 m) ls m) = 0" if "\<forall>e \<in> set m. snd e = 0" for m :: counts
    using that
  proof (induction ls arbitrary: m)
    case Nil
    then show ?case by (induction m) auto
  next
    case (Cons l ls)
    have "\<forall>e \<in> set (jm_set l 0 m). snd e = 0"
      using Cons.prems set_jm_set_subset [of l 0 m] by fastforce
    then show ?case using Cons.IH by simp
  qed
  from this [of "[]"] show ?thesis unfolding createCountsMap_def by simp
qed

text \<open>A packet counts for the neighbours when it names its source.\<close>

definition has_source :: "stats_observation \<Rightarrow> bool" where
  "has_source p \<longleftrightarrow> or_null (so_sourceKey p) \<noteq> None \<and> or_null (so_sourceLabel p) \<noteq> None"

abbreviation neighbor_total :: "(string, neighbor_stat) jsmap \<Rightarrow> nat" where
  "neighbor_total m \<equiv> sum_list (map ns_count (map snd m))"

lemma neighbor_total_update:
  "neighbor_total (update_neighbor p m) = neighbor_total m + (if has_source p then 1 else 0)"
proof (cases "has_source p")
  case True
  then obtain key label where kl: "or_null (so_sourceKey p) = Some key" "or_null (so_sourceLabel p) = Some label"
    by (auto simp: has_source_def)
  show ?thesis
    using True
    by (cases "jm_get m key") (simp_all add: update_neighbor_def kl sum_jm_set_new sum_jm_set_old del: map_map)
qed (auto simp: update_neighbor_def has_source_def split: option.split)

lemma stats_fold_totals:
  "counted (ac_payload (fold stats_step ps a)) = counted (ac_payload a) + length ps"
  "counted (ac_route (fold stats_step ps a)) = counted (ac_route a) + length ps"
  "counted (ac_hops (fold stats_step ps a)) = counted (ac_hops a) + length ps"
  "counted (ac_widths (fold stats_step ps a)) = counted (ac_widths a) + length ps"
  "neighbor_total (ac_neighbors (fold stats_step ps a)) =
     neighbor_total (ac_neighbors a) + length (filter has_source ps)"
  by (induction ps arbitrary: a)
    (simp_all add: stats_step_def Let_def neighbor_total_update split: option.split del: map_map)

lemma stats_fold_rssi:
  "ac_rssi (fold stats_step ps a) = ac_rssi a @ List.map_filter so_rssi ps"
  "counted (ac_buckets (fold stats_step ps a)) = counted (ac_buckets a) + length (List.map_filter so_rssi ps)"
  by (induction ps arbitrary: a)
    (simp_all add: stats_step_def Let_def List.map_filter_simps split: option.split)

lemma sum_ranked: "sum_list (map rs_count (rankedBreakdown cmp m n)) = counted m"
proof -
  have "mset (map rs_count (rankedBreakdown cmp m n)) = mset (map snd m)"
    by (simp add: rankedBreakdown_def to_stat_def comp_def)
  then show ?thesis by (metis sum_mset_sum_list)
qed

lemma ranked_sorted: "sorted (map (\<lambda>r. - int (rs_count r)) (rankedBreakdown cmp m n))"
  using js_sort_first_key [of "\<lambda>e. - int (snd e)" "\<lambda>a b. cmp (fst a) (fst b)" m]
  by (simp add: rankedBreakdown_def to_stat_def comp_def)

lemma timeline_index_bound: "timeline_index ws bw p < 10"
  by (simp add: timeline_index_def nat_less_iff)

lemma timeline_total:
  "length bins = 10 \<Longrightarrow>
     length (fold (timeline_step ws bw) ps bins) = 10 \<and>
     sum_list (map tb_total (fold (timeline_step ws bw) ps bins)) = sum_list (map tb_total bins) + length ps"
proof (induction ps arbitrary: bins)
  case (Cons p ps)
  define i where "i = timeline_index ws bw p"
  have i: "i < length bins" using timeline_index_bound Cons.prems by (simp add: i_def)
  define bins' where "bins' = timeline_step ws bw p bins"
  have "sum_list (map tb_total bins') = Suc (sum_list (map tb_total bins))"
    using i elem_le_sum_list [of i "map tb_total bins"]
    by (simp add: bins'_def timeline_step_def Let_def i_def map_update sum_list_update)
  moreover have "length bins' = 10" using Cons.prems by (simp add: bins'_def timeline_step_def Let_def)
  ultimately show ?case using Cons.IH [of bins'] by (simp add: bins'_def)
qed simp

section \<open>Properties\<close>


text \<open>
  The ranked lists are ranked: breakdowns by falling count, the strongest neighbours by falling
  signal, the most active by falling count, the newest by falling time; each of the short lists has
  at most five entries. The shares are between 0 and 1.
\<close>

theorem stats_rankings_sorted:
  "let sn = buildRawPacketStatsSnapshot cmp timeLabel session w nowSec in
     sorted (map (\<lambda>r. - int (rs_count r)) (sn_payloadBreakdown sn)) \<and>
     sorted (map (\<lambda>r. - int (rs_count r)) (sn_routeBreakdown sn)) \<and>
     sorted (map (\<lambda>r. - int (rs_count r)) (sn_topPacketTypes sn)) \<and>
     sorted (map (\<lambda>n. - rssi_value n) (sn_strongestNeighbors sn)) \<and>
     sorted (map (\<lambda>n. - int (ns_count n)) (sn_mostActiveNeighbors sn)) \<and>
     sorted (map (\<lambda>n. - ns_lastSeen n) (sn_newestNeighbors sn)) \<and>
     length (sn_strongestNeighbors sn) \<le> 5 \<and> length (sn_mostActiveNeighbors sn) \<le> 5 \<and>
     length (sn_newestNeighbors sn) \<le> 5 \<and> length (sn_topPacketTypes sn) \<le> 5 \<and>
     0 \<le> sn_decryptRate sn \<and> sn_decryptRate sn \<le> 1 \<and> 0 \<le> sn_pathBearingRate sn \<and> sn_pathBearingRate sn \<le> 1"
proof -
  have first: "sorted (map f (take 5 (js_sort (\<lambda>x y. js_or (g y - g x) (h x y)) xs)))"
    if "\<And>x. f x = - g x" for f g :: "'a \<Rightarrow> int" and h xs
    using js_sort_first_key [of f h xs] that by (simp add: take_map [symmetric] sorted_wrt_take)
  have top: "sorted (map (\<lambda>r. - int (rs_count r)) (take 5 (rankedBreakdown c m n)))" for c m n
    by (metis ranked_sorted sorted_wrt_take take_map)
  have rate: "0 \<le> share (length (filter P xs)) (length xs) \<and> share (length (filter P xs)) (length xs) \<le> 1"
    for P and xs :: "stats_observation list"
    by (auto simp: share_def divide_le_eq_1)
  show ?thesis
    unfolding buildRawPacketStatsSnapshot_def Let_def
    by (simp add: first top ranked_sorted rate del: filter_filter)
qed

end
