(* ===== verification/RawStore.thy ===== *)
theory RawStore
  imports RawStats
begin

text \<open>
  The store of raw packets (\<^verbatim>\<open>stores/rawPacketStore.ts\<close>), a module with mutable variables, as a record
  passed from operation to operation, and the clock offset and history bounds computed from it
  (\<^verbatim>\<open>utils/rawPacketHistoryBounds.ts\<close>). The browser clock is an argument of the operations that read
  it. The listeners are external; \<open>rs_emits\<close> counts how often they are called. The code compares
  arrays and sessions by identity: \<open>appendPacket\<close> and \<open>observePacket\<close> return \<open>None\<close> for the value they
  were given.
\<close>

section \<open>The store\<close>

definition MAX_RAW_PACKETS :: nat where
  "MAX_RAW_PACKETS = 500"

record raw_store =
  rs_packets :: "raw_packet list"
  rs_statsSession :: stats_session
  rs_packetKeys :: "string list"
  rs_observationKeys :: "string list"
  rs_emits :: nat

definition createStatsSession :: "int \<Rightarrow> stats_session" where
  "createStatsSession nowMs =
     \<lparr>ss_sessionStartedAt = nowMs, ss_totalObservedPackets = 0, ss_trimmedObservationCount = 0,
      ss_observations = []\<rparr>"

definition raw_store_init :: "int \<Rightarrow> raw_store" where
  "raw_store_init nowMs =
     \<lparr>rs_packets = [], rs_statsSession = createStatsSession nowMs, rs_packetKeys = [],
      rs_observationKeys = [], rs_emits = 0\<rparr>"

definition rebuildKeyIndexes :: "raw_store \<Rightarrow> raw_store" where
  "rebuildKeyIndexes s =
     s\<lparr>rs_packetKeys := js_set (map getRawPacketObservationKey (rs_packets s)),
       rs_observationKeys := js_set (map so_observationKey (ss_observations (rs_statsSession s)))\<rparr>"

definition emit :: "raw_store \<Rightarrow> raw_store" where
  "emit s = s\<lparr>rs_emits := Suc (rs_emits s)\<rparr>"

definition appendPacket :: "raw_packet \<Rightarrow> nat \<Rightarrow> raw_store \<Rightarrow> raw_packet list option \<times> string list" where
  "appendPacket packet maxPackets s =
     (let key = getRawPacketObservationKey packet in
      if key \<in> set (rs_packetKeys s) then (None, rs_packetKeys s)
      else
        let updated = rs_packets s @ [packet]; keys = js_add key (rs_packetKeys s) in
        if length updated \<le> maxPackets then (Some updated, keys)
        else
          let overflow = length updated - maxPackets in
          (Some (drop overflow updated),
           fold removeAll (map getRawPacketObservationKey (take overflow updated)) keys))"

definition observePacket :: "decoder \<Rightarrow> stats_session \<Rightarrow> raw_packet \<Rightarrow> raw_store \<Rightarrow> stats_session option \<times> string list" where
  "observePacket dec session packet s =
     (let observation = summarizeRawPacketForStats dec packet in
      if so_observationKey observation \<in> set (rs_observationKeys s) then (None, rs_observationKeys s)
      else
        let keys = js_add (so_observationKey observation) (rs_observationKeys s);
            observations = ss_observations session @ [observation] in
        if length observations \<le> MAX_RAW_PACKET_STATS_OBSERVATIONS then
          (Some (session\<lparr>ss_totalObservedPackets := ss_totalObservedPackets session + 1,
                         ss_observations := observations\<rparr>), keys)
        else
          let overflow = length observations - MAX_RAW_PACKET_STATS_OBSERVATIONS in
          (Some (session\<lparr>ss_totalObservedPackets := ss_totalObservedPackets session + 1,
                         ss_trimmedObservationCount := ss_trimmedObservationCount session + overflow,
                         ss_observations := drop overflow observations\<rparr>),
           fold removeAll (map so_observationKey (take overflow observations)) keys))"

definition stamp :: "int \<Rightarrow> raw_packet \<Rightarrow> raw_packet" where
  "stamp nowMs packet =
     (if rp_received_at_ms packet = None then packet\<lparr>rp_received_at_ms := Some nowMs\<rparr> else packet)"

definition recordRawPacket :: "decoder \<Rightarrow> int \<Rightarrow> nat \<Rightarrow> raw_packet \<Rightarrow> raw_store \<Rightarrow> raw_store" where
  "recordRawPacket dec nowMs maxPackets packet0 s =
     (let packet = stamp nowMs packet0;
          (nextPackets, packetKeys) = appendPacket packet maxPackets s;
          (nextStats, observationKeys) = observePacket dec (rs_statsSession s) packet s;
          s1 = s\<lparr>rs_packetKeys := packetKeys, rs_observationKeys := observationKeys\<rparr>
      in if nextPackets = None \<and> nextStats = None then s1
         else emit (s1\<lparr>rs_packets := coalesce nextPackets (rs_packets s),
                       rs_statsSession := coalesce nextStats (rs_statsSession s)\<rparr>))"

definition clearRawPackets :: "raw_store \<Rightarrow> raw_store" where
  "clearRawPackets s = (if rs_packets s = [] then s else emit (s\<lparr>rs_packets := [], rs_packetKeys := []\<rparr>))"

definition resetRawPacketStore :: "int \<Rightarrow> raw_store \<Rightarrow> raw_store" where
  "resetRawPacketStore nowMs s =
     emit (rebuildKeyIndexes (s\<lparr>rs_packets := [], rs_statsSession := createStatsSession nowMs\<rparr>))"

definition seedRawPacketStore :: "raw_packet list option \<Rightarrow> stats_session option \<Rightarrow> raw_store \<Rightarrow> raw_store" where
  "seedRawPacketStore packets session s =
     emit (rebuildKeyIndexes
       (s\<lparr>rs_packets := coalesce packets (rs_packets s),
          rs_statsSession := coalesce session (rs_statsSession s)\<rparr>))"

section \<open>Clock offset and history bounds\<close>

definition OFFSET_SAMPLE_SIZE :: nat where
  "OFFSET_SAMPLE_SIZE = 15"

text \<open>
  A packet's timestamp is an integer, so the test \<^verbatim>\<open>Number.isFinite\<close> always succeeds on it.
\<close>

fun collect_samples :: "raw_packet list \<Rightarrow> int list \<Rightarrow> int list" where
  "collect_samples [] samples = samples"
| "collect_samples (p # ps) samples =
     (if length samples < OFFSET_SAMPLE_SIZE then
        (case rp_received_at_ms p of
           None \<Rightarrow> collect_samples ps samples
         | Some ms \<Rightarrow> collect_samples ps (samples @ [ms div 1000 - rp_timestamp p]))
      else samples)"

definition measureServerClockOffsetSec :: "raw_packet list \<Rightarrow> int option" where
  "measureServerClockOffsetSec packets =
     (let samples = collect_samples (rev packets) [] in
      if length samples = 0 then None
      else Some (js_sort (\<lambda>a b. a - b) samples ! (length samples div 2)))"

definition estimateServerClockOffsetSec :: "raw_packet list \<Rightarrow> int" where
  "estimateServerClockOffsetSec packets = coalesce (measureServerClockOffsetSec packets) 0"

datatype history_period = HP1h | HP24h | HP7d | HPCustom

fun HISTORY_PERIOD_SECONDS :: "history_period \<Rightarrow> int" where
  "HISTORY_PERIOD_SECONDS HP1h = 3600"
| "HISTORY_PERIOD_SECONDS HP24h = 86400"
| "HISTORY_PERIOD_SECONDS HP7d = 7 * 86400"
| "HISTORY_PERIOD_SECONDS HPCustom = 0"

text \<open>\<open>parseDate\<close> is \<^verbatim>\<open>new Date(s).getTime()\<close> in the browser's time zone, \<open>None\<close> for \<^verbatim>\<open>NaN\<close>.\<close>

definition toUnixSeconds :: "(string \<Rightarrow> int option) \<Rightarrow> string \<Rightarrow> int option" where
  "toUnixSeconds parseDate localValue =
     (if localValue = [] then None else map_option (\<lambda>ms. ms div 1000) (parseDate localValue))"

record history_bounds =
  hb_since :: "int option"
  hb_until :: "int option"
  hb_invalid :: bool

definition resolveHistoryBounds ::
    "(string \<Rightarrow> int option) \<Rightarrow> history_period \<Rightarrow> string \<Rightarrow> string \<Rightarrow> int \<Rightarrow> int \<Rightarrow> history_bounds" where
  "resolveHistoryBounds parseDate period customSince customUntil serverClockOffsetSec browserNowMs =
     (if period = HPCustom then
        let since = toUnixSeconds parseDate customSince; until = toUnixSeconds parseDate customUntil in
        \<lparr>hb_since = since, hb_until = until,
         hb_invalid = (case (since, until) of (Some a, Some b) \<Rightarrow> b < a | _ \<Rightarrow> False)\<rparr>
      else
        let serverNow = browserNowMs div 1000 - serverClockOffsetSec in
        \<lparr>hb_since = Some (serverNow - HISTORY_PERIOD_SECONDS period), hb_until = None, hb_invalid = False\<rparr>)"

definition getServerClockOffsetSec :: "raw_store \<Rightarrow> int" where
  "getServerClockOffsetSec s = estimateServerClockOffsetSec (rs_packets s)"

definition getMeasuredServerClockOffsetSec :: "raw_store \<Rightarrow> int option" where
  "getMeasuredServerClockOffsetSec s = measureServerClockOffsetSec (rs_packets s)"

section \<open>The invariant\<close>

text \<open>
  The key indexes mirror the two buffers, which hold no key twice and stay in their bounds, and
  every observation was either kept or counted as trimmed.
\<close>

definition mirrors :: "('a \<Rightarrow> string) \<Rightarrow> string list \<Rightarrow> 'a list \<Rightarrow> bool" where
  "mirrors key ks xs \<longleftrightarrow> set ks = key ` set xs \<and> distinct (map key xs)"

definition stats_ok :: "stats_session \<Rightarrow> bool" where
  "stats_ok ss \<longleftrightarrow>
     length (ss_observations ss) \<le> MAX_RAW_PACKET_STATS_OBSERVATIONS \<and>
     ss_totalObservedPackets ss = ss_trimmedObservationCount ss + length (ss_observations ss)"

definition raw_ok :: "nat \<Rightarrow> raw_store \<Rightarrow> bool" where
  "raw_ok cap s \<longleftrightarrow>
     mirrors getRawPacketObservationKey (rs_packetKeys s) (rs_packets s) \<and>
     mirrors so_observationKey (rs_observationKeys s) (ss_observations (rs_statsSession s)) \<and>
     length (rs_packets s) \<le> cap \<and> stats_ok (rs_statsSession s)"

datatype raw_event =
    RRecord int raw_packet
  | RClear
  | RReset int
  | RSeed "raw_packet list option" "stats_session option"

fun raw_step :: "decoder \<Rightarrow> nat \<Rightarrow> raw_event \<Rightarrow> raw_store \<Rightarrow> raw_store" where
  "raw_step dec cap (RRecord nowMs p) s = recordRawPacket dec nowMs cap p s"
| "raw_step dec cap RClear s = clearRawPackets s"
| "raw_step dec cap (RReset nowMs) s = resetRawPacketStore nowMs s"
| "raw_step dec cap (RSeed ps ss) s = seedRawPacketStore ps ss s"

text \<open>A seed has to be a state the store could have: no key twice, within the bounds.\<close>

fun seed_ok :: "nat \<Rightarrow> raw_event \<Rightarrow> bool" where
  "seed_ok cap (RSeed ps ss) =
     ((case ps of None \<Rightarrow> True
       | Some xs \<Rightarrow> distinct (map getRawPacketObservationKey xs) \<and> length xs \<le> cap) \<and>
      (case ss of None \<Rightarrow> True
       | Some x \<Rightarrow> distinct (map so_observationKey (ss_observations x)) \<and> stats_ok x))"
| "seed_ok cap _ = True"

lemma set_fold_removeAll [simp]: "set (fold removeAll zs ks) = set ks - set zs"
  by (induction zs arbitrary: ks) auto

lemma mirrors_add:
  "mirrors key ks xs \<Longrightarrow> key x \<notin> set ks \<Longrightarrow> mirrors key (js_add (key x) ks) (xs @ [x])"
  by (auto simp: mirrors_def)

lemma mirrors_trim:
  assumes "mirrors key ks xs"
  shows "mirrors key (fold removeAll (map key (take n xs)) ks) (drop n xs)"
proof -
  have "distinct (map key (take n xs) @ map key (drop n xs))"
    using assms by (simp add: mirrors_def flip: map_append)
  moreover have "key ` set xs = key ` set (take n xs) \<union> key ` set (drop n xs)"
    by (metis append_take_drop_id image_Un set_append)
  ultimately show ?thesis using assms by (auto simp: mirrors_def)
qed

lemma mirrors_js_set: "distinct (map key xs) \<Longrightarrow> mirrors key (js_set (map key xs)) xs"
  by (simp add: mirrors_def)

lemma mirrors_Nil [simp]: "mirrors key [] []"
  by (simp add: mirrors_def)

lemma append_packet_mirrors:
  assumes "mirrors getRawPacketObservationKey (rs_packetKeys s) (rs_packets s)"
  shows "mirrors getRawPacketObservationKey (snd (appendPacket p cap s))
     (coalesce (fst (appendPacket p cap s)) (rs_packets s))"
  using assms
  by (auto simp: appendPacket_def Let_def coalesce_def simp del: take_append drop_append
      intro: mirrors_trim mirrors_add)

lemma append_packet_items:
  "coalesce (fst (appendPacket p cap s)) (rs_packets s) =
     (if getRawPacketObservationKey p \<in> set (rs_packetKeys s) then rs_packets s
      else drop (length (rs_packets s) + 1 - cap) (rs_packets s @ [p]))"
  by (simp add: appendPacket_def Let_def coalesce_def)

lemma observe_packet_mirrors:
  assumes "mirrors so_observationKey (rs_observationKeys s) (ss_observations ss)"
  shows "mirrors so_observationKey (snd (observePacket dec ss p s))
     (ss_observations (coalesce (fst (observePacket dec ss p s)) ss))"
  using assms
  by (auto simp: observePacket_def Let_def coalesce_def simp del: take_append drop_append
      intro: mirrors_trim mirrors_add)

lemma observe_packet_items:
  "ss_observations (coalesce (fst (observePacket dec ss p s)) ss) =
     (if so_observationKey (summarizeRawPacketForStats dec p) \<in> set (rs_observationKeys s) then ss_observations ss
      else drop (length (ss_observations ss) + 1 - MAX_RAW_PACKET_STATS_OBSERVATIONS)
        (ss_observations ss @ [summarizeRawPacketForStats dec p]))"
  by (simp add: observePacket_def Let_def coalesce_def)

lemma observe_packet_stats_ok:
  "stats_ok ss \<Longrightarrow> stats_ok (coalesce (fst (observePacket dec ss p s)) ss)"
  by (auto simp: observePacket_def Let_def coalesce_def stats_ok_def)

lemmas raw_defs = recordRawPacket_def emit_def Let_def coalesce_def

lemma record_fields:
  "rs_packets (recordRawPacket dec n cap p s) = coalesce (fst (appendPacket (stamp n p) cap s)) (rs_packets s)"
  "rs_packetKeys (recordRawPacket dec n cap p s) = snd (appendPacket (stamp n p) cap s)"
  "rs_statsSession (recordRawPacket dec n cap p s) =
     coalesce (fst (observePacket dec (rs_statsSession s) (stamp n p) s)) (rs_statsSession s)"
  "rs_observationKeys (recordRawPacket dec n cap p s) = snd (observePacket dec (rs_statsSession s) (stamp n p) s)"
  by (auto simp: raw_defs split: prod.splits option.splits)

lemma record_ok [js_inv]: "raw_ok cap s \<Longrightarrow> raw_ok cap (recordRawPacket dec n cap p s)"
  unfolding raw_ok_def record_fields
  using append_packet_mirrors [of s "stamp n p" cap] observe_packet_mirrors [of s "rs_statsSession s" dec "stamp n p"]
  by (auto simp: append_packet_items intro: observe_packet_stats_ok simp del: drop_append)

lemma clear_ok [js_inv]: "raw_ok cap s \<Longrightarrow> raw_ok cap (clearRawPackets s)"
  by (auto simp: raw_ok_def clearRawPackets_def emit_def)

lemma seed_store_ok:
  "raw_ok cap s \<Longrightarrow> seed_ok cap (RSeed ps ss) \<Longrightarrow> raw_ok cap (seedRawPacketStore ps ss s)"
  by (auto simp: raw_ok_def seedRawPacketStore_def emit_def rebuildKeyIndexes_def coalesce_def
      intro!: mirrors_js_set split: option.splits) (auto simp: mirrors_def)

lemma reset_ok [js_inv]: "raw_ok cap (resetRawPacketStore n s)"
  by (auto simp: raw_ok_def resetRawPacketStore_def emit_def rebuildKeyIndexes_def createStatsSession_def
      stats_ok_def js_set_def)

lemma init_ok [js_inv]: "raw_ok cap (raw_store_init n)"
  by (auto simp: raw_ok_def raw_store_init_def createStatsSession_def stats_ok_def)

interpretation raw_machine: event_machine "raw_step dec cap" "raw_ok cap" "seed_ok cap" for dec cap
proof unfold_locales
  fix s e
  assume "raw_ok cap s" and "seed_ok cap e"
  then show "raw_ok cap (raw_step dec cap e s)"
    by (cases e) (auto intro: js_inv seed_store_ok simp del: seed_ok.simps)
qed

abbreviation record_at :: "decoder \<Rightarrow> nat \<Rightarrow> int \<times> raw_packet \<Rightarrow> raw_store \<Rightarrow> raw_store" where
  "record_at dec cap e \<equiv> recordRawPacket dec (fst e) cap (snd e)"

lemma indexed_keys:
  assumes "raw_ok cap s"
  shows "set (rs_packetKeys s) = getRawPacketObservationKey ` set (rs_packets s)"
    and "set (rs_observationKeys s) = so_observationKey ` set (ss_observations (rs_statsSession s))"
  using assms by (auto simp: raw_ok_def mirrors_def)

interpretation packet_buffer: dedup_buffer cap "\<lambda>e. stamp (fst e) (snd e)" getRawPacketObservationKey
  "record_at dec cap" rs_packets "raw_ok cap" for dec cap
  by unfold_locales (simp_all add: record_fields append_packet_items indexed_keys record_ok del: drop_append)

interpretation observation_buffer: dedup_buffer MAX_RAW_PACKET_STATS_OBSERVATIONS
  "\<lambda>e. summarizeRawPacketForStats dec (stamp (fst e) (snd e))" so_observationKey
  "record_at dec cap" "\<lambda>s. ss_observations (rs_statsSession s)" "raw_ok cap" for dec cap
  by unfold_locales (simp_all add: record_fields observe_packet_items indexed_keys record_ok del: drop_append)

section \<open>The clock offset\<close>

lemma collect_samples_offsets:
  "collect_samples ps acc =
     (if OFFSET_SAMPLE_SIZE \<le> length acc then acc
      else acc @ take (OFFSET_SAMPLE_SIZE - length acc)
        (List.map_filter (\<lambda>p. map_option (\<lambda>ms. ms div 1000 - rp_timestamp p) (rp_received_at_ms p)) ps))"
  by (induction ps arbitrary: acc)
    (auto simp: map_filter_simps take_Cons' Suc_diff_Suc split: option.splits)

definition live_offsets :: "raw_packet list \<Rightarrow> int list" where
  "live_offsets ps =
     take OFFSET_SAMPLE_SIZE
       (List.map_filter (\<lambda>p. map_option (\<lambda>ms. ms div 1000 - rp_timestamp p) (rp_received_at_ms p)) (rev ps))"

lemma collect_live_offsets: "collect_samples (rev ps) [] = live_offsets ps"
  by (simp add: collect_samples_offsets live_offsets_def OFFSET_SAMPLE_SIZE_def)

lemma count_sorted_prefix:
  assumes "i \<le> length xs" and "\<And>j. j < i \<Longrightarrow> \<not> P (xs ! j)"
  shows "length (filter P xs) \<le> length xs - i"
proof -
  have "filter P (take i xs) = []"
    using assms by (auto simp: filter_empty_conv in_set_conv_nth)
  then have "filter P xs = filter P (drop i xs)"
    by (metis append_Nil append_take_drop_id filter_append)
  then show ?thesis by (metis length_drop length_filter_le)
qed

lemma count_sorted_suffix:
  assumes "i \<le> length xs" and "\<And>j. i \<le> j \<Longrightarrow> j < length xs \<Longrightarrow> \<not> P (xs ! j)"
  shows "length (filter P xs) \<le> i"
proof -
  have "filter P (drop i xs) = []"
    using assms by (auto simp: filter_empty_conv in_set_conv_nth)
  then have "filter P xs = filter P (take i xs)"
    by (metis append_Nil2 append_take_drop_id filter_append)
  then show ?thesis by (metis length_filter_le length_take min.bounded_iff assms(1) min_def)
qed

text \<open>The middle of a sorted list lies in every interval that holds more than half of it.\<close>

lemma median_majority:
  fixes xs :: "int list"
  assumes "sorted xs" and m: "length xs < 2 * length (filter (\<lambda>x. lo \<le> x \<and> x \<le> hi) xs)"
  shows "lo \<le> xs ! (length xs div 2) \<and> xs ! (length xs div 2) \<le> hi"
proof -
  let ?i = "length xs div 2" and ?P = "\<lambda>x. lo \<le> x \<and> x \<le> hi"
  have i: "?i < length xs" using m by (cases xs) auto
  have "lo \<le> xs ! ?i"
  proof (rule ccontr)
    assume low: "\<not> lo \<le> xs ! ?i"
    have "\<not> ?P (xs ! j)" if "j < Suc ?i" for j
      using sorted_nth_mono [OF assms(1), of j ?i] that i low by auto
    from count_sorted_prefix [of "Suc ?i" xs ?P, OF _ this] i m show False by linarith
  qed
  moreover have "xs ! ?i \<le> hi"
  proof (rule ccontr)
    assume high: "\<not> xs ! ?i \<le> hi"
    have "\<not> ?P (xs ! j)" if "?i \<le> j" "j < length xs" for j
      using sorted_nth_mono [OF assms(1), of ?i j] that high by auto
    from count_sorted_suffix [of ?i xs ?P, OF _ this] i m show False by linarith
  qed
  ultimately show ?thesis by simp
qed

lemma measure_is_median:
  "live_offsets ps \<noteq> [] \<Longrightarrow>
     measureServerClockOffsetSec ps = Some (sort (live_offsets ps) ! (length (live_offsets ps) div 2))"
  by (simp add: measureServerClockOffsetSec_def collect_live_offsets js_sort_key [of _ "\<lambda>x. x"] Let_def)

section \<open>Properties\<close>

text \<open>
  C9: The key indexes of the store never drift from what they index. After any sequence of records,
  clears, resets and seeds, the buffer and the observations hold no key twice and stay within their
  bounds, each index holds exactly the buffered keys, and the number of observed packets is the
  number kept plus the number trimmed.
\<close>

theorem raw_store_indexes_mirror:
  assumes "list_all (seed_ok cap) es"
  shows "let s = fold (raw_step dec cap) es (raw_store_init nowMs) in
     set (rs_packetKeys s) = getRawPacketObservationKey ` set (rs_packets s) \<and>
     set (rs_observationKeys s) = so_observationKey ` set (ss_observations (rs_statsSession s)) \<and>
     distinct (map getRawPacketObservationKey (rs_packets s)) \<and> length (rs_packets s) \<le> cap \<and>
     distinct (map so_observationKey (ss_observations (rs_statsSession s))) \<and>
     length (ss_observations (rs_statsSession s)) \<le> 20000 \<and>
     ss_totalObservedPackets (rs_statsSession s) =
       ss_trimmedObservationCount (rs_statsSession s) + length (ss_observations (rs_statsSession s))"
  using raw_machine.run_inv [OF init_ok assms]
  by (simp add: raw_ok_def mirrors_def stats_ok_def MAX_RAW_PACKET_STATS_OBSERVATIONS_def Let_def)

definition sample_raw :: "int \<Rightarrow> int \<Rightarrow> raw_packet" where
  "sample_raw i t =
     \<lparr>rp_id = i, rp_observation_id = None, rp_timestamp = t, rp_received_at_ms = None, rp_data = ''1100'',
      rp_payload_type = ''Unknown'', rp_snr = None, rp_rssi = None, rp_decrypted = False,
      rp_decrypted_info = None, rp_transport_code = None, rp_region = None, rp_packet_hash = None\<rparr>"

definition silent_decoder :: decoder where
  "silent_decoder =
     \<lparr>dec_decode = (\<lambda>_. None), dec_payloadTypeName = (\<lambda>_. ''Unknown''), dec_routeTypeName = (\<lambda>_. ''Unknown'')\<rparr>"

theorem raw_store_indexes_mirror_witness:
  "let s = fold (raw_step silent_decoder 1)
             [RRecord 5000 (sample_raw 1 4), RRecord 6000 (sample_raw 2 5), RRecord 6000 (sample_raw 2 5), RClear,
              RSeed (Some [sample_raw 3 6]) None] (raw_store_init 0) in
     set (rs_packetKeys s) = getRawPacketObservationKey ` set (rs_packets s) \<and>
     ss_totalObservedPackets (rs_statsSession s) =
       ss_trimmedObservationCount (rs_statsSession s) + length (ss_observations (rs_statsSession s))"
  using raw_store_indexes_mirror [of 1 "[RRecord 5000 (sample_raw 1 4), RRecord 6000 (sample_raw 2 5),
      RRecord 6000 (sample_raw 2 5), RClear, RSeed (Some [sample_raw 3 6]) None]" silent_decoder 0]
  by (simp add: Let_def)

text \<open>
  C10: The indexed append is the plain one. In every state whose indexes mirror its buffers,
  recording a packet gives exactly the buffer that \<open>appendRawPacketUnique\<close> computes by scanning.
\<close>

theorem indexed_append_is_reference:
  assumes "raw_ok cap s" and "0 < cap"
  shows "rs_packets (recordRawPacket dec nowMs cap p s) = appendRawPacketUnique (rs_packets s) (stamp nowMs p) cap"
proof -
  have "getRawPacketObservationKey q \<in> set (rs_packetKeys s) \<longleftrightarrow>
      list_ex (\<lambda>p. getRawPacketObservationKey p = getRawPacketObservationKey q) (rs_packets s)" for q
    by (simp add: indexed_keys [OF assms(1)] list_ex_iff image_iff eq_commute)
  then show ?thesis
    using assms(2) unfolding record_fields append_packet_items
    by (simp add: appendRawPacketUnique_def slice_from_def Let_def nat_diff_distrib nat_add_distrib del: drop_append)
qed

theorem indexed_append_is_reference_witness:
  "rs_packets (recordRawPacket silent_decoder 7000 2 (sample_raw 1 4) (raw_store_init 0)) =
     appendRawPacketUnique [] (stamp 7000 (sample_raw 1 4)) 2"
  using indexed_append_is_reference [OF init_ok, of 2 silent_decoder 7000 "sample_raw 1 4" 0]
  by (simp add: raw_store_init_def)

text \<open>
  A stream of packets with different keys leaves the last \<open>cap\<close> of them in the buffer, in their
  order, each stamped with the time it was received, and a clear leaves the session statistics alone.
\<close>

theorem raw_buffer_keeps_latest:
  assumes "distinct (map (getRawPacketObservationKey \<circ> snd) feed)"
  shows "let s = fold (record_at dec cap) feed (raw_store_init t0) in
     rs_packets s = drop (length feed - cap) (map (\<lambda>(n, p). stamp n p) feed) \<and>
     rs_packets (clearRawPackets s) = [] \<and> rs_statsSession (clearRawPackets s) = rs_statsSession s"
proof -
  have key: "getRawPacketObservationKey (stamp n p) = getRawPacketObservationKey p" for n p
    by (simp add: stamp_def getRawPacketObservationKey_def split: option.split)
  have "distinct (map (getRawPacketObservationKey \<circ> (\<lambda>e. stamp (fst e) (snd e))) feed)"
    using assms by (simp add: comp_def key)
  from packet_buffer.buffer_keeps_latest [OF init_ok [of cap t0] _ this]
  show ?thesis by (simp add: raw_store_init_def Let_def clearRawPackets_def emit_def case_prod_unfold)
qed

theorem raw_buffer_keeps_latest_witness:
  "rs_packets (fold (record_at silent_decoder 2) [(5000, sample_raw 1 4), (6000, sample_raw 2 5), (7000, sample_raw 3 6)]
     (raw_store_init 0)) = [stamp 6000 (sample_raw 2 5), stamp 7000 (sample_raw 3 6)]"
proof -
  have "distinct (map (getRawPacketObservationKey \<circ> snd)
      [(5000 :: int, sample_raw 1 4), (6000, sample_raw 2 5), (7000, sample_raw 3 6)])"
    by code_simp
  from raw_buffer_keeps_latest [OF this, of silent_decoder 2 0] show ?thesis by (simp add: Let_def)
qed

text \<open>
  C38: The clock offset is robust. If more than half of the sampled live packets have an offset
  between \<open>lo\<close> and \<open>hi\<close>, the measured offset lies between them, whatever the others say, and so
  the start of a preset history period lies that close to the server's time less the period.
\<close>

theorem clock_offset_robust:
  assumes "length (live_offsets (rs_packets s)) <
      2 * length (filter (\<lambda>d. lo \<le> d \<and> d \<le> hi) (live_offsets (rs_packets s)))"
    and "period \<noteq> HPCustom"
  shows "lo \<le> getServerClockOffsetSec s \<and> getServerClockOffsetSec s \<le> hi \<and>
     getMeasuredServerClockOffsetSec s = Some (getServerClockOffsetSec s) \<and>
     (case hb_since (resolveHistoryBounds parseDate period a b (getServerClockOffsetSec s) nowMs) of
        None \<Rightarrow> False
      | Some t \<Rightarrow> nowMs div 1000 - hi - HISTORY_PERIOD_SECONDS period \<le> t \<and>
                  t \<le> nowMs div 1000 - lo - HISTORY_PERIOD_SECONDS period)"
proof -
  let ?xs = "live_offsets (rs_packets s)"
  have ne: "?xs \<noteq> []" using assms(1) by auto
  have "length (filter P (sort ?xs)) = length (filter P ?xs)" for P
    by (metis mset_filter mset_sort size_mset)
  then have "lo \<le> sort ?xs ! (length ?xs div 2) \<and> sort ?xs ! (length ?xs div 2) \<le> hi"
    using median_majority [of "sort ?xs" lo hi] assms(1) by simp
  then show ?thesis
    using measure_is_median [OF ne] assms(2)
    by (simp add: getServerClockOffsetSec_def getMeasuredServerClockOffsetSec_def
        estimateServerClockOffsetSec_def resolveHistoryBounds_def Let_def coalesce_def)
qed

definition skewed_store :: raw_store where
  "skewed_store = (raw_store_init 0)\<lparr>rs_packets :=
     [stamp 10000 (sample_raw 1 7), stamp 12000 (sample_raw 2 9), stamp 99000 (sample_raw 3 0)]\<rparr>"

theorem clock_offset_robust_witness:
  "3 \<le> getServerClockOffsetSec skewed_store \<and> getServerClockOffsetSec skewed_store \<le> 3"
proof -
  have live: "live_offsets (rs_packets skewed_store) = [99, 3, 3]" by code_simp
  have "length (live_offsets (rs_packets skewed_store)) <
      2 * length (filter (\<lambda>d. 3 \<le> d \<and> d \<le> 3) (live_offsets (rs_packets skewed_store)))"
    unfolding live by simp
  from clock_offset_robust [OF this, of HP1h] show ?thesis by simp
qed

end
