(* ===== verification/ResendWindow.thy ===== *)
theory ResendWindow
  imports MeshTypes
begin

text \<open>
  The window in which a channel message may be sent again byte for byte
  (\<^verbatim>\<open>utils/resendWindow.ts\<close>): when this tab first saw an outgoing message, and how old the message is
  on the browser's clock. The module's map of sightings is passed from operation to operation.
  Times are integers, in milliseconds or seconds as in the code; ages are real numbers of seconds.
\<close>

section \<open>Sightings\<close>

type_synonym sightings = "(int, int) jsmap"

definition RESEND_WINDOW_SECONDS :: int where
  "RESEND_WINDOW_SECONDS = 30"

definition LIVE_SIGHTING_RETENTION_MS :: int where
  "LIVE_SIGHTING_RETENTION_MS = 10 * 60 * 1000"

definition UNMEASURED_FUTURE_TOLERANCE_SEC :: real where
  "UNMEASURED_FUTURE_TOLERANCE_SEC = 2"

definition pruneLiveSightings :: "int \<Rightarrow> sightings \<Rightarrow> sightings" where
  "pruneLiveSightings nowMs m = filter (\<lambda>(i, seenMs). \<not> LIVE_SIGHTING_RETENTION_MS < nowMs - seenMs) m"

definition noteLiveOutgoingChannelMessage :: "message \<Rightarrow> int \<Rightarrow> sightings \<Rightarrow> sightings" where
  "noteLiveOutgoingChannelMessage msg atMs m =
     (if \<not> msg_outgoing msg \<or> msg_type msg \<noteq> CHAN then m
      else
        let m1 = (case jm_get m (msg_id msg) of
                    None \<Rightarrow> jm_set (msg_id msg) atMs m
                  | Some previous \<Rightarrow> if atMs < previous then jm_set (msg_id msg) atMs m else m)
        in pruneLiveSightings atMs m1)"

definition resetLiveOutgoingSightings :: "sightings \<Rightarrow> sightings" where
  "resetLiveOutgoingSightings m = []"

section \<open>Age\<close>

record resend_age =
  ra_ageSec :: real
  ra_authoritative :: bool

definition resendAge :: "message \<Rightarrow> int \<Rightarrow> int option \<Rightarrow> sightings \<Rightarrow> resend_age option" where
  "resendAge msg nowMs measuredOffsetSec m =
     (let nowSec = real_of_int nowMs / 1000 in
      case jm_get m (msg_id msg) of
        Some seenMs \<Rightarrow>
          Some \<lparr>ra_ageSec = max 0 (nowSec - real_of_int seenMs / 1000), ra_authoritative = True\<rparr>
      | None \<Rightarrow>
          (case msg_sender_timestamp msg of
             None \<Rightarrow> None
           | Some ts \<Rightarrow>
               (case measuredOffsetSec of
                  Some off \<Rightarrow>
                    Some \<lparr>ra_ageSec = max 0 (nowSec - real_of_int (ts + off)), ra_authoritative = True\<rparr>
                | None \<Rightarrow>
                    let rawAgeSec = nowSec - real_of_int ts in
                    if rawAgeSec < - UNMEASURED_FUTURE_TOLERANCE_SEC then None
                    else Some \<lparr>ra_ageSec = max 0 rawAgeSec, ra_authoritative = False\<rparr>)))"

definition sendAnchorMs :: "int option \<Rightarrow> int \<Rightarrow> int \<Rightarrow> int option \<Rightarrow> int" where
  "sendAnchorMs senderTimestamp requestStartMs responseMs measuredOffsetSec =
     (case (senderTimestamp, measuredOffsetSec) of
        (Some ts, Some off) \<Rightarrow> min responseMs (max requestStartMs ((ts + off) * 1000))
      | _ \<Rightarrow> responseMs)"

section \<open>Lemmas\<close>

lemma note_wf [js_inv]: "jm_wf m \<Longrightarrow> jm_wf (noteLiveOutgoingChannelMessage msg t m)"
  by (auto simp: noteLiveOutgoingChannelMessage_def pruneLiveSightings_def Let_def
      intro!: jm_wf_filter jm_wf_set split: option.split)

lemma note_get:
  assumes "jm_wf m" and "msg_outgoing msg" "msg_type msg = CHAN"
  shows "jm_get (noteLiveOutgoingChannelMessage msg t m) i =
     (case (if i = msg_id msg then Some (case jm_get m i of None \<Rightarrow> t | Some p \<Rightarrow> min t p) else jm_get m i) of
        None \<Rightarrow> None
      | Some v \<Rightarrow> if LIVE_SIGHTING_RETENTION_MS < t - v then None else Some v)"
proof -
  have w: "jm_wf (jm_set (msg_id msg) t m)" using assms(1) by (rule jm_wf_set)
  show ?thesis
    using assms jm_get_filter [OF w, of "\<lambda>v. \<not> LIVE_SIGHTING_RETENTION_MS < t - v" i]
      jm_get_filter [OF assms(1), of "\<lambda>v. \<not> LIVE_SIGHTING_RETENTION_MS < t - v" i]
    by (auto simp: noteLiveOutgoingChannelMessage_def pruneLiveSightings_def js_map_simps Let_def min_def
        split: option.splits)
qed

lemma first_sighting:
  assumes "jm_wf m" and "jm_get m (msg_id msg) = None" and "msg_outgoing msg" "msg_type msg = CHAN"
  shows "jm_get (noteLiveOutgoingChannelMessage msg t m) (msg_id msg) = Some t"
  using note_get [OF assms(1, 3, 4), of t "msg_id msg"] assms(2) by (simp add: LIVE_SIGHTING_RETENTION_MS_def)

lemma later_sighting:
  assumes "jm_wf m" and "jm_get m i = Some t0" and "t0 \<le> t" "t - t0 \<le> LIVE_SIGHTING_RETENTION_MS"
  shows "jm_get (noteLiveOutgoingChannelMessage msg t m) i = Some t0"
proof (cases "msg_outgoing msg \<and> msg_type msg = CHAN")
  case True
  then show ?thesis using note_get [OF assms(1), of msg t i] assms(2-4) by (auto simp: min_absorb2)
qed (auto simp: noteLiveOutgoingChannelMessage_def assms)

section \<open>Properties\<close>

text \<open>
  The age of a message counts from its first sighting. Once a message was seen at \<open>t0\<close>, whatever
  is seen afterwards within the retention time, at later times and in any order, the age reported
  at \<open>now\<close> is exactly the time since \<open>t0\<close>, and it is authoritative: neither later copies of the
  message nor pruning re-arm the 30 second window.
\<close>

theorem age_counts_from_first_sighting:
  assumes "jm_wf m" and "jm_get m (msg_id msg) = None" and "msg_outgoing msg" "msg_type msg = CHAN"
    and "\<forall>(q, t) \<in> set later. t0 \<le> t \<and> t \<le> t0 + LIVE_SIGHTING_RETENTION_MS" and "t0 \<le> now"
  shows "resendAge msg now off
     (fold (\<lambda>(q, t). noteLiveOutgoingChannelMessage q t) later (noteLiveOutgoingChannelMessage msg t0 m)) =
       Some \<lparr>ra_ageSec = real_of_int (now - t0) / 1000, ra_authoritative = True\<rparr>"
proof -
  have "jm_wf m' \<Longrightarrow> jm_get m' (msg_id msg) = Some t0 \<Longrightarrow>
      jm_get (fold (\<lambda>(q, t). noteLiveOutgoingChannelMessage q t) later m') (msg_id msg) = Some t0" for m'
    using assms(5)
  proof (induction later arbitrary: m')
    case (Cons e later)
    then show ?case by (cases e) (simp add: note_wf later_sighting)
  qed simp
  from this [OF note_wf [OF assms(1)] first_sighting [OF assms(1-4)]]
  show ?thesis using assms(6) by (simp add: resendAge_def Let_def diff_divide_distrib)
qed

definition sent_message :: message where
  "sent_message = (sample_message 7 ''0a'' 100)\<lparr>msg_type := CHAN, msg_outgoing := True\<rparr>"

theorem age_counts_from_first_sighting_witness:
  "resendAge sent_message 12000 None
     (fold (\<lambda>(q, t). noteLiveOutgoingChannelMessage q t) [(sent_message, 9000)]
        (noteLiveOutgoingChannelMessage sent_message 2000 [])) =
     Some \<lparr>ra_ageSec = 10, ra_authoritative = True\<rparr>"
  using age_counts_from_first_sighting [of "[]" sent_message "[(sent_message, 9000)]" 2000 12000 None]
  by (simp add: sent_message_def LIVE_SIGHTING_RETENTION_MS_def)

text \<open>
  The anchor of a message this tab sent lies between the request and its response, and an age is
  never negative.
\<close>

theorem send_anchor_bounds:
  assumes "requestStartMs \<le> responseMs"
  shows "requestStartMs \<le> sendAnchorMs ts requestStartMs responseMs off \<and>
     sendAnchorMs ts requestStartMs responseMs off \<le> responseMs \<and>
     (case resendAge msg now off' m of None \<Rightarrow> True | Some a \<Rightarrow> 0 \<le> ra_ageSec a)"
  using assms
  by (auto simp: sendAnchorMs_def resendAge_def Let_def split: option.splits)

theorem send_anchor_bounds_witness:
  "1000 \<le> sendAnchorMs (Some 5) 1000 3000 (Some (-3)) \<and> sendAnchorMs (Some 5) 1000 3000 (Some (-3)) \<le> 3000"
  using send_anchor_bounds [of 1000 3000 "Some 5" "Some (-3)"] by simp

end
