(* ===== verification/Realtime.thy ===== *)
theory Realtime
  imports Conversation Unread RawStore ResendWindow
begin

text \<open>
  The handlers of the WebSocket events (\<^verbatim>\<open>hooks/useRealtimeAppState.ts\<close>, \<^verbatim>\<open>utils/contactMerge.ts\<close>,
  \<^verbatim>\<open>utils/pubkey.ts\<close>): they route every event to the conversation hook, the unread hook, the raw packet
  store and the lists of contacts and channels, whose models they compose.

  \<open>rt_env\<close> holds what the hook is given and does not define: the comparison of names, the translations,
  the test for mentions, the packet decoder and the size of the packet buffer. Toasts and the calls
  into stores that are modelled elsewhere or not at all are recorded, in order, in \<open>as_effects\<close>.
  The REST snapshots of a reconnect are outstanding requests; their answers arrive as events, in
  any order, each with the generation of its reconnect.
\<close>

section \<open>Names and lists\<close>

definition PUBKEY_PREFIX_LENGTH :: nat where
  "PUBKEY_PREFIX_LENGTH = 12"

definition getPubkeyPrefix :: "string \<Rightarrow> string" where
  "getPubkeyPrefix key = take PUBKEY_PREFIX_LENGTH key"

text \<open>\<^verbatim>\<open>!lastAdvert\<close> holds for null and for 0.\<close>

definition isUnknownFullKeyContact :: "string \<Rightarrow> int option \<Rightarrow> bool" where
  "isUnknownFullKeyContact pubkey lastAdvert \<longleftrightarrow> length pubkey = 64 \<and> (lastAdvert = None \<or> lastAdvert = Some 0)"

definition isPrefixOnlyContact :: "string \<Rightarrow> bool" where
  "isPrefixOnlyContact pubkey \<longleftrightarrow> length pubkey < 64"

definition getContactDisplayName :: "string option \<Rightarrow> string \<Rightarrow> int option \<Rightarrow> string" where
  "getContactDisplayName name pubkey lastAdvert =
     (case or_null name of
        Some n \<Rightarrow> n
      | None \<Rightarrow>
          if isUnknownFullKeyContact pubkey lastAdvert then ''[unknown sender]'' else getPubkeyPrefix pubkey)"

text \<open>
  \<^verbatim>\<open>{ ...existing, ...incoming }\<close>: an optional field that is absent from the incoming object keeps
  its value.
\<close>

datatype optional_field =
    OfDirectPathUpdatedAt | OfOverridePath | OfOverrideLen | OfOverrideHashMode | OfEffectiveRoute
  | OfEffectiveRouteSource | OfDirectRoute | OfRouteOverride | OfPinned

definition spread_contact :: "optional_field list \<Rightarrow> contact \<Rightarrow> contact \<Rightarrow> contact" where
  "spread_contact absent existing incoming =
     incoming\<lparr>
       ct_direct_path_updated_at :=
         (if OfDirectPathUpdatedAt \<in> set absent then ct_direct_path_updated_at existing
          else ct_direct_path_updated_at incoming),
       ct_route_override_path :=
         (if OfOverridePath \<in> set absent then ct_route_override_path existing else ct_route_override_path incoming),
       ct_route_override_len :=
         (if OfOverrideLen \<in> set absent then ct_route_override_len existing else ct_route_override_len incoming),
       ct_route_override_hash_mode :=
         (if OfOverrideHashMode \<in> set absent then ct_route_override_hash_mode existing
          else ct_route_override_hash_mode incoming),
       ct_effective_route :=
         (if OfEffectiveRoute \<in> set absent then ct_effective_route existing else ct_effective_route incoming),
       ct_effective_route_source :=
         (if OfEffectiveRouteSource \<in> set absent then ct_effective_route_source existing
          else ct_effective_route_source incoming),
       ct_direct_route :=
         (if OfDirectRoute \<in> set absent then ct_direct_route existing else ct_direct_route incoming),
       ct_route_override :=
         (if OfRouteOverride \<in> set absent then ct_route_override existing else ct_route_override incoming),
       ct_pinned := (if OfPinned \<in> set absent then ct_pinned existing else ct_pinned incoming)\<rparr>"

definition mergeContactIntoList :: "optional_field list \<Rightarrow> contact list \<Rightarrow> contact \<Rightarrow> contact list" where
  "mergeContactIntoList absent contacts incoming =
     (if list_ex (\<lambda>c. ct_public_key c = ct_public_key incoming) contacts then
        update_first (\<lambda>c. ct_public_key c = ct_public_key incoming)
          (\<lambda>existing. let merged = spread_contact absent existing incoming in
             if merged = existing then existing else merged) contacts
      else contacts @ [incoming])"

definition mergeChannelIntoList :: "(string \<Rightarrow> string \<Rightarrow> int) \<Rightarrow> channel \<Rightarrow> channel list \<Rightarrow> channel list" where
  "mergeChannelIntoList compare updated prev =
     (if \<not> list_ex (\<lambda>c. ch_key c = ch_key updated) prev
      then js_sort (\<lambda>a b. compare (ch_name a) (ch_name b)) (prev @ [updated])
      else update_first (\<lambda>c. ch_key c = ch_key updated) (\<lambda>_. updated) prev)"

text \<open>\<^verbatim>\<open>new Map(live.map(...))\<close>: of two items with the same key the later one counts.\<close>

definition by_key :: "('t \<Rightarrow> string) \<Rightarrow> 't list \<Rightarrow> (string, 't) jsmap" where
  "by_key keyOf xs = fold (\<lambda>x m. jm_set (keyOf x) x m) xs []"

definition mergeSnapshot :: "'t list \<Rightarrow> 't list \<Rightarrow> string list \<Rightarrow> ('t \<Rightarrow> string) \<Rightarrow> 't list" where
  "mergeSnapshot snapshot live touched keyOf =
     (if length touched = 0 then snapshot
      else
        let liveByKey = by_key keyOf live;
            seen = js_set (map keyOf snapshot);
            kept = List.map_filter (\<lambda>item.
              if keyOf item \<notin> set touched then Some item else jm_get liveByKey (keyOf item)) snapshot;
            added = List.map_filter (\<lambda>key.
              if key \<notin> set seen then jm_get liveByKey key else None) touched
        in kept @ added)"

definition isMessageBlocked :: "message \<Rightarrow> string list \<Rightarrow> string list \<Rightarrow> bool" where
  "isMessageBlocked msg blockedKeys blockedNames =
     (if msg_outgoing msg then False
      else if 0 < length blockedKeys \<and> msg_type msg = PRIV \<and>
              to_lower (msg_conversation_key msg) \<in> set blockedKeys then True
      else if 0 < length blockedKeys \<and> msg_type msg = CHAN \<and>
              (case or_null (msg_sender_key msg) of
                 Some k \<Rightarrow> to_lower k \<in> set blockedKeys | None \<Rightarrow> False) then True
      else 0 < length blockedNames \<and>
           (case or_null (msg_sender_name msg) of Some n \<Rightarrow> n \<in> set blockedNames | None \<Rightarrow> False))"

section \<open>State\<close>

datatype radio_state =
    RsConnected | RsInitializing | RsRebooting | RsConnecting | RsDisconnected | RsPaused
  | RsIdentityMismatch | RsIdentityUnboundLegacy

text \<open>The fields of \<^verbatim>\<open>HealthStatus\<close> the handler reads.\<close>

record health_status =
  hs_radio_connected :: bool
  hs_radio_initializing :: bool
  hs_radio_state :: "radio_state option"
  hs_reboot_reason :: "string option"
  hs_connection_info :: "string option"

datatype effect =
    ToastRadioConnected "string option"
  | ToastRadioPaused
  | ToastRadioRebooting bool
  | ToastRadioDisconnected
  | ToastError string "string option"
  | ToastSuccess string "string option"
  | ToastDiscovered string string
  | FetchConfig
  | RefreshUnreads
  | RefreshCommunityStatus
  | RefreshRadioWifi
  | StatusDotPulse string

record snapshot_tracker =
  tr_generation :: nat
  tr_contacts :: "string list"
  tr_channels :: "string list"
  tr_channelsDone :: bool
  tr_contactsDone :: bool

record rt_env =
  env_compare :: "string \<Rightarrow> string \<Rightarrow> int"
  env_translate :: "string \<Rightarrow> string"
  env_mention :: "string \<Rightarrow> bool"
  env_decoder :: decoder
  env_maxRawPackets :: nat

record app_state =
  as_conv :: conv_state
  as_unread :: unread_state
  as_raw :: raw_store
  as_sightings :: sightings
  as_contacts :: "contact list"
  as_channels :: "channel list"
  as_blockedKeys :: "string list"
  as_blockedNames :: "string list"
  as_health :: "health_status option"
  as_target :: "int option"
  as_generation :: nat
  as_snapshots :: "snapshot_tracker list"
  as_pendingDeleteFallback :: bool
  as_effects :: "effect list"

definition note_effect :: "effect \<Rightarrow> app_state \<Rightarrow> app_state" where
  "note_effect e s = s\<lparr>as_effects := as_effects s @ [e]\<rparr>"

text \<open>
  The open conversation changes. The unread hook compares the conversation objects, which are
  always new; the effect of the conversation hook runs when the id, the type or the target message
  differs.
\<close>

definition same_conversation :: "conversation option \<Rightarrow> conversation option \<Rightarrow> bool" where
  "same_conversation a b \<longleftrightarrow> map_option conv_id a = map_option conv_id b \<and> map_option conv_type a = map_option conv_type b"

definition app_open :: "conversation option \<Rightarrow> int option \<Rightarrow> app_state \<Rightarrow> app_state" where
  "app_open conv target s =
     s\<lparr>as_conv :=
         (if same_conversation conv (cv_active (as_conv s)) \<and> target = as_target s
          then (as_conv s)\<lparr>cv_active := conv\<rparr>
          else open_conversation conv target (as_conv s)),
       as_unread := open_tracked conv (as_unread s),
       as_target := target\<rparr>"

definition setActiveConversation :: "conversation option \<Rightarrow> app_state \<Rightarrow> app_state" where
  "setActiveConversation conv s = app_open conv (as_target s) s"

section \<open>Handlers\<close>

definition noteDeltaContacts :: "string list \<Rightarrow> app_state \<Rightarrow> app_state" where
  "noteDeltaContacts keys s =
     s\<lparr>as_snapshots := map (\<lambda>t. t\<lparr>tr_contacts := fold js_add keys (tr_contacts t)\<rparr>) (as_snapshots s)\<rparr>"

definition noteDeltaChannels :: "string list \<Rightarrow> app_state \<Rightarrow> app_state" where
  "noteDeltaChannels keys s =
     s\<lparr>as_snapshots := map (\<lambda>t. t\<lparr>tr_channels := fold js_add keys (tr_channels t)\<rparr>) (as_snapshots s)\<rparr>"

definition nextRadioState :: "health_status \<Rightarrow> radio_state" where
  "nextRadioState data =
     coalesce (hs_radio_state data)
       (if hs_radio_initializing data then RsInitializing
        else if hs_radio_connected data then RsConnected else RsDisconnected)"

definition onHealth :: "health_status \<Rightarrow> app_state \<Rightarrow> app_state" where
  "onHealth data s =
     (let s0 = s\<lparr>as_health := Some data\<rparr> in
      case as_health s of
        None \<Rightarrow> s0
      | Some prev \<Rightarrow>
          let initializationCompleted =
                (hs_radio_connected prev \<and> hs_radio_initializing prev \<and>
                 hs_radio_connected data \<and> \<not> hs_radio_initializing data);
              s1 = (if hs_radio_connected prev \<noteq> hs_radio_connected data then
                      if hs_radio_connected data then
                        note_effect FetchConfig
                          (note_effect (ToastRadioConnected (or_null (hs_connection_info data))) s0)
                      else if nextRadioState data = RsPaused then note_effect ToastRadioPaused s0
                      else if nextRadioState data = RsRebooting then
                        note_effect (ToastRadioRebooting (hs_reboot_reason data = Some ''wifi_config'')) s0
                      else if nextRadioState data \<noteq> RsIdentityMismatch \<and>
                              nextRadioState data \<noteq> RsIdentityUnboundLegacy
                        then note_effect ToastRadioDisconnected s0
                      else s0
                    else s0)
          in if initializationCompleted then note_effect FetchConfig s1 else s1)"

definition onError :: "rt_env \<Rightarrow> string \<Rightarrow> string option \<Rightarrow> string option \<Rightarrow> app_state \<Rightarrow> app_state" where
  "onError env text details code s =
     note_effect
       (case or_null code of
          None \<Rightarrow> ToastError text details
        | Some c \<Rightarrow>
            let key = ''errors.'' @ c; detailKey = key @ ''Detail'';
                translated = env_translate env key; translatedDetail = env_translate env detailKey in
            ToastError (if translated \<noteq> key then translated else text)
              (if translatedDetail \<noteq> detailKey then Some translatedDetail else details)) s"

definition onSuccess :: "rt_env \<Rightarrow> string \<Rightarrow> string option \<Rightarrow> string option \<Rightarrow> app_state \<Rightarrow> app_state" where
  "onSuccess env text details code s =
     note_effect
       (case or_null code of
          None \<Rightarrow> ToastSuccess text details
        | Some c \<Rightarrow>
            let key = ''errors.'' @ c; translated = env_translate env key in
            ToastSuccess (if translated \<noteq> key then translated else text) details) s"

definition onReconnect :: "app_state \<Rightarrow> app_state" where
  "onReconnect s =
     (let s1 = s\<lparr>as_raw := clearRawPackets (as_raw s), as_conv := reconcileOnReconnect (as_conv s)\<rparr>;
          s2 = note_effect RefreshRadioWifi (note_effect RefreshCommunityStatus (note_effect RefreshUnreads s1));
          generation = as_generation s + 1
      in s2\<lparr>as_generation := generation,
            as_snapshots := as_snapshots s2 @
              [\<lparr>tr_generation = generation, tr_contacts = [], tr_channels = [], tr_channelsDone = False,
                tr_contactsDone = False\<rparr>]\<rparr>)"

text \<open>
  The answers to the two requests of a reconnect, \<open>None\<close> for a failure. When both have come the
  tracker is dropped.
\<close>

definition settle_tracker :: "nat \<Rightarrow> (snapshot_tracker \<Rightarrow> snapshot_tracker) \<Rightarrow> app_state \<Rightarrow> app_state" where
  "settle_tracker gen done s =
     s\<lparr>as_snapshots :=
         filter (\<lambda>t. \<not> (tr_channelsDone t \<and> tr_contactsDone t))
           (map (\<lambda>t. if tr_generation t = gen then done t else t) (as_snapshots s))\<rparr>"

definition channels_answer :: "nat \<Rightarrow> channel list option \<Rightarrow> app_state \<Rightarrow> app_state" where
  "channels_answer gen answer s =
     (case find (\<lambda>t. tr_generation t = gen \<and> \<not> tr_channelsDone t) (as_snapshots s) of
        None \<Rightarrow> s
      | Some tracker \<Rightarrow>
          settle_tracker gen (\<lambda>t. t\<lparr>tr_channelsDone := True\<rparr>)
            (case answer of
               None \<Rightarrow> s
             | Some data \<Rightarrow>
                 if gen \<noteq> as_generation s then s
                 else s\<lparr>as_channels := mergeSnapshot data (as_channels s) (tr_channels tracker) ch_key\<rparr>))"

definition contacts_answer :: "nat \<Rightarrow> contact list option \<Rightarrow> app_state \<Rightarrow> app_state" where
  "contacts_answer gen answer s =
     (case find (\<lambda>t. tr_generation t = gen \<and> \<not> tr_contactsDone t) (as_snapshots s) of
        None \<Rightarrow> s
      | Some tracker \<Rightarrow>
          settle_tracker gen (\<lambda>t. t\<lparr>tr_contactsDone := True\<rparr>)
            (case answer of
               None \<Rightarrow> s
             | Some data \<Rightarrow>
                 if gen \<noteq> as_generation s then s
                 else s\<lparr>as_contacts := mergeSnapshot data (as_contacts s) (tr_contacts tracker) ct_public_key\<rparr>))"

definition onMessage :: "rt_env \<Rightarrow> int \<Rightarrow> message \<Rightarrow> app_state \<Rightarrow> app_state" where
  "onMessage env nowMs msg s =
     (let s0 = s\<lparr>as_sightings := noteLiveOutgoingChannelMessage msg nowMs (as_sightings s)\<rparr> in
      if isMessageBlocked msg (as_blockedKeys s) (as_blockedNames s) then s0
      else
        let isMutedChannel =
              (msg_type msg = CHAN \<and> msg_conversation_key msg \<noteq> [] \<and>
               list_ex (\<lambda>c. ch_key c = msg_conversation_key msg \<and> ch_muted c) (as_channels s));
            (conv', obs) = observeMessage msg (as_conv s0);
            s1 = s0\<lparr>as_conv := conv'\<rparr>
        in if isMutedChannel then s1
           else s1\<lparr>as_unread :=
                  recordMessageEvent (nowMs div 1000) msg (ob_activeConversation obs) (ob_added obs)
                    (env_mention env (msg_text msg)) (as_unread s1)\<rparr>)"

definition onContact :: "optional_field list \<Rightarrow> contact \<Rightarrow> app_state \<Rightarrow> app_state" where
  "onContact absent contact s =
     (let s1 = noteDeltaContacts [ct_public_key contact] s in
      s1\<lparr>as_contacts := mergeContactIntoList absent (as_contacts s1) contact\<rparr>)"

definition is_open :: "conversation_type \<Rightarrow> string \<Rightarrow> app_state \<Rightarrow> bool" where
  "is_open t key s =
     (case cv_active (as_conv s) of None \<Rightarrow> False | Some c \<Rightarrow> conv_type c = t \<and> conv_id c = key)"

definition plain_conversation :: "conversation_type \<Rightarrow> string \<Rightarrow> string \<Rightarrow> conversation" where
  "plain_conversation t key name =
     \<lparr>conv_type = t, conv_id = key, conv_name = name, conv_mapFocusKey = None, conv_locateKey = None\<rparr>"

definition onContactResolved :: "string \<Rightarrow> optional_field list \<Rightarrow> contact \<Rightarrow> app_state \<Rightarrow> app_state" where
  "onContactResolved previous absent contact s =
     (let key = ct_public_key contact;
          s1 = noteDeltaContacts [previous, key] s;
          s2 = s1\<lparr>as_contacts := mergeContactIntoList absent
                 (filter (\<lambda>c. ct_public_key c \<noteq> previous) (as_contacts s1)) contact,
               as_conv := renameConversationMessages previous key (as_conv s1),
               as_unread := renameConversationState (getStateKey TrackedContact previous)
                 (getStateKey TrackedContact key) (as_unread s1)\<rparr>
      in if is_open ConvContact previous s2
         then setActiveConversation
                (Some (plain_conversation ConvContact key
                   (getContactDisplayName (ct_name contact) key (ct_last_advert contact)))) s2
         else s2)"

definition onChannel :: "rt_env \<Rightarrow> channel \<Rightarrow> app_state \<Rightarrow> app_state" where
  "onChannel env channel s =
     (let s1 = noteDeltaChannels [ch_key channel] s;
          existed = list_ex (\<lambda>c. ch_key c = ch_key channel) (as_channels s);
          s2 = s1\<lparr>as_channels := mergeChannelIntoList (env_compare env) channel (as_channels s1)\<rparr>
      in if \<not> existed \<and> ch_membership channel = Some Pending
         then note_effect (ToastDiscovered (ch_name channel) (ch_key channel)) s2 else s2)"

definition onContactDeleted :: "string \<Rightarrow> app_state \<Rightarrow> app_state" where
  "onContactDeleted key s =
     (let s1 = noteDeltaContacts [key] s;
          s2 = s1\<lparr>as_contacts := filter (\<lambda>c. ct_public_key c \<noteq> key) (as_contacts s1),
                  as_conv := removeConversationMessages key (as_conv s1),
                  as_unread := removeConversationState (getStateKey TrackedContact key) (as_unread s1)\<rparr>
      in if is_open ConvContact key s2
         then setActiveConversation None (s2\<lparr>as_pendingDeleteFallback := True\<rparr>) else s2)"

definition onChannelDeleted :: "string \<Rightarrow> app_state \<Rightarrow> app_state" where
  "onChannelDeleted key s =
     (let s1 = noteDeltaChannels [key] s;
          s2 = s1\<lparr>as_channels := filter (\<lambda>c. ch_key c \<noteq> key) (as_channels s1),
                  as_conv := removeConversationMessages key (as_conv s1),
                  as_unread := removeConversationState (getStateKey TrackedChannel key) (as_unread s1)\<rparr>
      in if is_open ConvChannel key s2
         then setActiveConversation None (s2\<lparr>as_pendingDeleteFallback := True\<rparr>) else s2)"

definition onRawPacket :: "rt_env \<Rightarrow> int \<Rightarrow> raw_packet \<Rightarrow> app_state \<Rightarrow> app_state" where
  "onRawPacket env nowMs packet s =
     (let s1 = note_effect (StatusDotPulse (rp_payload_type packet)) s in
      s1\<lparr>as_raw := recordRawPacket (env_decoder env) nowMs (env_maxRawPackets env) packet (as_raw s1)\<rparr>)"

definition onMessageAcked ::
  "int \<Rightarrow> int \<Rightarrow> message_path list option \<Rightarrow> int option option \<Rightarrow> ack_extras \<Rightarrow> app_state \<Rightarrow> app_state" where
  "onMessageAcked messageId ackCount paths packetId extras s =
     s\<lparr>as_conv := receiveMessageAck messageId ackCount paths packetId extras (as_conv s)\<rparr>"

definition onMessageDeleted :: "int \<Rightarrow> app_state \<Rightarrow> app_state" where
  "onMessageDeleted messageId s = s\<lparr>as_conv := removeMessage messageId (as_conv s)\<rparr>"

section \<open>The machine\<close>

text \<open>
  Besides the socket events: the answers of the backend, and what the user does (opening a
  conversation, paging, marking everything as read).
\<close>

datatype app_event =
    AHealth health_status
  | AError string "string option" "string option"
  | ASuccess string "string option" "string option"
  | AReconnect
  | AChannelsAnswer nat "channel list option"
  | AContactsAnswer nat "contact list option"
  | AMessage int message
  | AContact "optional_field list" contact
  | AContactResolved string "optional_field list" contact
  | AChannel channel
  | AContactDeleted string
  | AChannelDeleted string
  | ARawPacket int raw_packet
  | AMessageAcked int int "message_path list option" "int option option" ack_extras
  | AMessageDeleted int
  | AOpen "conversation option" "int option"
  | AOlder
  | ANewer
  | AJumpToBottom
  | AReload
  | AResponse request response
  | AUnreads "unread_counts option"
  | AMarkAllRead

fun app_step :: "rt_env \<Rightarrow> app_event \<Rightarrow> app_state \<Rightarrow> app_state" where
  "app_step env (AHealth d) s = onHealth d s"
| "app_step env (AError t d c) s = onError env t d c s"
| "app_step env (ASuccess t d c) s = onSuccess env t d c s"
| "app_step env AReconnect s = onReconnect s"
| "app_step env (AChannelsAnswer g a) s = channels_answer g a s"
| "app_step env (AContactsAnswer g a) s = contacts_answer g a s"
| "app_step env (AMessage n m) s = onMessage env n m s"
| "app_step env (AContact ab c) s = onContact ab c s"
| "app_step env (AContactResolved p ab c) s = onContactResolved p ab c s"
| "app_step env (AChannel c) s = onChannel env c s"
| "app_step env (AContactDeleted k) s = onContactDeleted k s"
| "app_step env (AChannelDeleted k) s = onChannelDeleted k s"
| "app_step env (ARawPacket n p) s = onRawPacket env n p s"
| "app_step env (AMessageAcked i n ps pid ex) s = onMessageAcked i n ps pid ex s"
| "app_step env (AMessageDeleted i) s = onMessageDeleted i s"
| "app_step env (AOpen c t) s = app_open c t s"
| "app_step env AOlder s = s\<lparr>as_conv := fetchOlderMessages (as_conv s)\<rparr>"
| "app_step env ANewer s = s\<lparr>as_conv := fetchNewerMessages (as_conv s)\<rparr>"
| "app_step env AJumpToBottom s = s\<lparr>as_conv := jumpToBottom (as_conv s)\<rparr>"
| "app_step env AReload s =
     s\<lparr>as_conv := conversation_effect (as_target s) (reloadCurrentConversation (as_conv s))\<rparr>"
| "app_step env (AResponse q r) s = s\<lparr>as_conv := deliver q r (as_conv s)\<rparr>"
| "app_step env (AUnreads a) s = s\<lparr>as_unread := fetchUnreads a (as_unread s)\<rparr>"
| "app_step env AMarkAllRead s = s\<lparr>as_unread := markAllRead (as_unread s)\<rparr>"

definition app_init :: "int \<Rightarrow> string list \<Rightarrow> string list \<Rightarrow> app_state" where
  "app_init nowMs blockedKeys blockedNames =
     \<lparr>as_conv = conv_init, as_unread = unread_init, as_raw = raw_store_init nowMs, as_sightings = [],
      as_contacts = [], as_channels = [], as_blockedKeys = blockedKeys, as_blockedNames = blockedNames,
      as_health = None, as_target = None, as_generation = 0, as_snapshots = [],
      as_pendingDeleteFallback = False, as_effects = []\<rparr>"

section \<open>Snapshots\<close>

abbreviation at_key :: "('t \<Rightarrow> string) \<Rightarrow> 't list \<Rightarrow> string \<Rightarrow> 't option" where
  "at_key keyOf xs k \<equiv> find (\<lambda>x. keyOf x = k) xs"

lemma at_key_iff:
  "distinct (map keyOf xs) \<Longrightarrow> at_key keyOf xs k = Some x \<longleftrightarrow> x \<in> set xs \<and> keyOf x = k"
  by (induction xs) force+

lemma at_key_None: "at_key keyOf xs k = None \<longleftrightarrow> k \<notin> keyOf ` set xs"
  by (induction xs) auto

lemma at_key_eqI:
  assumes "distinct (map keyOf xs)" "distinct (map keyOf ys)"
    and "\<And>x. x \<in> set xs \<and> keyOf x = k \<longleftrightarrow> x \<in> set ys \<and> keyOf x = k"
  shows "at_key keyOf xs k = at_key keyOf ys k"
  using assms at_key_iff [of keyOf xs k] at_key_iff [of keyOf ys k]
  by (metis not_Some_eq)

lemma by_key_get:
  assumes "distinct (map keyOf xs)"
  shows "jm_get (by_key keyOf xs) k = at_key keyOf xs k"
proof -
  have "jm_get (fold (\<lambda>x m. jm_set (keyOf x) x m) xs m) k =
      (case at_key keyOf xs k of None \<Rightarrow> jm_get m k | Some x \<Rightarrow> Some x)" for m
    using assms
  proof (induction xs arbitrary: m)
    case (Cons x xs)
    then have "k = keyOf x \<Longrightarrow> at_key keyOf xs k = None" by (auto simp: at_key_None)
    then show ?case using Cons by (auto simp: js_map_simps split: option.split)
  qed simp
  from this [of "[]"] show ?thesis by (simp add: by_key_def split: option.split)
qed

text \<open>The two halves of a merge, without the map.\<close>

lemma merge_snapshot_eq:
  assumes "distinct (map keyOf live)" and "touched \<noteq> []"
  shows "mergeSnapshot snapshot live touched keyOf =
     List.map_filter (\<lambda>x. if keyOf x \<notin> set touched then Some x else at_key keyOf live (keyOf x)) snapshot @
     List.map_filter (\<lambda>k. if k \<notin> keyOf ` set snapshot then at_key keyOf live k else None) touched"
  using assms by (simp add: mergeSnapshot_def by_key_get Let_def cong: if_cong)

lemma map_filter_keys:
  assumes "\<And>x y. f x = Some y \<Longrightarrow> g y = h x"
  shows "map g (List.map_filter f xs) = map h (filter (\<lambda>x. f x \<noteq> None) xs)"
  by (induction xs) (auto simp: map_filter_simps assms split: option.split)

lemma at_key_key: "at_key keyOf xs k = Some y \<Longrightarrow> keyOf y = k"
  by (induction xs) (auto split: if_splits)

lemma merge_snapshot_keys:
  assumes "distinct (map keyOf live)" and "touched \<noteq> []"
  shows "map keyOf (mergeSnapshot snapshot live touched keyOf) =
     map keyOf (filter (\<lambda>x. keyOf x \<notin> set touched \<or> keyOf x \<in> keyOf ` set live) snapshot) @
     filter (\<lambda>k. k \<notin> keyOf ` set snapshot \<and> k \<in> keyOf ` set live) touched"
proof -
  let ?f = "\<lambda>x. if keyOf x \<notin> set touched then Some x else at_key keyOf live (keyOf x)"
  let ?g = "\<lambda>k. if k \<notin> keyOf ` set snapshot then at_key keyOf live k else None"
  have f: "?f x \<noteq> None \<longleftrightarrow> keyOf x \<notin> set touched \<or> keyOf x \<in> keyOf ` set live" for x
    using at_key_None [of keyOf "keyOf x" live] by (auto simp del: not_None_eq)
  have g: "?g k \<noteq> None \<longleftrightarrow> k \<notin> keyOf ` set snapshot \<and> k \<in> keyOf ` set live" for k
    using at_key_None [of keyOf k live] by (auto simp del: not_None_eq)
  have "map keyOf (List.map_filter ?f snapshot) = map keyOf (filter (\<lambda>x. ?f x \<noteq> None) snapshot)"
    by (rule map_filter_keys) (metis at_key_key option.inject)
  moreover have "map keyOf (List.map_filter ?g touched) = map (\<lambda>k. k) (filter (\<lambda>k. ?g k \<noteq> None) touched)"
    by (rule map_filter_keys) (metis at_key_key option.distinct(1))
  ultimately show ?thesis unfolding merge_snapshot_eq [OF assms] map_append f g by simp
qed

lemma merge_snapshot_distinct:
  assumes "distinct (map keyOf snapshot)" "distinct (map keyOf live)" "distinct touched"
  shows "distinct (map keyOf (mergeSnapshot snapshot live touched keyOf))"
proof (cases "touched = []")
  case True
  then show ?thesis using assms(1) by (simp add: mergeSnapshot_def)
next
  case False
  then show ?thesis
    using assms by (auto simp: merge_snapshot_keys distinct_map_filter)
qed

lemma set_map_filter: "set (List.map_filter f xs) = {y. \<exists>x \<in> set xs. f x = Some y}"
  by (induction xs) (auto simp: map_filter_simps split: option.split)

lemma merge_snapshot_set:
  assumes "distinct (map keyOf live)" and "touched \<noteq> []"
  shows "set (mergeSnapshot snapshot live touched keyOf) =
     {x \<in> set snapshot. keyOf x \<notin> set touched} \<union> {x \<in> set live. keyOf x \<in> set touched}"
proof -
  note live = at_key_iff [OF assms(1)]
  have "{y. \<exists>x \<in> set snapshot. (if keyOf x \<notin> set touched then Some x else at_key keyOf live (keyOf x)) = Some y} =
      {x \<in> set snapshot. keyOf x \<notin> set touched} \<union> {y \<in> set live. keyOf y \<in> set touched \<and> keyOf y \<in> keyOf ` set snapshot}"
    (is "?A = ?B")
  proof (intro set_eqI)
    fix y show "y \<in> ?A \<longleftrightarrow> y \<in> ?B" using live [of _ y] by (cases "keyOf y \<in> set touched") (force split: if_splits)+
  qed
  moreover have "{y. \<exists>k \<in> set touched. (if k \<notin> keyOf ` set snapshot then at_key keyOf live k else None) = Some y} =
      {y \<in> set live. keyOf y \<in> set touched \<and> keyOf y \<notin> keyOf ` set snapshot}"
    using live by (auto split: if_splits)
  ultimately show ?thesis unfolding merge_snapshot_eq [OF assms] set_append set_map_filter by blast
qed

lemma merge_snapshot_at:
  assumes "distinct (map keyOf snapshot)" "distinct (map keyOf live)" "distinct touched"
  shows "at_key keyOf (mergeSnapshot snapshot live touched keyOf) k =
     (if k \<in> set touched then at_key keyOf live k else at_key keyOf snapshot k)"
proof (cases "touched = []")
  case True
  then show ?thesis by (simp add: mergeSnapshot_def)
next
  case False
  note d = merge_snapshot_distinct [OF assms]
  note m = merge_snapshot_set [OF assms(2) False, of snapshot]
  show ?thesis
  proof (cases "k \<in> set touched")
    case True
    then have "at_key keyOf (mergeSnapshot snapshot live touched keyOf) k = at_key keyOf live k"
      by (intro at_key_eqI [OF d assms(2)]) (auto simp: m)
    then show ?thesis using True by simp
  next
    case False
    then have "at_key keyOf (mergeSnapshot snapshot live touched keyOf) k = at_key keyOf snapshot k"
      by (intro at_key_eqI [OF d assms(1)]) (auto simp: m)
    then show ?thesis using False by simp
  qed
qed

section \<open>Trackers\<close>

text \<open>The keys an event touches, as the handlers note them.\<close>

fun touched_contacts :: "app_event \<Rightarrow> string list" where
  "touched_contacts (AContact _ c) = [ct_public_key c]"
| "touched_contacts (AContactResolved p _ c) = [p, ct_public_key c]"
| "touched_contacts (AContactDeleted k) = [k]"
| "touched_contacts _ = []"

fun touched_channels :: "app_event \<Rightarrow> string list" where
  "touched_channels (AChannel c) = [ch_key c]"
| "touched_channels (AChannelDeleted k) = [k]"
| "touched_channels _ = []"

fun is_snapshot_event :: "app_event \<Rightarrow> bool" where
  "is_snapshot_event AReconnect = True"
| "is_snapshot_event (AChannelsAnswer _ _) = True"
| "is_snapshot_event (AContactsAnswer _ _) = True"
| "is_snapshot_event _ = False"

definition touch :: "app_event \<Rightarrow> snapshot_tracker \<Rightarrow> snapshot_tracker" where
  "touch e t = t\<lparr>tr_contacts := fold js_add (touched_contacts e) (tr_contacts t),
     tr_channels := fold js_add (touched_channels e) (tr_channels t)\<rparr>"

text \<open>What a handler leaves alone.\<close>

lemma note_effect_frame [simp]:
  "as_conv (note_effect e s) = as_conv s" "as_unread (note_effect e s) = as_unread s"
  "as_raw (note_effect e s) = as_raw s" "as_sightings (note_effect e s) = as_sightings s"
  "as_contacts (note_effect e s) = as_contacts s" "as_channels (note_effect e s) = as_channels s"
  "as_snapshots (note_effect e s) = as_snapshots s" "as_generation (note_effect e s) = as_generation s"
  "as_target (note_effect e s) = as_target s"
  by (simp_all add: note_effect_def)

lemma delta_frame [simp]:
  "as_conv (noteDeltaContacts ks s) = as_conv s" "as_unread (noteDeltaContacts ks s) = as_unread s"
  "as_raw (noteDeltaContacts ks s) = as_raw s" "as_sightings (noteDeltaContacts ks s) = as_sightings s"
  "as_contacts (noteDeltaContacts ks s) = as_contacts s" "as_channels (noteDeltaContacts ks s) = as_channels s"
  "as_generation (noteDeltaContacts ks s) = as_generation s" "as_target (noteDeltaContacts ks s) = as_target s"
  "as_conv (noteDeltaChannels ks s) = as_conv s" "as_unread (noteDeltaChannels ks s) = as_unread s"
  "as_raw (noteDeltaChannels ks s) = as_raw s" "as_sightings (noteDeltaChannels ks s) = as_sightings s"
  "as_contacts (noteDeltaChannels ks s) = as_contacts s" "as_channels (noteDeltaChannels ks s) = as_channels s"
  "as_generation (noteDeltaChannels ks s) = as_generation s" "as_target (noteDeltaChannels ks s) = as_target s"
  by (simp_all add: noteDeltaContacts_def noteDeltaChannels_def)

lemma app_open_frame [simp]:
  "as_raw (app_open c t s) = as_raw s" "as_sightings (app_open c t s) = as_sightings s"
  "as_contacts (app_open c t s) = as_contacts s" "as_channels (app_open c t s) = as_channels s"
  "as_snapshots (app_open c t s) = as_snapshots s" "as_generation (app_open c t s) = as_generation s"
  "as_raw (setActiveConversation c s) = as_raw s" "as_sightings (setActiveConversation c s) = as_sightings s"
  "as_contacts (setActiveConversation c s) = as_contacts s" "as_channels (setActiveConversation c s) = as_channels s"
  "as_snapshots (setActiveConversation c s) = as_snapshots s" "as_generation (setActiveConversation c s) = as_generation s"
  by (simp_all add: app_open_def setActiveConversation_def)

lemma toast_frame [simp]:
  "as_conv (onHealth d s) = as_conv s" "as_unread (onHealth d s) = as_unread s"
  "as_raw (onHealth d s) = as_raw s" "as_sightings (onHealth d s) = as_sightings s"
  "as_contacts (onHealth d s) = as_contacts s" "as_channels (onHealth d s) = as_channels s"
  "as_snapshots (onHealth d s) = as_snapshots s" "as_generation (onHealth d s) = as_generation s"
  by (simp_all add: onHealth_def Let_def split: option.split)

lemma message_frame [simp]:
  "as_raw (onMessage env n m s) = as_raw s" "as_contacts (onMessage env n m s) = as_contacts s"
  "as_channels (onMessage env n m s) = as_channels s" "as_snapshots (onMessage env n m s) = as_snapshots s"
  "as_generation (onMessage env n m s) = as_generation s"
  by (simp_all add: onMessage_def Let_def split_beta)

lemma touch_fields [simp]:
  "tr_generation (touch e t) = tr_generation t" "tr_contactsDone (touch e t) = tr_contactsDone t"
  "tr_channelsDone (touch e t) = tr_channelsDone t"
  "tr_contacts (touch e t) = fold js_add (touched_contacts e) (tr_contacts t)"
  "tr_channels (touch e t) = fold js_add (touched_channels e) (tr_channels t)"
  by (simp_all add: touch_def)

lemma touch_idle: "touched_contacts e = [] \<Longrightarrow> touched_channels e = [] \<Longrightarrow> touch e = (\<lambda>t. t)"
  by (simp add: touch_def fun_eq_iff)

lemma touch_contacts:
  "touched_channels e = [] \<Longrightarrow> as_snapshots (noteDeltaContacts (touched_contacts e) s) = map (touch e) (as_snapshots s)"
  by (simp add: touch_def noteDeltaContacts_def)

lemma touch_channels:
  "touched_contacts e = [] \<Longrightarrow> as_snapshots (noteDeltaChannels (touched_channels e) s) = map (touch e) (as_snapshots s)"
  by (simp add: touch_def noteDeltaChannels_def)

lemma snapshots_step:
  assumes "\<not> is_snapshot_event e"
  shows "as_snapshots (app_step env e s) = map (touch e) (as_snapshots s) \<and>
     as_generation (app_step env e s) = as_generation s"
proof (cases e)
  case (AContact a c)
  then show ?thesis using touch_contacts [of e s] by (simp add: onContact_def Let_def)
next
  case (AContactResolved p a c)
  then show ?thesis using touch_contacts [of e s] by (simp add: onContactResolved_def Let_def)
next
  case (AChannel c)
  then show ?thesis using touch_channels [of e s] by (simp add: onChannel_def Let_def)
next
  case (AContactDeleted k)
  then show ?thesis using touch_contacts [of e s] by (simp add: onContactDeleted_def Let_def)
next
  case (AChannelDeleted k)
  then show ?thesis using touch_channels [of e s] by (simp add: onChannelDeleted_def Let_def)
qed (use assms in \<open>simp_all add: touch_idle onError_def onSuccess_def onRawPacket_def onMessageAcked_def
  onMessageDeleted_def Let_def\<close>)

lemma reconnect_snapshots:
  "as_snapshots (onReconnect s) = as_snapshots s @
     [\<lparr>tr_generation = as_generation s + 1, tr_contacts = [], tr_channels = [], tr_channelsDone = False, tr_contactsDone = False\<rparr>]"
  "as_generation (onReconnect s) = as_generation s + 1"
  by (simp_all add: onReconnect_def note_effect_def Let_def)

definition trackers_ok :: "app_state \<Rightarrow> bool" where
  "trackers_ok s \<longleftrightarrow>
     distinct (map tr_generation (as_snapshots s)) \<and>
     (\<forall>t \<in> set (as_snapshots s). tr_generation t \<le> as_generation s \<and>
        distinct (tr_contacts t) \<and> distinct (tr_channels t) \<and> \<not> (tr_channelsDone t \<and> tr_contactsDone t))"

lemma settle_trackers:
  assumes "trackers_ok s" and "\<And>t. tr_generation (f t) = tr_generation t \<and> tr_contacts (f t) = tr_contacts t \<and> tr_channels (f t) = tr_channels t"
  shows "trackers_ok (settle_tracker g f s)"
proof -
  let ?h = "\<lambda>t. if tr_generation t = g then f t else t"
  have "map tr_generation (map ?h (as_snapshots s)) = map tr_generation (as_snapshots s)" using assms(2) by simp
  then have "distinct (map tr_generation (map ?h (as_snapshots s)))" using assms(1) by (simp only: trackers_ok_def)
  then have "distinct (map tr_generation (filter P (map ?h (as_snapshots s))))" for P
    by (rule distinct_map_filter)
  then show ?thesis using assms unfolding trackers_ok_def settle_tracker_def by auto
qed

lemma trackers_frame:
  "trackers_ok s \<Longrightarrow> as_snapshots s' = as_snapshots s \<Longrightarrow> as_generation s' = as_generation s \<Longrightarrow> trackers_ok s'"
  by (simp add: trackers_ok_def)

lemma trackers_answers:
  assumes "trackers_ok s"
  shows "trackers_ok (channels_answer g a s)" "trackers_ok (contacts_answer g b s)"
  using assms
  by (auto simp: channels_answer_def contacts_answer_def split: option.split
      intro!: settle_trackers intro: trackers_frame)

lemma trackers_step: "trackers_ok s \<Longrightarrow> trackers_ok (app_step env e s)"
proof (cases "is_snapshot_event e")
  case False
  assume "trackers_ok s"
  then show ?thesis using snapshots_step [OF False, of env s] by (auto simp: trackers_ok_def comp_def)
next
  case True
  assume ok: "trackers_ok s"
  show ?thesis
  proof (cases e)
    case AReconnect
    then show ?thesis using ok reconnect_snapshots [of s] by (fastforce simp: trackers_ok_def)
  qed (use ok True trackers_answers in auto)
qed

section \<open>The invariant\<close>

text \<open>
  The invariants of the parts, and what holds them together: the two hooks agree on the open
  conversation, and no contact or channel is listed twice.
\<close>

definition app_ok :: "(int \<Rightarrow> string) \<Rightarrow> (string \<Rightarrow> string) \<Rightarrow> rt_env \<Rightarrow> app_state \<Rightarrow> bool" where
  "app_ok C owner env s \<longleftrightarrow>
     conv_ok C owner (as_conv s) \<and> un_active (as_unread s) = cv_active (as_conv s) \<and>
     raw_ok (env_maxRawPackets env) (as_raw s) \<and> jm_wf (as_sightings s) \<and>
     distinct (map ct_public_key (as_contacts s)) \<and> distinct (map ch_key (as_channels s)) \<and> trackers_ok s"

fun app_promised :: "(int \<Rightarrow> string) \<Rightarrow> (string \<Rightarrow> string) \<Rightarrow> app_event \<Rightarrow> bool" where
  "app_promised C owner (AChannelsAnswer _ (Some d)) = distinct (map ch_key d)"
| "app_promised C owner (AContactsAnswer _ (Some d)) = distinct (map ct_public_key d)"
| "app_promised C owner (AMessage _ m) = promised C owner (EvMessage m)"
| "app_promised C owner (AContactResolved p _ c) = promised C owner (EvRename p (ct_public_key c))"
| "app_promised C owner (AResponse q r) = promised C owner (EvResponse q r)"
| "app_promised C owner _ = True"

subsection \<open>The conversation on screen\<close>

lemma observe_active [simp]: "cv_active (fst (observeMessage m s)) = cv_active s"
  by (simp add: observeMessage_def appendActiveMessageIfNew_def Let_def split_beta)

lemma send_active [simp]: "cv_active (send_request k c s) = cv_active s"
  by (simp add: send_request_def)

lemma fetch_active [simp]: "cv_active (fetchLatestMessages b s) = cv_active s"
  by (simp add: fetchLatestMessages_def Let_def split: option.split)

lemma reconcile_active [simp]:
  "cv_active (reconcileFromBackend c n s) = cv_active s" "cv_active (reconcileOnReconnect s) = cv_active s"
  by (simp_all add: reconcileFromBackend_def reconcileOnReconnect_def Let_def split: option.split)

lemma effect_active [simp]: "cv_active (conversation_effect t s) = cv_active s"
  by (simp add: conversation_effect_def effect_base_def Let_def split_beta split: option.split)

lemma open_active [simp]: "cv_active (open_conversation c t s) = c"
  by (simp add: open_conversation_def)

lemma paging_active [simp]:
  "cv_active (fetchOlderMessages s) = cv_active s" "cv_active (fetchNewerMessages s) = cv_active s"
  "cv_active (jumpToBottom s) = cv_active s" "cv_active (reloadCurrentConversation s) = cv_active s"
  by (simp_all add: fetchOlderMessages_def fetchNewerMessages_def jumpToBottom_def reloadCurrentConversation_def
      Let_def split: option.split)

lemma answer_active:
  "cv_active (latest_answer c b r s) = cv_active s" "cv_active (reconcile_answer c n r s) = cv_active s"
  "cv_active (older_answer c r s) = cv_active s" "cv_active (newer_answer t c r s) = cv_active s"
  "cv_active (around_answer c r s) = cv_active s"
  by (simp_all add: latest_answer_def reconcile_answer_def older_answer_def newer_answer_def around_answer_def
      syncSeenContent_def Let_def split_beta split: response.split option.split)

lemma deliver_active [simp]: "cv_active (deliver q r s) = cv_active s"
  by (simp add: deliver_def Let_def answer_active split: request_kind.split)

lemma live_active [simp]:
  "cv_active (receiveMessageAck i n ps pid ex s) = cv_active s" "cv_active (removeMessage i s) = cv_active s"
  "cv_active (renameConversationMessages a b s) = cv_active s" "cv_active (removeConversationMessages k s) = cv_active s"
  by (simp_all add: receiveMessageAck_def updateMessageAck_def removeMessage_def renameConversationMessages_def
      removeConversationMessages_def Let_def)

lemma unread_active [simp]:
  "un_active (fetchUnreads a u) = un_active u" "un_active (markAllRead u) = un_active u"
  "un_active (renameConversationState a' b' u) = un_active u" "un_active (removeConversationState k u) = un_active u"
  "un_active (open_tracked c u) = c"
  by (simp_all add: fetchUnreads_def applyUnreads_def markAllRead_def renameConversationState_def
      removeConversationState_def open_tracked_def Let_def split: option.split)

subsection \<open>Preservation\<close>

lemma conv_ok_steps:
  assumes "conv_ok C owner s"
  shows "conv_ok C owner (reconcileOnReconnect s)" "conv_ok C owner (fetchOlderMessages s)"
    "conv_ok C owner (fetchNewerMessages s)" "conv_ok C owner (jumpToBottom s)"
    "conv_ok C owner (conversation_effect t (reloadCurrentConversation s))"
    "conv_ok C owner (open_conversation c t s)" "conv_ok C owner (receiveMessageAck i n ps pid ex s)"
    "conv_ok C owner (removeMessage i s)" "conv_ok C owner (removeConversationMessages k s)"
    "promised C owner (EvMessage m) \<Longrightarrow> conv_ok C owner (fst (observeMessage m s))"
    "promised C owner (EvRename a b) \<Longrightarrow> conv_ok C owner (renameConversationMessages a b s)"
    "promised C owner (EvResponse q r) \<Longrightarrow> conv_ok C owner (deliver q r s)"
  using conv_step_ok [OF assms, of EvReconnect] conv_step_ok [OF assms, of EvFetchOlder]
    conv_step_ok [OF assms, of EvFetchNewer] conv_step_ok [OF assms, of EvJumpToBottom]
    conv_step_ok [OF assms, of "EvReload t"] conv_step_ok [OF assms, of "EvOpen c t"]
    conv_step_ok [OF assms, of "EvAck i n ps pid ex"] conv_step_ok [OF assms, of "EvRemoveMessage i"]
    conv_step_ok [OF assms, of "EvRemoveConversation k"] conv_step_ok [OF assms, of "EvMessage m"]
    conv_step_ok [OF assms, of "EvRename a b"] conv_step_ok [OF assms, of "EvResponse q r"]
  by simp_all

lemma conv_ok_same:
  assumes "conv_ok C owner s" and "same_conversation c (cv_active s)"
  shows "conv_ok C owner (s\<lparr>cv_active := c\<rparr>)"
  using assms
  by (cases c; cases "cv_active s") (auto simp: conv_ok_def screen_ok_def same_conversation_def msgs_ok_def)

lemma app_ok_open: "app_ok C owner env s \<Longrightarrow> app_ok C owner env (app_open c t s)"
  by (auto simp: app_ok_def app_open_def conv_ok_same conv_ok_steps intro: trackers_frame)

lemma app_ok_active: "app_ok C owner env s \<Longrightarrow> app_ok C owner env (setActiveConversation c s)"
  by (simp add: setActiveConversation_def app_ok_open)

lemma merge_contact_keys:
  "distinct (map ct_public_key cs) \<Longrightarrow> distinct (map ct_public_key (mergeContactIntoList ab cs c))"
  by (auto simp: mergeContactIntoList_def Let_def spread_contact_def map_update_first list_ex_iff)

lemma merge_channel_keys:
  assumes "distinct (map ch_key cs)"
  shows "distinct (map ch_key (mergeChannelIntoList cmp c cs))"
proof (cases "list_ex (\<lambda>x. ch_key x = ch_key c) cs")
  case True
  then show ?thesis using assms by (simp add: mergeChannelIntoList_def map_update_first)
next
  case False
  have "mset (map ch_key (js_sort f xs)) = mset (map ch_key xs)" for f :: "channel \<Rightarrow> channel \<Rightarrow> int" and xs
    by (simp only: mset_map mset_js_sort)
  from mset_eq_imp_distinct_iff [OF this, of _ "cs @ [c]"] False assms
  show ?thesis by (auto simp: mergeChannelIntoList_def list_ex_iff)
qed

lemma distinct_keys_filter: "distinct (map f xs) \<Longrightarrow> distinct (map f (filter P xs))"
  by (rule distinct_map_filter)

lemma app_ok_answers:
  assumes ok: "app_ok C owner env s"
  shows "app_promised C owner (AChannelsAnswer g a) \<Longrightarrow> app_ok C owner env (channels_answer g a s)"
    and "app_promised C owner (AContactsAnswer g b) \<Longrightarrow> app_ok C owner env (contacts_answer g b s)"
proof -
  have d: "distinct (tr_channels t) \<and> distinct (tr_contacts t)" if "find P (as_snapshots s) = Some t" for P t
    using ok that by (auto simp: app_ok_def trackers_ok_def find_Some_iff)
  show "app_ok C owner env (channels_answer g a s)" if "app_promised C owner (AChannelsAnswer g a)"
    using ok trackers_answers(1) [of s g a] that d
    by (cases a) (auto simp: app_ok_def channels_answer_def settle_tracker_def merge_snapshot_distinct split: option.splits)
  show "app_ok C owner env (contacts_answer g b s)" if "app_promised C owner (AContactsAnswer g b)"
    using ok trackers_answers(2) [of s g b] that d
    by (cases b) (auto simp: app_ok_def contacts_answer_def settle_tracker_def merge_snapshot_distinct split: option.splits)
qed

lemma app_ok_parts:
  assumes "app_ok C owner env s" and "trackers_ok s'"
    and "conv_ok C owner (as_conv s')" "un_active (as_unread s') = cv_active (as_conv s')"
    and "raw_ok (env_maxRawPackets env) (as_raw s')" "jm_wf (as_sightings s')"
    and "distinct (map ct_public_key (as_contacts s'))" "distinct (map ch_key (as_channels s'))"
  shows "app_ok C owner env s'"
  using assms by (simp add: app_ok_def)

lemma app_ok_message:
  assumes "app_ok C owner env s" and "app_promised C owner (AMessage n m)"
  shows "app_ok C owner env (onMessage env n m s)"
proof (rule app_ok_parts [OF assms(1)])
  show "trackers_ok (onMessage env n m s)" using trackers_step [of s env "AMessage n m"] assms(1) by (simp add: app_ok_def)
qed (use assms in \<open>auto simp: onMessage_def app_ok_def Let_def split_beta conv_ok_steps note_wf\<close>)

lemma app_ok_resolved:
  assumes ok: "app_ok C owner env s" and "app_promised C owner (AContactResolved p ab c)"
  shows "app_ok C owner env (onContactResolved p ab c s)"
proof -
  define s2 where "s2 = (noteDeltaContacts [p, ct_public_key c] s)
    \<lparr>as_contacts := mergeContactIntoList ab (filter (\<lambda>x. ct_public_key x \<noteq> p) (as_contacts s)) c,
     as_conv := renameConversationMessages p (ct_public_key c) (as_conv s),
     as_unread := renameConversationState (getStateKey TrackedContact p)
       (getStateKey TrackedContact (ct_public_key c)) (as_unread s)\<rparr>"
  have "trackers_ok s2"
    using ok by (auto simp: s2_def app_ok_def trackers_ok_def noteDeltaContacts_def comp_def)
  moreover have "app_ok C owner env s2" if "trackers_ok s2"
    using ok assms(2) that
    by (auto simp: app_ok_def s2_def conv_ok_steps intro!: merge_contact_keys distinct_keys_filter)
  ultimately have "app_ok C owner env s2" by blast
  moreover have "onContactResolved p ab c s = s2 \<or> (\<exists>d. onContactResolved p ab c s = setActiveConversation d s2)"
    by (auto simp: onContactResolved_def Let_def s2_def)
  ultimately show ?thesis using app_ok_active by metis
qed

lemma app_ok_deleted:
  assumes ok: "app_ok C owner env s"
  shows "app_ok C owner env (onContactDeleted k s)" "app_ok C owner env (onChannelDeleted k s)"
proof -
  define a where "a = (noteDeltaContacts [k] s)\<lparr>as_contacts := filter (\<lambda>c. ct_public_key c \<noteq> k) (as_contacts s),
    as_conv := removeConversationMessages k (as_conv s),
    as_unread := removeConversationState (getStateKey TrackedContact k) (as_unread s)\<rparr>"
  define b where "b = (noteDeltaChannels [k] s)\<lparr>as_channels := filter (\<lambda>c. ch_key c \<noteq> k) (as_channels s),
    as_conv := removeConversationMessages k (as_conv s),
    as_unread := removeConversationState (getStateKey TrackedChannel k) (as_unread s)\<rparr>"
  have "trackers_ok a" "trackers_ok b"
    using ok by (auto simp: a_def b_def app_ok_def trackers_ok_def noteDeltaContacts_def noteDeltaChannels_def comp_def)
  then have "app_ok C owner env a" "app_ok C owner env b"
    using ok by (auto simp: app_ok_def a_def b_def conv_ok_steps intro!: distinct_keys_filter)
  moreover have "app_ok C owner env (x\<lparr>as_pendingDeleteFallback := f\<rparr>)" if "app_ok C owner env x" for x f
    using that by (simp add: app_ok_def trackers_ok_def)
  ultimately show "app_ok C owner env (onContactDeleted k s)" "app_ok C owner env (onChannelDeleted k s)"
    by (auto simp: onContactDeleted_def onChannelDeleted_def Let_def a_def [symmetric] b_def [symmetric] intro!: app_ok_active)
qed

lemma app_step_ok:
  assumes "app_ok C owner env s" and "app_promised C owner e"
  shows "app_ok C owner env (app_step env e s)"
  proof -
    have tr: "trackers_ok (app_step env e s)" using assms(1) by (simp add: app_ok_def trackers_step)
    show ?thesis
  proof (cases e)
    case (AMessage n m)
    then show ?thesis using app_ok_message assms by simp
  next
    case (AContactResolved p ab c)
    then show ?thesis using app_ok_resolved assms by simp
  next
    case (AContactDeleted k)
    then show ?thesis using app_ok_deleted assms by simp
  next
    case (AChannelDeleted k)
    then show ?thesis using app_ok_deleted assms by simp
  next
    case (AChannelsAnswer g a)
    then show ?thesis using app_ok_answers assms by simp
  next
    case (AContactsAnswer g a)
    then show ?thesis using app_ok_answers assms by simp
  next
    case (AOpen c t)
    then show ?thesis using app_ok_open assms by simp
  qed (use assms tr in \<open>auto simp: app_ok_def onError_def onSuccess_def onReconnect_def onContact_def onChannel_def
    onRawPacket_def onMessageAcked_def onMessageDeleted_def Let_def conv_ok_steps merge_contact_keys merge_channel_keys
    record_ok clear_ok\<close>)
qed

interpretation app_machine: event_machine "app_step env" "app_ok C owner env" "app_promised C owner" for env C owner
  by unfold_locales (rule app_step_ok)

subsection \<open>The badge of the open conversation\<close>

lemma getStateKey_inject [simp]: "getStateKey t i = getStateKey t' j \<longleftrightarrow> t = t' \<and> i = j"
  by (cases t; cases t') (simp_all add: getStateKey_def)

lemma tracked_active_message:
  "trackedKey act = Some k \<Longrightarrow> messageStateKey m = Some k \<Longrightarrow> isActiveConversationMessage act m"
  by (auto simp: trackedKey_def messageStateKey_def isActiveConversationMessage_def
      split: option.splits conversation_type.splits if_splits message_type.splits)

lemma observe_reports_active:
  "ob_activeConversation (snd (observeMessage m s)) = isActiveConversationMessage (cv_active s) m"
proof -
  have "isActiveConversationMessage (cv_active s) (snd (applyPendingAck m (cv_pending s))) =
      isActiveConversationMessage (cv_active s) m"
    using type_apply [of m "cv_pending s"] ident_facts [OF ident_apply [of m "cv_pending s"]] by (intro active_cong) auto
  then show ?thesis by (simp add: observeMessage_def Let_def split_beta)
qed

text \<open>
  A contact is resolved to the conversation that is open while messages wait under the old key:
  the one event that gives the open conversation a badge.
\<close>

fun badge_allowed :: "(int \<Rightarrow> string) \<Rightarrow> (string \<Rightarrow> string) \<Rightarrow> app_state \<Rightarrow> app_event \<Rightarrow> bool" where
  "badge_allowed C owner s (AContactResolved p ab c) =
     (app_promised C owner (AContactResolved p ab c) \<and>
      (if is_open ConvContact (ct_public_key c) s
       then count_of (as_unread s) (getStateKey TrackedContact p) = 0 \<and>
         un_mentions (as_unread s) (getStateKey TrackedContact p) \<noteq> Some True
       else True))"
| "badge_allowed C owner s e = app_promised C owner e"

definition badge_ok :: "(int \<Rightarrow> string) \<Rightarrow> (string \<Rightarrow> string) \<Rightarrow> rt_env \<Rightarrow> app_state \<Rightarrow> bool" where
  "badge_ok C owner env s \<longleftrightarrow> app_ok C owner env s \<and> active_clear (as_unread s)"

lemma active_clear_message:
  assumes "app_ok C owner env s" and "active_clear (as_unread s)"
  shows "active_clear (as_unread (onMessage env n m s))"
proof -
  have agree: "un_active (as_unread s) = cv_active (as_conv s)" using assms(1) by (simp add: app_ok_def)
  have "active_clear (recordMessageEvent t m (ob_activeConversation (snd (observeMessage m (as_conv s)))) new men (as_unread s))"
    for t new men
  proof (cases "trackedKey (un_active (as_unread s))")
    case (Some k)
    then show ?thesis
      using tracked_active_message agree by (intro active_clear_record [OF assms(2)]) (simp add: observe_reports_active)
  qed (simp add: active_clear_def)
  then show ?thesis using assms(2) by (simp add: onMessage_def Let_def split_beta)
qed

lemma active_clear_app_open: "active_clear (as_unread s) \<Longrightarrow> active_clear (as_unread (app_open c t s))"
  by (simp add: app_open_def active_clear_open)

lemma active_clear_set_active:
  "active_clear (as_unread s) \<Longrightarrow> active_clear (as_unread (setActiveConversation c s))"
  by (simp add: setActiveConversation_def active_clear_app_open)

lemma open_clears: "active_clear (open_tracked c u)"
  by (auto simp: open_tracked_def active_clear_def coalesce_def Let_def split: option.splits)

lemma active_clear_resolved:
  assumes ok: "app_ok C owner env s" "active_clear (as_unread s)" and "badge_allowed C owner s (AContactResolved p ab c)"
  shows "active_clear (as_unread (onContactResolved p ab c s))"
proof (cases "is_open ConvContact p s")
  case True
  then show ?thesis
    by (simp add: onContactResolved_def Let_def is_open_def setActiveConversation_def app_open_def open_clears)
next
  case False
  have agree: "un_active (as_unread s) = cv_active (as_conv s)" using ok by (simp add: app_ok_def)
  let ?a = "getStateKey TrackedContact p" and ?b = "getStateKey TrackedContact (ct_public_key c)"
  have "trackedKey (un_active (as_unread s)) = Some ?b \<Longrightarrow> is_open ConvContact (ct_public_key c) s"
    unfolding agree by (auto simp: trackedKey_def is_open_def split: option.splits conversation_type.splits)
  then have "active_clear (renameConversationState ?a ?b (as_unread s))"
    using assms(3) by (intro active_clear_rename [OF ok(2)]) auto
  then show ?thesis using False by (simp add: onContactResolved_def Let_def is_open_def)
qed

lemma badge_step:
  assumes "badge_ok C owner env s" and "badge_allowed C owner s e"
  shows "badge_ok C owner env (app_step env e s)"
proof -
  have ok: "app_ok C owner env s" "active_clear (as_unread s)" using assms(1) by (auto simp: badge_ok_def)
  have "app_promised C owner e" using assms(2) by (cases e) (auto simp del: app_promised.simps)
  then have "app_ok C owner env (app_step env e s)" using app_step_ok ok(1) by blast
  moreover have "active_clear (as_unread (app_step env e s))"
  proof (cases e)
    case (AMessage n m)
    then show ?thesis using active_clear_message ok by simp
  next
    case (AContactResolved p ab c)
    then show ?thesis using active_clear_resolved [OF ok] assms(2) by simp
  qed (use ok in \<open>simp_all add: onError_def onSuccess_def onReconnect_def onContact_def onChannel_def onRawPacket_def
    onMessageAcked_def onMessageDeleted_def onContactDeleted_def onChannelDeleted_def channels_answer_def
    contacts_answer_def settle_tracker_def Let_def active_clear_app_open active_clear_set_active active_clear_remove
    active_clear_fetch active_clear_markAll split: option.split\<close>)
  ultimately show ?thesis by (simp add: badge_ok_def)
qed

interpretation badge_machine: guarded_machine "app_step env" "badge_ok C owner env" "badge_allowed C owner"
  for env C owner
  by unfold_locales (rule badge_step)

lemma app_ok_init: "app_ok C owner env (app_init n bk bn)"
  by (simp add: app_ok_def app_init_def conv_ok_init init_ok trackers_ok_def) (simp add: unread_init_def conv_init_def)

lemma badge_ok_init: "badge_ok C owner env (app_init n bk bn)"
  by (simp add: badge_ok_def app_ok_init) (simp add: app_init_def unread_init_def active_clear_def trackedKey_def)

subsection \<open>A reconnect\<close>

definition tracks :: "nat \<Rightarrow> string set \<Rightarrow> app_state \<Rightarrow> bool" where
  "tracks g ks s \<longleftrightarrow> as_generation s = g \<and>
     (case find (\<lambda>t. tr_generation t = g \<and> \<not> tr_contactsDone t) (as_snapshots s) of
        None \<Rightarrow> False | Some t \<Rightarrow> set (tr_contacts t) = ks)"

lemma find_map: "find P (map f xs) = map_option f (find (P \<circ> f) xs)"
  by (induction xs) auto

lemma tracks_quiet:
  assumes "tracks g ks s" and "\<not> is_snapshot_event e"
  shows "tracks g (ks \<union> set (touched_contacts e)) (app_step env e s)"
  using assms(1) snapshots_step [OF assms(2), of env s] by (auto simp: tracks_def find_map comp_def split: option.splits)

lemma find_filter_keep: "(\<And>x. P x \<Longrightarrow> Q x) \<Longrightarrow> find P (filter Q xs) = find P xs"
  by (induction xs) auto

lemma find_unsettled:
  "find (\<lambda>t. tr_generation t = g \<and> \<not> tr_contactsDone t) (filter (\<lambda>t. tr_channelsDone t \<longrightarrow> \<not> tr_contactsDone t) ts) =
     find (\<lambda>t. tr_generation t = g \<and> \<not> tr_contactsDone t) ts"
  by (rule find_filter_keep) simp

lemma tracks_settle:
  assumes "tracks g ks s"
  shows "tracks g ks (settle_tracker h (\<lambda>t. t\<lparr>tr_channelsDone := True\<rparr>) s)"
    and "h \<noteq> g \<Longrightarrow> tracks g ks (settle_tracker h (\<lambda>t. t\<lparr>tr_contactsDone := True\<rparr>) s)"
proof -
  have a: "(\<lambda>t. tr_generation t = x \<and> \<not> tr_contactsDone t) \<circ> (\<lambda>t. if tr_generation t = h then t\<lparr>tr_channelsDone := True\<rparr> else t) =
      (\<lambda>t. tr_generation t = x \<and> \<not> tr_contactsDone t)" for x
    by (auto simp: fun_eq_iff)
  have b: "(\<lambda>t. tr_generation t = x \<and> \<not> tr_contactsDone t) \<circ> (\<lambda>t. if tr_generation t = h then t\<lparr>tr_contactsDone := True\<rparr> else t) =
      (\<lambda>t. tr_generation t = x \<and> \<not> tr_contactsDone t)" if "h \<noteq> x" for x
    using that by (auto simp: fun_eq_iff)
  show "tracks g ks (settle_tracker h (\<lambda>t. t\<lparr>tr_channelsDone := True\<rparr>) s)"
    using assms unfolding tracks_def settle_tracker_def by (auto simp: find_unsettled find_map a split: option.splits)
  show "tracks g ks (settle_tracker h (\<lambda>t. t\<lparr>tr_contactsDone := True\<rparr>) s)" if "h \<noteq> g"
    using assms that unfolding tracks_def settle_tracker_def by (auto simp: find_unsettled find_map b split: option.splits)
qed

lemma tracks_frame:
  "tracks g ks s \<Longrightarrow> as_snapshots s' = as_snapshots s \<Longrightarrow> as_generation s' = as_generation s \<Longrightarrow> tracks g ks s'"
  by (simp add: tracks_def)

lemma tracks_answers:
  assumes "tracks g ks s"
  shows "tracks g ks (channels_answer h a s)" and "h \<noteq> g \<Longrightarrow> tracks g ks (contacts_answer h b s)"
  using assms
  by (auto simp: channels_answer_def contacts_answer_def split: option.split
      intro!: tracks_settle intro: tracks_frame)

text \<open>An event that is neither a reconnect nor the contacts of generation \<open>g\<close>.\<close>

fun waits_for :: "nat \<Rightarrow> app_event \<Rightarrow> bool" where
  "waits_for g AReconnect = False"
| "waits_for g (AContactsAnswer h _) = (h \<noteq> g)"
| "waits_for g _ = True"

lemma tracks_step:
  assumes "tracks g ks s" and "waits_for g e"
  shows "tracks g (ks \<union> set (touched_contacts e)) (app_step env e s)"
proof (cases "is_snapshot_event e")
  case False
  then show ?thesis by (rule tracks_quiet [OF assms(1)])
next
  case True
  then show ?thesis using assms tracks_answers [OF assms(1)] by (cases e) auto
qed

lemma tracks_run:
  assumes "tracks g ks s" and "list_all (waits_for g) es"
  shows "tracks g (ks \<union> (\<Union>e \<in> set es. set (touched_contacts e))) (fold (app_step env) es s)"
  using assms
proof (induction es arbitrary: s ks)
  case (Cons e es)
  then show ?case using Cons.IH [OF tracks_step [of g ks s e env]] by (simp add: Un_assoc)
qed simp

lemma tracks_reconnect:
  assumes "trackers_ok s"
  shows "tracks (as_generation s + 1) {} (onReconnect s)"
proof -
  have "find (\<lambda>t. tr_generation t = as_generation s + 1 \<and> \<not> tr_contactsDone t) (as_snapshots s) = None"
    using assms by (fastforce simp: trackers_ok_def find_None_iff)
  moreover have "find P (xs @ [y]) = (case find P xs of None \<Rightarrow> if P y then Some y else None | Some x \<Rightarrow> Some x)"
    for P and xs :: "snapshot_tracker list" and y
    by (induction xs) auto
  ultimately show ?thesis by (simp add: tracks_def reconnect_snapshots)
qed

subsection \<open>A message delivered twice\<close>

lemma add_message_again:
  assumes "cache_ok c" and "length (cached_messages i c) < MAX_MESSAGES_PER_ENTRY"
    and "getMessageContentKey m' = getMessageContentKey m" and "cache_addMessage i m c = (c', added)"
  shows "snd (cache_addMessage i m' c') = False \<or> (\<not> added \<and> msg_id m' \<noteq> msg_id m)"
proof (cases "jm_get c i")
  case None
  define e where "e = \<lparr>ce_messages = [m], ce_hasOlder = True, ce_contentKeys = js_set [getMessageContentKey m]\<rparr>"
  have d: "distinct (jm_keys c)" using assms(1) by (simp add: cache_ok_def jm_wf_def)
  have "jm_delete i c = c"
    using None by (auto simp: jm_delete_def filter_id_conv jm.get_None jm_keys_def)
  then have "c' = lru_put MAX_CACHED_CONVERSATIONS i e c"
    using assms(4) None by (auto simp: cache_addMessage_def Let_def lru_put_def e_def)
  then have "jm_get c' i = Some e" using cache_lru.lru_get_self [OF d] by simp
  then show ?thesis using assms(3) by (simp add: cache_addMessage_def e_def)
next
  case (Some e)
  show ?thesis
  proof (cases "getMessageContentKey m \<in> set (ce_contentKeys e) \<or> list_ex (\<lambda>x. msg_id x = msg_id m) (ce_messages e)")
    case True
    then have "c' = c" "\<not> added" using assms(4) Some by (auto simp: cache_addMessage_def Let_def split: if_splits)
    then show ?thesis using True Some assms(3) by (auto simp: cache_addMessage_def Let_def)
  next
    case False
    then have "jm_get c' i = Some (normalizeEntry (ce_messages e @ [m]) (ce_hasOlder e))"
      using assms(4) Some by (auto simp: cache_addMessage_def Let_def js_map_simps split: if_splits)
    moreover have "getMessageContentKey m \<in> set (ce_contentKeys (normalizeEntry (ce_messages e @ [m]) (ce_hasOlder e)))"
      using assms(2) Some by (simp add: normalizeEntry_def cached_messages_def)
    ultimately show ?thesis using assms(3) by (simp add: cache_addMessage_def Let_def)
  qed
qed

lemma observe_elsewhere:
  assumes "\<not> isActiveConversationMessage (cv_active s) m"
  shows "observeMessage m s =
     (let (pending, m') = applyPendingAck m (cv_pending s);
          (cache', added) = cache_addMessage (msg_conversation_key m) m' (cv_cache s)
      in (s\<lparr>cv_pending := pending, cv_cache := cache'\<rparr>, \<lparr>ob_added = added, ob_activeConversation = False\<rparr>))"
proof -
  obtain p m' where pm: "applyPendingAck m (cv_pending s) = (p, m')" by (rule prod.exhaust)
  have "ident m' = ident m" using ident_apply [of m "cv_pending s"] pm by simp
  then have same: "msg_conversation_key m' = msg_conversation_key m" using ident_facts by blast
  then have "\<not> isActiveConversationMessage (cv_active s) m'"
    using assms type_apply [of m "cv_pending s"] pm by (simp add: active_cong [of m' m])
  then show ?thesis by (simp add: observeMessage_def pm same Let_def split_beta)
qed

lemma observe_twice:
  assumes "conv_ok C owner s" and "\<not> isActiveConversationMessage (cv_active s) m"
    and "length (cached_messages (msg_conversation_key m) (cv_cache s)) < MAX_MESSAGES_PER_ENTRY"
  shows "\<not> ob_added (snd (observeMessage m (fst (observeMessage m s))))"
proof -
  obtain p m1 where pm: "applyPendingAck m (cv_pending s) = (p, m1)" by (rule prod.exhaust)
  obtain c1 a1 where c1: "cache_addMessage (msg_conversation_key m) m1 (cv_cache s) = (c1, a1)" by (rule prod.exhaust)
  obtain q m2 where pm2: "applyPendingAck m p = (q, m2)" by (rule prod.exhaust)
  have "ident m1 = ident m" "ident m2 = ident m"
    using ident_apply [of m "cv_pending s"] ident_apply [of m p] pm pm2 by auto
  then have same: "getMessageContentKey m2 = getMessageContentKey m1" "msg_id m2 = msg_id m1"
    using ident_facts by metis+
  have "cache_ok (cv_cache s)" using assms(1) by (simp add: conv_ok_def cache_owned_def)
  from add_message_again [OF this assms(3) same(1) c1] same(2)
  have "\<not> snd (cache_addMessage (msg_conversation_key m) m2 c1)" by auto
  moreover have "cv_active (fst (observeMessage m s)) = cv_active s" by simp
  ultimately show ?thesis
    using assms(2) by (simp add: observe_elsewhere pm pm2 c1 Let_def split_beta)
qed

section \<open>Properties\<close>

text \<open>
  C1: The application as a whole stays consistent. Whatever socket events, answers of the backend
  and actions of the user come, in whatever order: if the backend keeps its promises, the hooks
  agree on the open conversation, the screen shows no message twice and only messages of that
  conversation, no contact and no channel is listed twice, the packet buffer stays within its
  bound, and every outstanding snapshot is of a generation that was started.
\<close>

theorem app_always_consistent:
  assumes "list_all (app_promised C owner) es"
  shows "let s = fold (app_step env) es (app_init nowMs blockedKeys blockedNames) in
     un_active (as_unread s) = cv_active (as_conv s) \<and>
     distinct (map msg_id (cv_messages (as_conv s))) \<and>
     shown_ok C owner (cv_active (as_conv s)) (cv_messages (as_conv s)) \<and>
     distinct (map ct_public_key (as_contacts s)) \<and> distinct (map ch_key (as_channels s)) \<and>
     length (rs_packets (as_raw s)) \<le> env_maxRawPackets env \<and> trackers_ok s"
proof -
  define s where "s = fold (app_step env) es (app_init nowMs blockedKeys blockedNames)"
  have "app_ok C owner env s" unfolding s_def by (rule app_machine.run_inv [OF app_ok_init assms])
  then show ?thesis
    unfolding s_def [symmetric] Let_def
    by (cases "cv_active (as_conv s)") (auto simp: app_ok_def conv_ok_def screen_ok_def msgs_ok_def raw_ok_def)
qed

definition sample_env :: rt_env where
  "sample_env = \<lparr>env_compare = (\<lambda>a b. if a = b then 0 else if a \<le> b then -1 else 1), env_translate = (\<lambda>k. k),
     env_mention = (\<lambda>_. False), env_decoder = silent_decoder, env_maxRawPackets = 500\<rparr>"

theorem app_always_consistent_witness:
  "let s = fold (app_step sample_env)
       [AOpen (Some (sample_conversation ''a'')) None, AMessage 5000 (sample_message 1 ''a'' 5), AReconnect,
        AContact [] (sample_contact ''a''), AContactsAnswer 1 (Some [sample_contact ''b''])] (app_init 0 [] []) in
     un_active (as_unread s) = cv_active (as_conv s) \<and> distinct (map ct_public_key (as_contacts s))"
  using app_always_consistent [of "\<lambda>_. getMessageContentKey (sample_message 1 ''a'' 5)" "\<lambda>_. []"
      "[AOpen (Some (sample_conversation ''a'')) None, AMessage 5000 (sample_message 1 ''a'' 5), AReconnect,
        AContact [] (sample_contact ''a''), AContactsAnswer 1 (Some [sample_contact ''b''])]" sample_env 0 "[]" "[]"]
  by (simp add: Let_def)

text \<open>
  C6: The open conversation never shows an unread badge. After any admissible run its count is zero
  and it has no mention mark. Admissible means that the backend keeps its promises and that no
  contact is resolved into the open conversation while unread messages wait under the old key.
\<close>

theorem open_conversation_has_no_badge:
  assumes "admissible (badge_allowed C owner) (app_step env) (app_init nowMs bk bn) es"
    and "trackedKey (cv_active (as_conv (fold (app_step env) es (app_init nowMs bk bn)))) = Some k"
  shows "let s = fold (app_step env) es (app_init nowMs bk bn) in
     count_of (as_unread s) k = 0 \<and> un_mentions (as_unread s) k \<noteq> Some True"
  using badge_machine.guarded_run [OF badge_ok_init assms(1)] assms(2)
  by (auto simp: badge_ok_def app_ok_def active_clear_def Let_def)

theorem open_conversation_has_no_badge_witness:
  "let s = fold (app_step sample_env)
       [AMessage 5000 (sample_message 1 ''a'' 5), AOpen (Some (sample_conversation ''a'')) None] (app_init 0 [] []) in
     count_of (as_unread s) ''contact-a'' = 0 \<and> un_mentions (as_unread s) ''contact-a'' \<noteq> Some True"
  by (rule open_conversation_has_no_badge [of "\<lambda>_. getMessageContentKey (sample_message 1 ''a'' 5)" "\<lambda>_. []"])
    (simp_all add: app_open_def trackedKey_def sample_conversation_def getStateKey_def sample_message_def
      onMessage_def observe_active Let_def split_beta isMessageBlocked_def app_init_def conv_init_def)

text \<open>
  C2: A reconnect never reverts what the socket reported meanwhile. Let the contacts of a reconnect
  arrive after any events but another reconnect. Then for every key, a contact the socket created,
  changed, resolved or deleted since the reconnect is as the socket left it, and every other
  contact is as the snapshot has it.
\<close>

theorem reconnect_keeps_newer_deltas:
  assumes ok: "app_ok C owner env s" and wait: "list_all (waits_for (as_generation s + 1)) es"
    and "list_all (app_promised C owner) es" and "distinct (map ct_public_key data)"
  shows "let live = fold (app_step env) (AReconnect # es) s;
             final = app_step env (AContactsAnswer (as_generation s + 1) (Some data)) live in
     at_key ct_public_key (as_contacts final) k =
       (if k \<in> (\<Union>e \<in> set es. set (touched_contacts e))
        then at_key ct_public_key (as_contacts live) k else at_key ct_public_key data k)"
proof -
  define live where "live = fold (app_step env) (AReconnect # es) s"
  have "tracks (as_generation s + 1) ({} \<union> (\<Union>e \<in> set es. set (touched_contacts e))) live"
    unfolding live_def using tracks_run [OF tracks_reconnect wait] ok by (simp add: app_ok_def)
  then obtain t where t: "as_generation live = as_generation s + 1"
      "find (\<lambda>t. tr_generation t = as_generation s + 1 \<and> \<not> tr_contactsDone t) (as_snapshots live) = Some t"
      "set (tr_contacts t) = (\<Union>e \<in> set es. set (touched_contacts e))"
    by (auto simp: tracks_def split: option.splits)
  have live_ok: "app_ok C owner env live"
    unfolding live_def by (rule app_machine.run_inv [OF ok]) (simp add: assms(3))
  then have "distinct (tr_contacts t)"
    using t(2) by (auto simp: app_ok_def trackers_ok_def find_Some_iff)
  then show ?thesis
    unfolding live_def [symmetric] Let_def
    using t merge_snapshot_at [of ct_public_key data "as_contacts live" "tr_contacts t"] assms(4) live_ok
    by (simp add: contacts_answer_def settle_tracker_def app_ok_def)
qed

theorem reconnect_keeps_newer_deltas_witness:
  "at_key ct_public_key (as_contacts (app_step sample_env (AContactsAnswer 1 (Some [sample_contact ''a'', sample_contact ''b'']))
     (fold (app_step sample_env) [AReconnect, AContactDeleted ''a''] (app_init 0 [] [])))) ''a'' = None"
  using reconnect_keeps_newer_deltas [OF app_ok_init, of 0 "[]" "[]" "[AContactDeleted ''a'']" "\<lambda>_. []" "\<lambda>_. []"
      "[sample_contact ''a'', sample_contact ''b'']" sample_env "''a''"]
  by (simp add: sample_contact_def app_init_def onContactDeleted_def onReconnect_def is_open_def Let_def
      reconcileOnReconnect_def conv_init_def removeConversationMessages_def)

text \<open>
  A blocked sender leaves no trace: an incoming message whose sender's key or name is blocked
  changes nothing at all. A message of a muted channel is stored and shown but touches no unread
  state.
\<close>

theorem blocked_message_ignored:
  "if isMessageBlocked m (as_blockedKeys s) (as_blockedNames s) then onMessage env n m s = s
   else as_conv (onMessage env n m s) = fst (observeMessage m (as_conv s)) \<and>
     (if msg_type m = CHAN \<and> msg_conversation_key m \<noteq> [] \<and>
         list_ex (\<lambda>c. ch_key c = msg_conversation_key m \<and> ch_muted c) (as_channels s)
      then as_unread (onMessage env n m s) = as_unread s else True)"
proof (cases "isMessageBlocked m (as_blockedKeys s) (as_blockedNames s)")
  case True
  then have "\<not> msg_outgoing m" by (auto simp: isMessageBlocked_def split: if_splits)
  then show ?thesis using True by (simp add: onMessage_def noteLiveOutgoingChannelMessage_def)
qed (auto simp: onMessage_def Let_def split_beta)



text \<open>
  A deleted contact is gone: it is not listed, it has no unread count, mention, boundary or
  preview, its conversation is closed if it was open, and if it was not open its cached messages
  are gone. Every other contact and the counts of every other conversation are as before.
\<close>

theorem deleted_contact_forgotten:
  "let s' = onContactDeleted key s; sk = getStateKey TrackedContact key in
     at_key ct_public_key (as_contacts s') key = None \<and> \<not> is_open ConvContact key s' \<and>
     un_counts (as_unread s') sk = None \<and> un_mentions (as_unread s') sk = None \<and>
     un_firstUnread (as_unread s') sk = None \<and> un_previews (as_unread s') sk = None \<and>
     (if is_open ConvContact key s then cv_active (as_conv s') = None
      else jm_get (cv_cache (as_conv s')) key = None) \<and>
     as_contacts s' = filter (\<lambda>c. ct_public_key c \<noteq> key) (as_contacts s)"
proof -
  have gone: "at_key ct_public_key (filter (\<lambda>c. ct_public_key c \<noteq> key) cs) key = None" for cs
    by (auto simp: at_key_None)
  have frame: "un_counts (open_tracked None u) = un_counts u" "un_mentions (open_tracked None u) = un_mentions u"
    "un_firstUnread (open_tracked None u) = un_firstUnread u" "un_previews (open_tracked None u) = un_previews u" for u
    by (simp_all add: open_tracked_def trackedKey_def mark_active_read_def)
  show ?thesis
  proof (cases "is_open ConvContact key s")
    case True
    then show ?thesis
      by (simp add: onContactDeleted_def is_open_def setActiveConversation_def app_open_def Let_def gone frame
          removeConversationState_def same_conversation_def split: option.splits)
  next
    case False
    then show ?thesis
      by (simp add: onContactDeleted_def is_open_def Let_def gone removeConversationState_def
          removeConversationMessages_def cache_remove_def js_map_simps)
  qed
qed

text \<open>
  What the two guards of the properties above exclude happens. Resolving a contact into the open
  conversation gives it a badge, and deleting the contact whose conversation is open puts its
  messages back into the cache, from where a later conversation with the same key shows them.
\<close>

lemma resolved_into_open_shows_badge:
  assumes "is_open ConvContact (ct_public_key c) s" and "p \<noteq> ct_public_key c"
    and "count_of (as_unread s) (getStateKey TrackedContact (ct_public_key c)) = 0"
  shows "count_of (as_unread (onContactResolved p ab c s)) (getStateKey TrackedContact (ct_public_key c)) =
     count_of (as_unread s) (getStateKey TrackedContact p)"
proof -
  have "\<not> is_open ConvContact p s" using assms(1, 2) by (auto simp: is_open_def split: option.splits)
  then have "as_unread (onContactResolved p ab c s) =
      renameConversationState (getStateKey TrackedContact p) (getStateKey TrackedContact (ct_public_key c)) (as_unread s)"
    by (simp add: onContactResolved_def is_open_def Let_def)
  then show ?thesis
    using assms(2, 3)
    by (cases "un_counts (as_unread s) (getStateKey TrackedContact p)")
      (simp_all add: renameConversationState_def rename_key_def coalesce_def Let_def)
qed

lemma deleted_open_conversation_recached:
  "map_option ce_messages (cache_peek ''a'' (cv_cache (as_conv (onContactDeleted ''a''
     ((app_init 0 [] [])\<lparr>as_conv := conv_init\<lparr>cv_active := Some (sample_conversation ''a''), cv_prevId := Some ''a'',
        cv_fetchingId := Some ''a'', cv_messages := [sample_message 1 ''a'' 5]\<rparr>\<rparr>))))) = Some [sample_message 1 ''a'' 5]"
  by (simp add: onContactDeleted_def is_open_def app_init_def sample_conversation_def setActiveConversation_def app_open_def
      same_conversation_def open_conversation_def conversation_effect_def effect_base_def handed_over_def conv_init_def
      removeConversationMessages_def cache_remove_def cache_set_def cache_peek_def public_entry_def normalizeEntry_def
      MAX_MESSAGES_PER_ENTRY_def MAX_CACHED_CONVERSATIONS_def evict_oldest_def jm_delete_def jm_get_def Let_def)

end
