(* ===== verification/Visualizer.thy ===== *)
theory Visualizer
  imports RawStats "HOL-Library.Disjoint_Sets"
begin

text \<open>
  The data layer of the mesh visualizer (\<^verbatim>\<open>utils/visualizerUtils.ts\<close>), with \<^verbatim>\<open>hashString\<close> of
  \<^verbatim>\<open>utils/contactAvatar.ts\<close> and \<^verbatim>\<open>normalizePacketTimestampMs\<close> of \<^verbatim>\<open>components/visualizer/shared.ts\<close>:
  what is read of a decoded packet, the identity of a packet, the keys of links, paths with hidden
  steps, and the traffic patterns that decide whether one hop token stands for several repeaters.
  The current time is an argument.
\<close>

section \<open>Packets\<close>

datatype node_type = NtSelf | NtRepeater | NtClient

record parsed_packet =
  pp_payloadType :: payload_type
  pp_messageHash :: "string option"
  pp_pathBytes :: "string list"
  pp_srcHash :: "string option"
  pp_dstHash :: "string option"
  pp_advertPubkey :: "string option"
  pp_groupTextSender :: "string option"
  pp_anonRequestPubkey :: "string option"

definition parsePacket :: "decoder \<Rightarrow> string \<Rightarrow> parsed_packet option" where
  "parsePacket dec hexData =
     (case dec_decode dec hexData of
        None \<Rightarrow> None
      | Some decoded \<Rightarrow>
          if \<not> dp_isValid decoded then None
          else
            let tracePayload = (if dp_payloadType decoded = PtTrace then dp_payload decoded else None);
                traceHashes = (case tracePayload of Some p \<Rightarrow> pl_pathHashes p | None \<Rightarrow> None);
                result = \<lparr>pp_payloadType = dp_payloadType decoded,
                          pp_messageHash = or_null (dp_messageHash decoded),
                          pp_pathBytes = (case traceHashes of
                              Some hs \<Rightarrow> hs | None \<Rightarrow> coalesce (dp_path decoded) []),
                          pp_srcHash = None, pp_dstHash = None, pp_advertPubkey = None,
                          pp_groupTextSender = None, pp_anonRequestPubkey = None\<rparr>
            in Some
              (case dp_payload decoded of
                 None \<Rightarrow> result
               | Some payload \<Rightarrow>
                   if dp_payloadType decoded = PtTextMessage then
                     result\<lparr>pp_srcHash := or_null (pl_sourceHash payload),
                            pp_dstHash := or_null (pl_destinationHash payload)\<rparr>
                   else if dp_payloadType decoded = PtAdvert then
                     result\<lparr>pp_advertPubkey := or_null (pl_publicKey payload)\<rparr>
                   else if dp_payloadType decoded = PtGroupText then
                     result\<lparr>pp_groupTextSender := or_null (pl_decrypted_sender payload)\<rparr>
                   else if dp_payloadType decoded = PtAnonRequest then
                     result\<lparr>pp_anonRequestPubkey := or_null (pl_senderPublicKey payload)\<rparr>
                   else result))"

definition getPacketLabel :: "payload_type \<Rightarrow> string" where
  "getPacketLabel t =
     (case t of
        PtAdvert \<Rightarrow> ''AD'' | PtGroupText \<Rightarrow> ''GT'' | PtTextMessage \<Rightarrow> ''DM'' | PtAck \<Rightarrow> ''ACK'' | PtTrace \<Rightarrow> ''TR''
      | PtRequest \<Rightarrow> ''RQ'' | PtAnonRequest \<Rightarrow> ''RQ'' | PtResponse \<Rightarrow> ''RS'' | PtOther _ \<Rightarrow> ''?'')"

text \<open>\<^verbatim>\<open>hash << 5\<close>, the difference and the sum are taken modulo 2^32 by \<^verbatim>\<open>hash & hash\<close>.\<close>

definition hash_step :: "char \<Rightarrow> 32 word \<Rightarrow> 32 word" where
  "hash_step c h = push_bit 5 h - h + of_nat (of_char c)"

definition hashString :: "string \<Rightarrow> int" where
  "hashString str = \<bar>sint (fold hash_step str 0)\<bar>"

definition generatePacketKey :: "parsed_packet \<Rightarrow> raw_packet \<Rightarrow> string" where
  "generatePacketKey parsed rawPacket =
     (let contentHash =
            take 8 (case pp_messageHash parsed of
                      Some h \<Rightarrow> h
                    | None \<Rightarrow> pad_start 8 (CHR ''0'') (nat_to_string 16 (nat (hashString (rp_data rawPacket)))));
          sender0 = (case rp_decrypted_info rawPacket of Some i \<Rightarrow> or_null (di_sender i) | None \<Rightarrow> None);
          channel0 = (case rp_decrypted_info rawPacket of Some i \<Rightarrow> or_null (di_channel_name i) | None \<Rightarrow> None);
          other = ''other:'' @ contentHash
      in case pp_payloadType parsed of
           PtAdvert \<Rightarrow> (case pp_advertPubkey parsed of Some k \<Rightarrow> ''ad:'' @ take 12 k | None \<Rightarrow> other)
         | PtGroupText \<Rightarrow>
             ''gt:'' @ coalesce channel0 ''?'' @ '':'' @
               (case pp_groupTextSender parsed of Some n \<Rightarrow> n | None \<Rightarrow> coalesce sender0 ''?'') @ '':'' @ contentHash
         | PtTextMessage \<Rightarrow>
             ''dm:'' @ coalesce (pp_srcHash parsed) ''?'' @ '':'' @ coalesce (pp_dstHash parsed) ''?'' @ '':'' @ contentHash
         | PtAnonRequest \<Rightarrow>
             (case pp_anonRequestPubkey parsed of Some k \<Rightarrow> ''rq:'' @ take 12 k @ '':'' @ contentHash | None \<Rightarrow> other)
         | _ \<Rightarrow> other)"

definition normalizePacketTimestampMs :: "int \<Rightarrow> int \<Rightarrow> int" where
  "normalizePacketTimestampMs nowMs timestamp =
     (if timestamp \<le> 0 then nowMs else if 1000000000000 < timestamp then timestamp else timestamp * 1000)"

section \<open>Nodes and links\<close>

definition normalizeHopToken :: "string option \<Rightarrow> string option" where
  "normalizeHopToken hop =
     (let normalized = (case hop of None \<Rightarrow> [] | Some h \<Rightarrow> to_lower (js_trim h)) in
      if 0 < length normalized then Some normalized else None)"

definition buildAmbiguousRepeaterNodeId :: "string \<Rightarrow> string option \<Rightarrow> string" where
  "buildAmbiguousRepeaterNodeId hop nextHop =
     (case normalizeHopToken (Some hop) of
        None \<Rightarrow> ''?''
      | Some hopKey \<Rightarrow>
          (case normalizeHopToken nextHop of
             Some n \<Rightarrow> ''?'' @ hopKey @ '':>'' @ n
           | None \<Rightarrow> ''?'' @ hopKey))"

definition buildAmbiguousRepeaterLabel :: "string \<Rightarrow> string option \<Rightarrow> string" where
  "buildAmbiguousRepeaterLabel hop nextHop =
     (case normalizeHopToken (Some hop) of
        None \<Rightarrow> ''?''
      | Some hopKey \<Rightarrow>
          (case normalizeHopToken nextHop of
             Some n \<Rightarrow> to_upper hopKey @ '':>'' @ to_upper n
           | None \<Rightarrow> to_upper hopKey))"

definition buildLinkKey :: "string \<Rightarrow> string \<Rightarrow> string" where
  "buildLinkKey sourceId targetId =
     join ''->'' (if sourceId \<le> targetId then [sourceId, targetId] else [targetId, sourceId])"

definition getNodeType :: "contact option \<Rightarrow> node_type" where
  "getNodeType contact =
     (case contact of
        Some c \<Rightarrow> if ct_type c = CONTACT_TYPE_REPEATER then NtRepeater else NtClient
      | None \<Rightarrow> NtClient)"

text \<open>\<^verbatim>\<open>arr.filter((item, i) => i === 0 || item !== arr[i - 1])\<close>.\<close>

definition dedupeConsecutive :: "'a list \<Rightarrow> 'a list" where
  "dedupeConsecutive arr =
     map (\<lambda>i. arr ! i) (filter (\<lambda>i. i = 0 \<or> arr ! i \<noteq> arr ! (i - 1)) [0..<length arr])"

section \<open>Paths with hidden steps\<close>

record path_step =
  ps_nodeId :: "string option"
  ps_markHiddenLinkWhenOmitted :: bool
  ps_hiddenLabel :: "string option"

record compact_state =
  cs_nodes :: "string list"
  cs_dashed :: "(string, string list) jsmap"
  cs_pendingHiddenLink :: bool
  cs_pendingHiddenLabels :: "string list"

definition compact_step :: "path_step \<Rightarrow> compact_state \<Rightarrow> compact_state" where
  "compact_step step s =
     (case or_null (ps_nodeId step) of
        Some nodeId \<Rightarrow>
          let previous = (if 0 < length (cs_nodes s) then Some (last (cs_nodes s)) else None);
              dashed =
                (case previous of
                   None \<Rightarrow> cs_dashed s
                 | Some p \<Rightarrow>
                     if cs_pendingHiddenLink s \<and> p \<noteq> nodeId then
                       let key = buildLinkKey p nodeId in
                       jm_set key (fold js_add (cs_pendingHiddenLabels s) (coalesce (jm_get (cs_dashed s) key) []))
                         (cs_dashed s)
                     else cs_dashed s)
          in s\<lparr>cs_nodes := (if previous \<noteq> Some nodeId then cs_nodes s @ [nodeId] else cs_nodes s),
               cs_dashed := dashed, cs_pendingHiddenLink := False, cs_pendingHiddenLabels := []\<rparr>
      | None \<Rightarrow>
          if ps_markHiddenLinkWhenOmitted step \<and> 0 < length (cs_nodes s) then
            s\<lparr>cs_pendingHiddenLink := True,
              cs_pendingHiddenLabels :=
                (case or_null (ps_hiddenLabel step) of
                   Some l \<Rightarrow> js_add l (cs_pendingHiddenLabels s)
                 | None \<Rightarrow> cs_pendingHiddenLabels s)\<rparr>
          else s)"

definition compactPathSteps :: "path_step list \<Rightarrow> string list \<times> (string, string list) jsmap" where
  "compactPathSteps steps =
     (let s = fold compact_step steps
            \<lparr>cs_nodes = [], cs_dashed = [], cs_pendingHiddenLink = False, cs_pendingHiddenLabels = []\<rparr>
      in (cs_nodes s, cs_dashed s))"

section \<open>Traffic patterns\<close>

definition MIN_OBSERVATIONS_TO_SPLIT :: nat where
  "MIN_OBSERVATIONS_TO_SPLIT = 20"

definition MAX_TRAFFIC_OBSERVATIONS :: nat where
  "MAX_TRAFFIC_OBSERVATIONS = 200"

definition TRAFFIC_OBSERVATION_MAX_AGE_MS :: int where
  "TRAFFIC_OBSERVATION_MAX_AGE_MS = 30 * 60 * 1000"

record traffic_observation =
  to_source :: string
  to_nextHop :: "string option"
  to_timestamp :: int

record repeater_traffic =
  rtd_hopKey :: string
  rtd_observations :: "traffic_observation list"

definition recent_observations :: "int \<Rightarrow> traffic_observation list \<Rightarrow> traffic_observation list" where
  "recent_observations now obs = filter (\<lambda>ob. now - to_timestamp ob < TRAFFIC_OBSERVATION_MAX_AGE_MS) obs"

definition add_to_group :: "'k \<Rightarrow> 'a \<Rightarrow> ('k, 'a list) jsmap \<Rightarrow> ('k, 'a list) jsmap" where
  "add_to_group k x m = jm_set k (js_add x (coalesce (jm_get m k) [])) m"

definition push_to_group :: "'k \<Rightarrow> 'a \<Rightarrow> ('k, 'a list) jsmap \<Rightarrow> ('k, 'a list) jsmap" where
  "push_to_group k x m = jm_set k (coalesce (jm_get m k) [] @ [x]) m"

text \<open>Whether to split, with the groups when it is to be split.\<close>

definition analyzeRepeaterTraffic :: "int \<Rightarrow> repeater_traffic \<Rightarrow> bool \<times> (string, string list) jsmap option" where
  "analyzeRepeaterTraffic now data =
     (let recent = recent_observations now (rtd_observations data);
          byNextHop = fold (\<lambda>ob. add_to_group (coalesce (to_nextHop ob) ''self'') (to_source ob)) recent []
      in if length byNextHop \<le> 1 then (False, None)
         else
           let allSources = fold (\<lambda>(nextHop, sources) m. fold (\<lambda>src. push_to_group src nextHop) sources m) byNextHop []
           in if list_ex (\<lambda>(src, nextHops). 1 < length nextHops) allSources then (False, None)
              else if list_ex (\<lambda>(nextHop, sources). length sources < MIN_OBSERVATIONS_TO_SPLIT) byNextHop then (False, None)
              else (True, Some byNextHop))"

definition recordTrafficObservation ::
    "int \<Rightarrow> string \<Rightarrow> string \<Rightarrow> string option \<Rightarrow> (string, repeater_traffic) jsmap \<Rightarrow> (string, repeater_traffic) jsmap" where
  "recordTrafficObservation now hopKey source nextHop traffic =
     (case normalizeHopToken (Some hopKey) of
        None \<Rightarrow> traffic
      | Some key \<Rightarrow>
          let data = coalesce (jm_get traffic key) \<lparr>rtd_hopKey = key, rtd_observations = []\<rparr>;
              obs1 = rtd_observations data @
                [\<lparr>to_source = source, to_nextHop = normalizeHopToken nextHop, to_timestamp = now\<rparr>];
              obs2 = recent_observations now obs1;
              obs3 = (if MAX_TRAFFIC_OBSERVATIONS < length obs2 then slice_from (- int MAX_TRAFFIC_OBSERVATIONS) obs2
                      else obs2)
          in jm_set key (data\<lparr>rtd_observations := obs3\<rparr>) traffic)"

section \<open>Lemmas\<close>

subsection \<open>Paths\<close>

lemma dedupe_is_remdups_adj: "dedupeConsecutive xs = remdups_adj xs"
proof (induction xs rule: remdups_adj.induct)
  case 1
  then show ?case by (simp add: dedupeConsecutive_def)
next
  case (2 x)
  then show ?case by (simp add: dedupeConsecutive_def)
next
  case (3 x y xs)
  let ?zs = "y # xs"
  have upt: "[0..<length (x # ?zs)] = 0 # map Suc [0..<length ?zs]" by (simp add: map_Suc_upt upt_conv_Cons del: upt_Suc)
  have shift: "filter (\<lambda>i. i = 0 \<or> (x # ?zs) ! i \<noteq> (x # ?zs) ! (i - 1)) (map Suc [0..<length ?zs]) =
      map Suc (filter (\<lambda>i. (x # ?zs) ! Suc i \<noteq> (x # ?zs) ! i) [0..<length ?zs])"
    by (simp add: filter_map comp_def del: upt_Suc)
  have rest: "map (\<lambda>i. ?zs ! i) (filter (\<lambda>i. (x # ?zs) ! Suc i \<noteq> (x # ?zs) ! i) [0..<length ?zs]) =
      (if x = y then [] else [y]) @ map (\<lambda>i. xs ! i) (filter (\<lambda>i. xs ! i \<noteq> ?zs ! i) [0..<length xs])"
  proof -
    have "[0..<length ?zs] = 0 # map Suc [0..<length xs]" by (simp add: map_Suc_upt upt_conv_Cons del: upt_Suc)
    then show ?thesis by (simp add: filter_map comp_def del: upt_Suc)
  qed
  have ded: "dedupeConsecutive ?zs = y # map (\<lambda>i. xs ! i) (filter (\<lambda>i. xs ! i \<noteq> ?zs ! i) [0..<length xs])"
  proof -
    have "[0..<length ?zs] = 0 # map Suc [0..<length xs]" by (simp add: map_Suc_upt upt_conv_Cons del: upt_Suc)
    then show ?thesis by (simp add: dedupeConsecutive_def filter_map comp_def del: upt_Suc)
  qed
  have "dedupeConsecutive (x # ?zs) =
      x # map (\<lambda>i. ?zs ! i) (filter (\<lambda>i. (x # ?zs) ! Suc i \<noteq> (x # ?zs) ! i) [0..<length ?zs])"
    unfolding dedupeConsecutive_def upt using shift by (simp add: comp_def del: upt_Suc)
  then show ?case using 3 rest ded by auto
qed

definition step_nodes :: "path_step list \<Rightarrow> string list" where
  "step_nodes steps = List.map_filter (\<lambda>s. or_null (ps_nodeId s)) steps"

lemma remdups_adj_snoc:
  "remdups_adj (xs @ [x]) = (if xs \<noteq> [] \<and> last xs = x then remdups_adj xs else remdups_adj xs @ [x])"
  by (induction xs rule: remdups_adj.induct) (auto simp: remdups_adj_Cons split: list.split)

lemma step_nodes_snoc:
  "step_nodes (ss @ [st]) = step_nodes ss @ (case or_null (ps_nodeId st) of None \<Rightarrow> [] | Some n \<Rightarrow> [n])"
  by (simp add: step_nodes_def List.map_filter_def split: option.split)

lemma compact_step_nodes:
  "cs_nodes (compact_step st s) =
     (case or_null (ps_nodeId st) of
        None \<Rightarrow> cs_nodes s
      | Some n \<Rightarrow> if cs_nodes s \<noteq> [] \<and> last (cs_nodes s) = n then cs_nodes s else cs_nodes s @ [n])"
  by (auto simp: compact_step_def Let_def split: option.split)

lemma compact_nodes:
  "fst (compactPathSteps steps) = remdups_adj (step_nodes steps)"
proof -
  have "cs_nodes (fold compact_step steps
      \<lparr>cs_nodes = [], cs_dashed = [], cs_pendingHiddenLink = False, cs_pendingHiddenLabels = []\<rparr>) =
      remdups_adj (step_nodes steps)"
  proof (induction steps rule: rev_induct)
    case (snoc st steps)
    then show ?case
      by (auto simp: compact_step_nodes step_nodes_snoc remdups_adj_snoc last_remdups_adj split: option.split)
  qed (simp add: step_nodes_def map_filter_simps)
  then show ?thesis by (simp add: compactPathSteps_def Let_def)
qed

text \<open>Where no step is marked as hidden, no link is dashed.\<close>

lemma compact_no_dashed:
  assumes "list_all (\<lambda>s. \<not> ps_markHiddenLinkWhenOmitted s) steps"
  shows "snd (compactPathSteps steps) = []"
proof -
  have "cs_dashed (fold compact_step steps s) = cs_dashed s \<and> \<not> cs_pendingHiddenLink (fold compact_step steps s)"
    if "\<not> cs_pendingHiddenLink s" for s
    using assms that
  proof (induction steps arbitrary: s)
    case (Cons st steps)
    have "cs_dashed (compact_step st s) = cs_dashed s \<and> \<not> cs_pendingHiddenLink (compact_step st s)"
      using Cons.prems by (simp add: compact_step_def Let_def split: option.split)
    then show ?case using Cons.IH [of "compact_step st s"] Cons.prems by simp
  qed simp
  from this [of "\<lparr>cs_nodes = [], cs_dashed = [], cs_pendingHiddenLink = False, cs_pendingHiddenLabels = []\<rparr>"]
  show ?thesis by (simp add: compactPathSteps_def Let_def)
qed

subsection \<open>Links\<close>

lemma buildLinkKey_commute: "buildLinkKey a b = buildLinkKey b a"
  by (auto simp: buildLinkKey_def)

subsection \<open>Groups\<close>

definition hop_of :: "traffic_observation \<Rightarrow> string" where
  "hop_of ob = coalesce (to_nextHop ob) ''self''"

definition sources_via :: "traffic_observation list \<Rightarrow> string \<Rightarrow> string set" where
  "sources_via obs h = to_source ` {ob \<in> set obs. hop_of ob = h}"

definition hop_groups :: "traffic_observation list \<Rightarrow> (string, string list) jsmap" where
  "hop_groups obs = fold (\<lambda>ob. add_to_group (hop_of ob) (to_source ob)) obs []"

lemma hop_groups_snoc: "hop_groups (obs @ [ob]) = add_to_group (hop_of ob) (to_source ob) (hop_groups obs)"
  by (simp add: hop_groups_def)

lemma hop_groups_get:
  "jm_wf (hop_groups obs) \<and>
   (case jm_get (hop_groups obs) h of
      None \<Rightarrow> h \<notin> hop_of ` set obs
    | Some xs \<Rightarrow> h \<in> hop_of ` set obs \<and> distinct xs \<and> set xs = sources_via obs h)"
proof (induction obs arbitrary: h rule: rev_induct)
  case Nil
  then show ?case by (simp add: hop_groups_def)
next
  case (snoc ob obs)
  have other: "sources_via (obs @ [ob]) h = sources_via obs h" if "hop_of ob \<noteq> h" for h
    using that by (auto simp: sources_via_def)
  have this_one: "sources_via (obs @ [ob]) (hop_of ob) = insert (to_source ob) (sources_via obs (hop_of ob))"
    by (auto simp: sources_via_def)
  have empty: "h \<notin> hop_of ` set obs \<Longrightarrow> sources_via obs h = {}" for h by (auto simp: sources_via_def)
  show ?case
    using snoc [of h] snoc [of "hop_of ob"] other [of h] this_one empty [of "hop_of ob"]
    by (cases "hop_of ob = h") (auto simp: hop_groups_snoc add_to_group_def js_map_simps coalesce_def jm_wf_set split: option.splits)
qed

lemma hop_groups_entries:
  "(h, xs) \<in> set (hop_groups obs) \<Longrightarrow> h \<in> hop_of ` set obs \<and> distinct xs \<and> set xs = sources_via obs h"
  using jm_in_set_get [of "hop_groups obs" h xs] hop_groups_get [of obs h] by auto

lemma hop_groups_keys: "set (jm_keys (hop_groups obs)) = hop_of ` set obs"
proof -
  have "h \<in> set (jm_keys (hop_groups obs)) \<longleftrightarrow> h \<in> hop_of ` set obs" for h
    using hop_groups_get [of obs h] jm.get_None [of "hop_groups obs" h] by (auto split: option.splits)
  then show ?thesis by blast
qed

lemma length_hop_groups: "length (hop_groups obs) = card (hop_of ` set obs)"
  using hop_groups_keys [of obs] hop_groups_get [of obs] distinct_card [of "jm_keys (hop_groups obs)"]
  by (simp add: jm_wf_def)

lemma push_group_get:
  "coalesce (jm_get (push_to_group k x m) k') [] = coalesce (jm_get m k') [] @ (if k' = k then [x] else [])"
  by (simp add: push_to_group_def js_map_simps coalesce_def)

lemma push_group_wf: "jm_wf m \<Longrightarrow> jm_wf (push_to_group k x m)"
  by (simp add: push_to_group_def jm_wf_set)

definition users :: "(string, string list) jsmap \<Rightarrow> (string, string list) jsmap \<Rightarrow> (string, string list) jsmap" where
  "users groups m = fold (\<lambda>(h, ss) m. fold (\<lambda>src. push_to_group src h) ss m) groups m"

lemma users_get:
  assumes "list_all (\<lambda>(h, ss). distinct ss) groups" and "jm_wf m"
  shows "jm_wf (users groups m) \<and> length (coalesce (jm_get (users groups m) src) []) =
     length (coalesce (jm_get m src) []) + length (filter (\<lambda>(h, ss). src \<in> set ss) groups)"
  using assms
proof (induction groups arbitrary: m)
  case (Cons g groups)
  obtain h ss where g: "g = (h, ss)" by (rule prod.exhaust)
  have "jm_wf (fold (\<lambda>s. push_to_group s h) ss m) \<and> length (coalesce (jm_get (fold (\<lambda>s. push_to_group s h) ss m) src) []) =
      length (coalesce (jm_get m src) []) + (if src \<in> set ss then 1 else 0)" if "jm_wf m" "distinct ss" for m
    using that by (induction ss arbitrary: m) (auto simp: push_group_get push_group_wf)
  then show ?case using Cons by (simp add: users_def g)
qed (simp add: users_def)

lemma two_in_filter:
  "distinct xs \<Longrightarrow> 1 < length (filter P xs) \<longleftrightarrow> (\<exists>x \<in> set xs. \<exists>y \<in> set xs. x \<noteq> y \<and> P x \<and> P y)"
proof -
  assume d: "distinct xs"
  have "length (filter P xs) = card {x \<in> set xs. P x}" using d by (metis distinct_card distinct_filter set_filter)
  moreover have "1 < card {x \<in> set xs. P x} \<longleftrightarrow> (\<exists>x \<in> set xs. \<exists>y \<in> set xs. x \<noteq> y \<and> P x \<and> P y)"
    using card_le_Suc0_iff_eq [of "{x \<in> set xs. P x}"] by (auto simp: not_le [symmetric])
  ultimately show ?thesis by simp
qed

lemma users_conflict:
  assumes d: "list_all (\<lambda>(h, ss). distinct ss) groups" and wf: "jm_wf groups"
  shows "list_ex (\<lambda>(src, hs). 1 < length hs) (users groups []) \<longleftrightarrow>
     (\<exists>h ss h' ss'. (h, ss) \<in> set groups \<and> (h', ss') \<in> set groups \<and> h \<noteq> h' \<and> set ss \<inter> set ss' \<noteq> {})"
    (is "?L \<longleftrightarrow> ?R")
proof -
  have u: "jm_wf (users groups [])" "length (coalesce (jm_get (users groups []) src) []) =
      length (filter (\<lambda>(h, ss). src \<in> set ss) groups)" for src
    using users_get [OF d, of "[]" src] by (simp_all add: coalesce_def)
  have "?L \<longleftrightarrow> (\<exists>src. 1 < length (coalesce (jm_get (users groups []) src) []))"
  proof
    assume ?L
    then obtain src hs where "(src, hs) \<in> set (users groups [])" "1 < length hs" by (auto simp: list_ex_iff)
    then show "\<exists>src. 1 < length (coalesce (jm_get (users groups []) src) [])"
      using jm_in_set_get [OF u(1)] by (intro exI [of _ src]) (simp add: coalesce_def)
  next
    assume "\<exists>src. 1 < length (coalesce (jm_get (users groups []) src) [])"
    then obtain src hs where "jm_get (users groups []) src = Some hs" "1 < length hs"
      by (auto simp: coalesce_def split: option.splits)
    then show ?L by (auto simp: list_ex_iff dest: jm_get_in_set)
  qed
  also have "\<dots> \<longleftrightarrow> ?R"
  proof -
    have inj: "(h, a) \<in> set groups \<Longrightarrow> (h, b) \<in> set groups \<Longrightarrow> a = b" for h a b
      using jm_in_set_get [OF wf] by (metis option.inject)
    have "distinct groups" using wf by (simp add: jm_wf_def jm_keys_def distinct_map)
    show ?thesis unfolding u(2) two_in_filter [OF \<open>distinct groups\<close>]
    proof
      assume "\<exists>src. \<exists>x \<in> set groups. \<exists>y \<in> set groups. x \<noteq> y \<and> (case x of (h, ss) \<Rightarrow> src \<in> set ss) \<and>
        (case y of (h, ss) \<Rightarrow> src \<in> set ss)"
      then obtain src x y where "x \<in> set groups" "y \<in> set groups" "x \<noteq> y" "src \<in> set (snd x)" "src \<in> set (snd y)"
        unfolding case_prod_unfold by blast
      then obtain h ss h' ss' where xy: "(h, ss) \<in> set groups" "(h', ss') \<in> set groups" "(h, ss) \<noteq> (h', ss')"
        "src \<in> set ss" "src \<in> set ss'" by (metis prod.collapse)
      then have "h \<noteq> h'" using inj by auto
      then show ?R using xy by blast
    next
      assume ?R
      then show "\<exists>src. \<exists>x \<in> set groups. \<exists>y \<in> set groups. x \<noteq> y \<and> (case x of (h, ss) \<Rightarrow> src \<in> set ss) \<and>
        (case y of (h, ss) \<Rightarrow> src \<in> set ss)"
        by fast
    qed
  qed
  finally show ?thesis .
qed

section \<open>Properties\<close>

text \<open>
  When a repeater is split. Over the observations of the last half hour, the analysis decides to
  split a hop token exactly when there are at least two next hops, no source uses two of them, and
  every next hop has at least 20 different sources; the groups it returns are exactly the sources
  by next hop.
\<close>

theorem split_exactly_disjoint:
  "let recent = recent_observations now (rtd_observations data); hops = hop_of ` set recent in
     (fst (analyzeRepeaterTraffic now data) \<longleftrightarrow>
        1 < card hops \<and> disjoint_family_on (sources_via recent) hops \<and> hops \<subseteq> {h. 20 \<le> card (sources_via recent h)}) \<and>
     snd (analyzeRepeaterTraffic now data) =
       (if fst (analyzeRepeaterTraffic now data) then Some (hop_groups recent) else None)"
proof -
  define recent where "recent = recent_observations now (rtd_observations data)"
  let ?g = "hop_groups recent"
  have g: "fold (\<lambda>ob. add_to_group (coalesce (to_nextHop ob) ''self'') (to_source ob)) recent [] = ?g"
    by (simp add: hop_groups_def hop_of_def)
  have wf: "jm_wf ?g" using hop_groups_get by blast
  have d: "list_all (\<lambda>(h, ss). distinct ss) ?g"
    using hop_groups_entries [of _ _ recent] by (auto simp: list_all_iff)
  have entry: "h \<in> hop_of ` set recent \<Longrightarrow> \<exists>xs. (h, xs) \<in> set ?g \<and> set xs = sources_via recent h \<and> distinct xs" for h
    using hop_groups_get [of recent h] by (auto dest: jm_get_in_set split: option.splits)
  have conflict: "list_ex (\<lambda>(src, hs). 1 < length hs) (users ?g []) \<longleftrightarrow>
      \<not> disjoint_family_on (sources_via recent) (hop_of ` set recent)"
    unfolding users_conflict [OF d wf] disjoint_family_on_def
  proof
    assume "\<exists>h ss h' ss'. (h, ss) \<in> set ?g \<and> (h', ss') \<in> set ?g \<and> h \<noteq> h' \<and> set ss \<inter> set ss' \<noteq> {}"
    then obtain h ss h' ss' where e: "(h, ss) \<in> set ?g" "(h', ss') \<in> set ?g" "h \<noteq> h'" "set ss \<inter> set ss' \<noteq> {}" by blast
    show "\<not> (\<forall>m \<in> hop_of ` set recent. \<forall>n \<in> hop_of ` set recent. m \<noteq> n \<longrightarrow> sources_via recent m \<inter> sources_via recent n = {})"
      using hop_groups_entries [OF e(1)] hop_groups_entries [OF e(2)] e(3, 4) by metis
  next
    assume "\<not> (\<forall>m \<in> hop_of ` set recent. \<forall>n \<in> hop_of ` set recent. m \<noteq> n \<longrightarrow> sources_via recent m \<inter> sources_via recent n = {})"
    then obtain m n where "m \<in> hop_of ` set recent" "n \<in> hop_of ` set recent" "m \<noteq> n"
      "sources_via recent m \<inter> sources_via recent n \<noteq> {}" by blast
    then show "\<exists>h ss h' ss'. (h, ss) \<in> set ?g \<and> (h', ss') \<in> set ?g \<and> h \<noteq> h' \<and> set ss \<inter> set ss' \<noteq> {}"
      using entry [of m] entry [of n] by metis
  qed
  have small: "list_ex (\<lambda>(h, ss). length ss < MIN_OBSERVATIONS_TO_SPLIT) ?g \<longleftrightarrow>
      \<not> hop_of ` set recent \<subseteq> {h. 20 \<le> card (sources_via recent h)}" (is "?L \<longleftrightarrow> ?R")
  proof -
    have "(h, xs) \<in> set ?g \<Longrightarrow> length xs = card (sources_via recent h)" for h xs
      using hop_groups_entries [of h xs recent] distinct_card [of xs] by simp
    then show ?thesis
      using hop_groups_entries [of _ _ recent] entry
      by (fastforce simp: list_ex_iff MIN_OBSERVATIONS_TO_SPLIT_def subset_iff not_le)
  qed
  have "analyzeRepeaterTraffic now data =
      (if length ?g \<le> 1 \<or> list_ex (\<lambda>(src, hs). 1 < length hs) (users ?g []) \<or>
          list_ex (\<lambda>(h, ss). length ss < MIN_OBSERVATIONS_TO_SPLIT) ?g then (False, None) else (True, Some ?g))"
    unfolding analyzeRepeaterTraffic_def recent_def [symmetric] g users_def Let_def by simp
  then show ?thesis
    unfolding recent_def [symmetric] Let_def conflict small length_hop_groups by auto
qed

end
