(* ===== verification/NetGraph.thy ===== *)
theory NetGraph
  imports Visualizer
begin

text \<open>
  The network graph built from overheard packets (\<^verbatim>\<open>networkGraph/packetNetworkGraph.ts\<close>): the context
  with its indexes of contacts, the state with nodes, links, neighbours, observed paths and traffic
  patterns, the resolution of hop tokens to nodes, the ingestion of a packet, the projection to
  what is shown, and pruning. The module updates its state in place; here every operation returns
  the state. The current time and \<^verbatim>\<open>localeCompare\<close> are arguments.
\<close>

section \<open>Context and state\<close>

record net_context =
  nc_byPrefix12 :: "(string, contact) jsmap"
  nc_byName :: "(string, contact) jsmap"
  nc_byPrefix :: "(string, contact list) jsmap"
  nc_byRepeater :: "(string, advert_path list) jsmap"
  nc_myPrefix :: "string option"
  nc_splitAmbiguousByTraffic :: bool
  nc_useAdvertPathHints :: bool

record net_visibility =
  nv_showAmbiguousNodes :: bool
  nv_showAmbiguousPaths :: bool
  nv_collapseLikelyKnownSiblingRepeaters :: bool

record net_node =
  nn_id :: string
  nn_name :: "string option"
  nn_type :: node_type
  nn_isAmbiguous :: bool
  nn_lastActivity :: int
  nn_lastActivityReason :: "string option"
  nn_lastSeen :: "int option option"
  nn_probableIdentity :: "string option option"
  nn_probableIdentityNodeId :: "string option option"
  nn_ambiguousNames :: "string list option"

record net_link =
  nl_sourceId :: string
  nl_targetId :: string
  nl_lastActivity :: int

record projected_link = net_link +
  pl_hasDirectObservation :: bool
  pl_hasHiddenIntermediate :: bool
  pl_hiddenHopLabels :: "string list"

record net_observation =
  no_nodes :: "string list"
  no_activityAtMs :: int

record net_state =
  ng_nodes :: "(string, net_node) jsmap"
  ng_links :: "(string, net_link) jsmap"
  ng_neighborIds :: "(string, string list) jsmap"
  ng_observations :: "net_observation list"
  ng_trafficPatterns :: "(string, repeater_traffic) jsmap"

definition prefix12 :: "string \<Rightarrow> string" where
  "prefix12 key = to_lower (take 12 key)"

definition index_contact :: "contact \<Rightarrow> net_context \<Rightarrow> net_context" where
  "index_contact c ctx =
     (let p = prefix12 (ct_public_key c) in
      ctx\<lparr>nc_byPrefix12 := jm_set p c (nc_byPrefix12 ctx),
          nc_byName :=
            (case or_null (ct_name c) of
               Some n \<Rightarrow> if jm_has (nc_byName ctx) n then nc_byName ctx else jm_set n c (nc_byName ctx)
             | None \<Rightarrow> nc_byName ctx),
          nc_byPrefix := fold (\<lambda>len. push_to_group (take len p) c) [1..<13] (nc_byPrefix ctx)\<rparr>)"

definition buildPacketNetworkContext ::
    "radio_config option \<Rightarrow> contact list \<Rightarrow> advert_path_summary list \<Rightarrow> bool \<Rightarrow> bool \<Rightarrow> net_context" where
  "buildPacketNetworkContext config contacts repeaterAdvertPaths split hints =
     (let empty = \<lparr>nc_byPrefix12 = [], nc_byName = [], nc_byPrefix = [],
            nc_byRepeater =
              fold (\<lambda>s m. jm_set (prefix12 (aps_public_key s)) (aps_paths s) m) repeaterAdvertPaths [],
            nc_myPrefix = or_null (map_option (\<lambda>c. prefix12 (rc_public_key c)) config),
            nc_splitAmbiguousByTraffic = split, nc_useAdvertPathHints = hints\<rparr>
      in fold index_contact contacts empty)"

definition self_node :: "string \<Rightarrow> int \<Rightarrow> net_node" where
  "self_node selfName now =
     \<lparr>nn_id = ''self'', nn_name = Some selfName, nn_type = NtSelf, nn_isAmbiguous = False, nn_lastActivity = now,
      nn_lastActivityReason = None, nn_lastSeen = None, nn_probableIdentity = None,
      nn_probableIdentityNodeId = None, nn_ambiguousNames = None\<rparr>"

definition createPacketNetworkState :: "string \<Rightarrow> int \<Rightarrow> net_state" where
  "createPacketNetworkState selfName now =
     \<lparr>ng_nodes = [(''self'', self_node selfName now)], ng_links = [], ng_neighborIds = [], ng_observations = [],
      ng_trafficPatterns = []\<rparr>"

definition ensureSelfNode :: "string \<Rightarrow> int \<Rightarrow> net_state \<Rightarrow> net_state" where
  "ensureSelfNode selfName now s =
     (case jm_get (ng_nodes s) ''self'' of
        Some existing \<Rightarrow> s\<lparr>ng_nodes := jm_set ''self'' (existing\<lparr>nn_name := Some selfName\<rparr>) (ng_nodes s)\<rparr>
      | None \<Rightarrow> s\<lparr>ng_nodes := jm_set ''self'' (self_node selfName now) (ng_nodes s)\<rparr>)"

definition clearPacketNetworkState :: "string \<Rightarrow> int \<Rightarrow> net_state \<Rightarrow> net_state" where
  "clearPacketNetworkState selfName now s =
     s\<lparr>ng_links := [], ng_neighborIds := [], ng_observations := [], ng_trafficPatterns := [],
       ng_nodes := [(''self'', (self_node selfName now)\<lparr>nn_lastSeen := Some None\<rparr>)]\<rparr>"

section \<open>Nodes, links, neighbours\<close>

record node_update =
  nu_id :: string
  nu_name :: "string option"
  nu_type :: node_type
  nu_isAmbiguous :: bool
  nu_activityAtMs :: int
  nu_lastSeen :: "int option option"
  nu_probableIdentity :: "string option option"
  nu_probableIdentityNodeId :: "string option option"
  nu_ambiguousNames :: "string list option"

definition assign :: "'a option \<Rightarrow> 'a option \<Rightarrow> 'a option" where
  "assign new old = (case new of None \<Rightarrow> old | Some v \<Rightarrow> Some v)"

definition addOrUpdateNode :: "node_update \<Rightarrow> net_state \<Rightarrow> net_state" where
  "addOrUpdateNode u s =
     (case jm_get (ng_nodes s) (nu_id u) of
        Some existing \<Rightarrow>
          s\<lparr>ng_nodes := jm_set (nu_id u)
              (existing\<lparr>nn_lastActivity := max (nn_lastActivity existing) (nu_activityAtMs u),
                 nn_name := assign (or_null (nu_name u)) (nn_name existing),
                 nn_probableIdentity := assign (nu_probableIdentity u) (nn_probableIdentity existing),
                 nn_probableIdentityNodeId := assign (nu_probableIdentityNodeId u) (nn_probableIdentityNodeId existing),
                 nn_ambiguousNames := assign (nu_ambiguousNames u) (nn_ambiguousNames existing),
                 nn_lastSeen := assign (nu_lastSeen u) (nn_lastSeen existing)\<rparr>) (ng_nodes s)\<rparr>
      | None \<Rightarrow>
          s\<lparr>ng_nodes := jm_set (nu_id u)
              \<lparr>nn_id = nu_id u, nn_name = nu_name u, nn_type = nu_type u, nn_isAmbiguous = nu_isAmbiguous u,
               nn_lastActivity = nu_activityAtMs u, nn_lastActivityReason = None, nn_lastSeen = nu_lastSeen u,
               nn_probableIdentity = nu_probableIdentity u,
               nn_probableIdentityNodeId = nu_probableIdentityNodeId u,
               nn_ambiguousNames = nu_ambiguousNames u\<rparr> (ng_nodes s)\<rparr>)"

definition addCanonicalLink :: "string \<Rightarrow> string \<Rightarrow> int \<Rightarrow> net_state \<Rightarrow> net_state" where
  "addCanonicalLink sourceId targetId activityAtMs s =
     (let key = buildLinkKey sourceId targetId in
      case jm_get (ng_links s) key of
        Some existing \<Rightarrow>
          s\<lparr>ng_links := jm_set key (existing\<lparr>nl_lastActivity := max (nl_lastActivity existing) activityAtMs\<rparr>) (ng_links s)\<rparr>
      | None \<Rightarrow>
          s\<lparr>ng_links := jm_set key
              \<lparr>nl_sourceId = sourceId, nl_targetId = targetId, nl_lastActivity = activityAtMs\<rparr> (ng_links s)\<rparr>)"

definition upsertNeighbor :: "string \<Rightarrow> string \<Rightarrow> (string, string list) jsmap \<Rightarrow> (string, string list) jsmap" where
  "upsertNeighbor sourceId targetId m = add_to_group targetId sourceId (add_to_group sourceId targetId m)"

section \<open>Resolving a hop\<close>

record scored_candidate =
  sc_candidate :: contact
  sc_matchScore :: int
  sc_totalScore :: int

definition score_candidate :: "net_context \<Rightarrow> string option \<Rightarrow> contact \<Rightarrow> scored_candidate" where
  "score_candidate ctx nextHop c =
     (let paths = coalesce (jm_get (nc_byRepeater ctx) (prefix12 (ct_public_key c))) [] in
      \<lparr>sc_candidate = c,
       sc_matchScore = sum_list (map ap_heard_count (filter (\<lambda>p. map_option to_lower (ap_next_hop p) = nextHop) paths)),
       sc_totalScore = sum_list (map ap_heard_count paths)\<rparr>)"

definition pickLikelyRepeaterByAdvertPath ::
    "(string \<Rightarrow> string \<Rightarrow> int) \<Rightarrow> net_context \<Rightarrow> contact list \<Rightarrow> string option \<Rightarrow> contact option" where
  "pickLikelyRepeaterByAdvertPath compare ctx candidates nextPrefix =
     (let nextHop = map_option to_lower nextPrefix;
          scored = js_sort (\<lambda>a b. js_or (sc_matchScore b - sc_matchScore a)
                      (js_or (sc_totalScore b - sc_totalScore a)
                        (compare (ct_public_key (sc_candidate a)) (ct_public_key (sc_candidate b)))))
                    (filter (\<lambda>e. 0 < sc_totalScore e) (map (score_candidate ctx nextHop) candidates))
      in case scored of
           [] \<Rightarrow> None
         | best # rest \<Rightarrow>
             if sc_matchScore best < 2 then None
             else (case rest of
                     second # _ \<Rightarrow>
                       if sc_matchScore best < sc_matchScore second * 2 then None else Some (sc_candidate best)
                   | [] \<Rightarrow> Some (sc_candidate best)))"

datatype node_source = SrcPrefix string | SrcPubkey string | SrcName string

record traffic_context =
  tc_packetSource :: "string option"
  tc_nextPrefix :: "string option"

definition known_node :: "contact \<Rightarrow> string \<Rightarrow> int \<Rightarrow> node_update" where
  "known_node c nodeId activityAtMs =
     \<lparr>nu_id = nodeId, nu_name = ct_name c, nu_type = getNodeType (Some c), nu_isAmbiguous = False,
      nu_activityAtMs = activityAtMs, nu_lastSeen = Some (ct_last_seen c), nu_probableIdentity = None,
      nu_probableIdentityNodeId = None, nu_ambiguousNames = None\<rparr>"

definition latest_seen :: "contact list \<Rightarrow> int option" where
  "latest_seen cs =
     fold (\<lambda>c m. case ct_last_seen c of
        Some t \<Rightarrow> if t \<noteq> 0 \<and> (case m of None \<Rightarrow> True | Some x \<Rightarrow> x = 0 \<or> x < t) then Some t else m
      | None \<Rightarrow> m) cs None"

definition short_name :: "nat \<Rightarrow> contact \<Rightarrow> string" where
  "short_name n c = coalesce (or_null (ct_name c)) (take n (ct_public_key c))"

text \<open>
  The part of \<open>resolveNode\<close> for a token that stands for several repeaters or for an unknown one:
  the traffic patterns afterwards, whether the token is split by its next hop, and the node.
\<close>

definition ambiguous_patterns ::
    "int \<Rightarrow> net_context \<Rightarrow> string \<Rightarrow> bool \<Rightarrow> traffic_context option \<Rightarrow> (string, repeater_traffic) jsmap \<Rightarrow>
     (string, repeater_traffic) jsmap" where
  "ambiguous_patterns now ctx lookupValue isRepeater traffic patterns =
     (case traffic of
        Some tc \<Rightarrow>
          if nc_splitAmbiguousByTraffic ctx \<and> isRepeater then
            (case or_null (tc_packetSource tc) of
               Some src \<Rightarrow>
                 recordTrafficObservation now lookupValue src (map_option to_lower (tc_nextPrefix tc)) patterns
             | None \<Rightarrow> patterns)
          else patterns
      | None \<Rightarrow> patterns)"

definition split_next ::
    "int \<Rightarrow> net_context \<Rightarrow> string \<Rightarrow> bool \<Rightarrow> traffic_context option \<Rightarrow> (string, repeater_traffic) jsmap \<Rightarrow> string option" where
  "split_next now ctx lookupValue isRepeater traffic patterns =
     (case traffic of
        Some tc \<Rightarrow>
          if nc_splitAmbiguousByTraffic ctx \<and> isRepeater then
            (case jm_get patterns lookupValue of
               Some data \<Rightarrow>
                 if fst (analyzeRepeaterTraffic now data) then or_null (map_option to_lower (tc_nextPrefix tc)) else None
             | None \<Rightarrow> None)
          else None
      | None \<Rightarrow> None)"

definition ambiguous_update ::
    "(string \<Rightarrow> string \<Rightarrow> int) \<Rightarrow> net_context \<Rightarrow> string \<Rightarrow> contact list \<Rightarrow> bool \<Rightarrow> int \<Rightarrow> traffic_context option \<Rightarrow> string option \<Rightarrow>
     node_update" where
  "ambiguous_update compare ctx lookupValue filtered isRepeater activityAtMs traffic splitNext =
     (let names = map (short_name 8) filtered;
          likely = (case traffic of
              Some tc \<Rightarrow> if nc_useAdvertPathHints ctx \<and> isRepeater
                then pickLikelyRepeaterByAdvertPath compare ctx filtered (tc_nextPrefix tc) else None
            | None \<Rightarrow> None);
          likelyName = map_option
            (\<lambda>l. coalesce (or_null (ct_name l)) (to_upper (take 12 (ct_public_key l)))) likely;
          ambiguousNames =
            (case likely of
               Some l \<Rightarrow> Some (map (short_name 8) (filter (\<lambda>c. ct_public_key c \<noteq> ct_public_key l) filtered))
             | None \<Rightarrow> if 0 < length names then Some names else None);
          displayName = coalesce likelyName (buildAmbiguousRepeaterLabel lookupValue None);
          name = (if splitNext \<noteq> None \<and> or_null likelyName = None
                  then buildAmbiguousRepeaterLabel lookupValue splitNext else displayName)
      in \<lparr>nu_id = buildAmbiguousRepeaterNodeId lookupValue splitNext, nu_name = Some name,
          nu_type = (if isRepeater then NtRepeater else NtClient), nu_isAmbiguous = True,
          nu_activityAtMs = activityAtMs, nu_lastSeen = Some (latest_seen filtered),
          nu_probableIdentity = Some likelyName,
          nu_probableIdentityNodeId = Some (map_option (\<lambda>l. prefix12 (ct_public_key l)) likely),
          nu_ambiguousNames = ambiguousNames\<rparr>)"

definition resolve_ambiguous ::
    "(string \<Rightarrow> string \<Rightarrow> int) \<Rightarrow> int \<Rightarrow> net_context \<Rightarrow> string \<Rightarrow> contact list \<Rightarrow> bool \<Rightarrow> int \<Rightarrow> traffic_context option \<Rightarrow>
     net_state \<Rightarrow> net_state \<times> string" where
  "resolve_ambiguous compare now ctx lookupValue filtered isRepeater activityAtMs traffic s =
     (let patterns = ambiguous_patterns now ctx lookupValue isRepeater traffic (ng_trafficPatterns s);
          u = ambiguous_update compare ctx lookupValue filtered isRepeater activityAtMs traffic
                (split_next now ctx lookupValue isRepeater traffic patterns)
      in (addOrUpdateNode u (s\<lparr>ng_trafficPatterns := patterns\<rparr>), nu_id u))"

definition resolveNode ::
    "(string \<Rightarrow> string \<Rightarrow> int) \<Rightarrow> int \<Rightarrow> net_context \<Rightarrow> node_source \<Rightarrow> bool \<Rightarrow> bool \<Rightarrow> int \<Rightarrow> traffic_context option \<Rightarrow>
     net_state \<Rightarrow> net_state \<times> string option" where
  "resolveNode compare now ctx source isRepeater showAmbiguous activityAtMs traffic s =
     (case source of
        SrcPubkey v \<Rightarrow>
          if length v < 12 then (s, None)
          else
            let nodeId = prefix12 v in
            if nc_myPrefix ctx = Some nodeId then (s, Some ''self'')
            else
              let contact = jm_get (nc_byPrefix12 ctx) nodeId in
              (addOrUpdateNode
                 \<lparr>nu_id = nodeId, nu_name = (case contact of Some c \<Rightarrow> or_null (ct_name c) | None \<Rightarrow> None),
                  nu_type = getNodeType contact, nu_isAmbiguous = False, nu_activityAtMs = activityAtMs,
                  nu_lastSeen = map_option ct_last_seen contact, nu_probableIdentity = None,
                  nu_probableIdentityNodeId = None, nu_ambiguousNames = None\<rparr> s, Some nodeId)
      | SrcName v \<Rightarrow>
          (case jm_get (nc_byName ctx) v of
             Some c \<Rightarrow>
               let nodeId = prefix12 (ct_public_key c) in
               if nc_myPrefix ctx = Some nodeId then (s, Some ''self'')
               else (addOrUpdateNode (known_node c nodeId activityAtMs) s, Some nodeId)
           | None \<Rightarrow>
               let nodeId = ''name:'' @ v in
               (addOrUpdateNode
                  \<lparr>nu_id = nodeId, nu_name = Some v, nu_type = NtClient, nu_isAmbiguous = False,
                   nu_activityAtMs = activityAtMs, nu_lastSeen = None, nu_probableIdentity = None,
                   nu_probableIdentityNodeId = None, nu_ambiguousNames = None\<rparr> s, Some nodeId))
      | SrcPrefix v \<Rightarrow>
          let lookupValue = to_lower v; matches = coalesce (jm_get (nc_byPrefix ctx) lookupValue) [] in
          (case matches of
             [c] \<Rightarrow>
               let nodeId = prefix12 (ct_public_key c) in
               if nc_myPrefix ctx = Some nodeId then (s, Some ''self'')
               else (addOrUpdateNode (known_node c nodeId activityAtMs) s, Some nodeId)
           | _ \<Rightarrow>
               if \<not> showAmbiguous then (s, None)
               else
                 let filtered = (if isRepeater then filter (\<lambda>c. ct_type c = CONTACT_TYPE_REPEATER) matches
                                 else filter (\<lambda>c. ct_type c \<noteq> CONTACT_TYPE_REPEATER) matches) in
                 (case filtered of
                    [only] \<Rightarrow>
                      let nodeId = prefix12 (ct_public_key only) in
                      (addOrUpdateNode (known_node only nodeId activityAtMs) s, Some nodeId)
                  | _ \<Rightarrow>
                      if length filtered = 0 \<and> \<not> isRepeater then (s, None)
                      else
                        let (s', nodeId) = resolve_ambiguous compare now ctx lookupValue filtered isRepeater
                                             activityAtMs traffic s
                        in (s', Some nodeId))))"

section \<open>Ingesting a packet\<close>

type_synonym resolver = "node_source \<Rightarrow> bool \<Rightarrow> bool \<Rightarrow> traffic_context option \<Rightarrow> net_state \<Rightarrow> net_state \<times> string option"

definition source_of_packet :: "net_context \<Rightarrow> parsed_packet \<Rightarrow> raw_packet \<Rightarrow> (node_source \<times> bool) option" where
  "source_of_packet ctx parsed packet =
     (case pp_payloadType parsed of
        PtAdvert \<Rightarrow> map_option (\<lambda>k. (SrcPubkey k, False)) (or_null (pp_advertPubkey parsed))
      | PtAnonRequest \<Rightarrow> map_option (\<lambda>k. (SrcPubkey k, False)) (or_null (pp_anonRequestPubkey parsed))
      | PtTextMessage \<Rightarrow> map_option (\<lambda>h. (SrcPrefix h, True)) (or_null (pp_srcHash parsed))
      | PtGroupText \<Rightarrow>
          map_option (\<lambda>n. (SrcName n, False))
            (case or_null (pp_groupTextSender parsed) of
               Some n \<Rightarrow> Some n
             | None \<Rightarrow> (case rp_decrypted_info packet of Some i \<Rightarrow> or_null (di_sender i) | None \<Rightarrow> None))
      | _ \<Rightarrow> None)"

definition resolve_source :: "resolver \<Rightarrow> net_context \<Rightarrow> parsed_packet \<Rightarrow> raw_packet \<Rightarrow> net_state \<Rightarrow> net_state \<times> string option" where
  "resolve_source resolve ctx parsed packet s =
     (case source_of_packet ctx parsed packet of
        None \<Rightarrow> (s, None)
      | Some (source, showAmbiguous) \<Rightarrow>
          if pp_payloadType parsed = PtTextMessage \<and> nc_myPrefix ctx \<noteq> None \<and>
             map_option to_lower (pp_srcHash parsed) = nc_myPrefix ctx then (s, Some ''self'')
          else
            let (s', nodeId) = resolve source False showAmbiguous None s in (s', or_null nodeId))"

fun resolve_hops :: "resolver \<Rightarrow> string option \<Rightarrow> string list \<Rightarrow> net_state \<Rightarrow> net_state \<times> string list" where
  "resolve_hops resolve packetSource [] s = (s, [])"
| "resolve_hops resolve packetSource (hop # hops) s =
     (let nextPrefix = (case hops of [] \<Rightarrow> None | h # _ \<Rightarrow> or_null (Some h));
          (s1, nodeId) = resolve (SrcPrefix hop) True True
             (Some \<lparr>tc_packetSource = packetSource, tc_nextPrefix = nextPrefix\<rparr>) s;
          (s2, path) = resolve_hops resolve packetSource hops s1
      in (s2, case or_null nodeId of Some n \<Rightarrow> n # path | None \<Rightarrow> path))"

definition buildCanonicalPathForPacket ::
    "(string \<Rightarrow> string \<Rightarrow> int) \<Rightarrow> int \<Rightarrow> net_context \<Rightarrow> parsed_packet \<Rightarrow> raw_packet \<Rightarrow> int \<Rightarrow> net_state \<Rightarrow> net_state \<times> string list" where
  "buildCanonicalPathForPacket compare now ctx parsed packet activityAtMs s =
     (let resolve = (\<lambda>source isRepeater showAmbiguous traffic.
            resolveNode compare now ctx source isRepeater showAmbiguous activityAtMs traffic);
          isOutgoingDm = (pp_payloadType parsed = PtTextMessage \<and> nc_myPrefix ctx \<noteq> None \<and>
             map_option to_lower (pp_srcHash parsed) = nc_myPrefix ctx);
          (s1, packetSource) = resolve_source resolve ctx parsed packet s;
          (s2, hops) = resolve_hops resolve packetSource (pp_pathBytes parsed) s1;
          path = (case packetSource of Some n \<Rightarrow> [n] | None \<Rightarrow> []) @ hops;
          full =
            (if pp_payloadType parsed = PtTextMessage \<and> or_null (pp_dstHash parsed) \<noteq> None then
               if nc_myPrefix ctx \<noteq> None \<and> map_option to_lower (pp_dstHash parsed) = nc_myPrefix ctx
               then path @ [''self'']
               else if \<not> isOutgoingDm \<and> 0 < length path then path @ [''self''] else path
             else if 0 < length path then path @ [''self''] else path)
      in (s2, dedupeConsecutive full))"

text \<open>The reason of the last activity of the nodes of a path: \<open>i\<close> is the position of the first.\<close>

fun note_reasons :: "string \<Rightarrow> nat \<Rightarrow> string list \<Rightarrow> (string, net_node) jsmap \<Rightarrow> (string, net_node) jsmap" where
  "note_reasons label i [] nodes = nodes"
| "note_reasons label i (n # ns) nodes =
     note_reasons label (Suc i) ns
       (case jm_get nodes n of
          Some node \<Rightarrow>
            if nn_id node \<noteq> ''self'' then
              jm_set n (node\<lparr>nn_lastActivityReason :=
                Some (if i = 0 then label @ '' source'' else ''Relayed '' @ label)\<rparr>) nodes
            else nodes
        | None \<Rightarrow> nodes)"

fun add_path_links :: "int \<Rightarrow> string list \<Rightarrow> net_state \<Rightarrow> net_state" where
  "add_path_links activityAtMs (a # b # ns) s =
     add_path_links activityAtMs (b # ns)
       (if a \<noteq> b then
          let s1 = addCanonicalLink a b activityAtMs s in
          s1\<lparr>ng_neighborIds := upsertNeighbor a b (ng_neighborIds s1)\<rparr>
        else s)"
| "add_path_links activityAtMs ns s = s"

record ingest_result =
  ir_activityAtMs :: int
  ir_canonicalPath :: "string list"
  ir_label :: string
  ir_parsed :: parsed_packet

definition ingestPacketIntoPacketNetwork ::
    "decoder \<Rightarrow> (string \<Rightarrow> string \<Rightarrow> int) \<Rightarrow> int \<Rightarrow> net_context \<Rightarrow> raw_packet \<Rightarrow> net_state \<Rightarrow> net_state \<times> ingest_result option" where
  "ingestPacketIntoPacketNetwork dec compare now ctx packet s =
     (case parsePacket dec (rp_data packet) of
        None \<Rightarrow> (s, None)
      | Some parsed \<Rightarrow>
          let activityAtMs = coalesce (rp_received_at_ms packet) (normalizePacketTimestampMs now (rp_timestamp packet));
              (s1, canonicalPath) = buildCanonicalPathForPacket compare now ctx parsed packet activityAtMs s
          in if length canonicalPath < 2 then (s1, None)
             else
               let label = getPacketLabel (pp_payloadType parsed);
                   s2 = s1\<lparr>ng_nodes := note_reasons label 0 canonicalPath (ng_nodes s1),
                           ng_observations := ng_observations s1 @
                             [\<lparr>no_nodes = canonicalPath, no_activityAtMs = activityAtMs\<rparr>]\<rparr>;
                   s3 = add_path_links activityAtMs canonicalPath s2
               in (s3, Some \<lparr>ir_activityAtMs = activityAtMs, ir_canonicalPath = canonicalPath, ir_label = label,
                             ir_parsed = parsed\<rparr>))"

section \<open>Projection\<close>

definition isPacketNetworkNodeVisible :: "net_node option \<Rightarrow> net_visibility \<Rightarrow> bool" where
  "isPacketNetworkNodeVisible node vis =
     (case node of
        None \<Rightarrow> False
      | Some n \<Rightarrow>
          if nn_id n = ''self'' then True
          else if \<not> nn_isAmbiguous n then True
          else if nn_type n = NtRepeater then nv_showAmbiguousPaths vis else nv_showAmbiguousNodes vis)"

text \<open>The pairs of consecutive nodes of an observation.\<close>

definition hops_of :: "net_observation \<Rightarrow> (string \<times> string) list" where
  "hops_of ob = zip (no_nodes ob) (tl (no_nodes ob))"

definition knownRepeaterNextHops :: "net_state \<Rightarrow> (string, string list) jsmap" where
  "knownRepeaterNextHops s =
     fold (\<lambda>(current, nextId) m.
        case jm_get (ng_nodes s) current of
          Some n \<Rightarrow> if nn_type n \<noteq> NtRepeater \<or> nn_isAmbiguous n then m else add_to_group (nn_id n) nextId m
        | None \<Rightarrow> m) (concat (map hops_of (ng_observations s))) []"

definition buildKnownSiblingRepeaterAliasMap :: "net_state \<Rightarrow> net_visibility \<Rightarrow> (string, string) jsmap" where
  "buildKnownSiblingRepeaterAliasMap s vis =
     (if \<not> nv_collapseLikelyKnownSiblingRepeaters vis \<or> \<not> nv_showAmbiguousPaths vis then []
      else
        let known = knownRepeaterNextHops s in
        fold (\<lambda>(current, nextId) m.
          case jm_get (ng_nodes s) current of
            None \<Rightarrow> m
          | Some n \<Rightarrow>
              if nn_type n \<noteq> NtRepeater \<or> \<not> nn_isAmbiguous n then m
              else (case nn_probableIdentityNodeId n of
                      Some (Some pid) \<Rightarrow>
                        if pid = [] then m
                        else (case jm_get (ng_nodes s) pid of
                                None \<Rightarrow> m
                              | Some probable \<Rightarrow>
                                  if nn_type probable \<noteq> NtRepeater \<or> nn_isAmbiguous probable then m
                                  else if nextId \<in> set (coalesce (jm_get known (nn_id probable)) [])
                                  then jm_set current (nn_id probable) m else m)
                    | _ \<Rightarrow> m)) (concat (map hops_of (ng_observations s))) [])"

definition path_step_of :: "net_state \<Rightarrow> net_visibility \<Rightarrow> (string, string) jsmap \<Rightarrow> nat \<Rightarrow> nat \<Rightarrow> string \<Rightarrow> path_step" where
  "path_step_of s vis aliases len index nodeId =
     (let node = jm_get (ng_nodes s) nodeId; visible = isPacketNetworkNodeVisible node vis in
      \<lparr>ps_nodeId = (if visible then Some (coalesce (jm_get aliases nodeId) nodeId) else None),
       ps_markHiddenLinkWhenOmitted =
         (\<not> visible \<and> (case node of Some n \<Rightarrow> nn_type n = NtRepeater | None \<Rightarrow> False) \<and> 0 < index \<and> index < len - 1),
       ps_hiddenLabel = None\<rparr>)"

definition projectCanonicalPathWithAliases ::
    "net_state \<Rightarrow> string list \<Rightarrow> net_visibility \<Rightarrow> (string, string) jsmap \<Rightarrow> string list \<times> (string, string list) jsmap" where
  "projectCanonicalPathWithAliases s canonicalPath vis aliases =
     (let projected = compactPathSteps
            (map (\<lambda>(index, nodeId). path_step_of s vis aliases (length canonicalPath) index nodeId)
               (enumerate 0 canonicalPath))
      in (dedupeConsecutive (fst projected), snd projected))"

definition projectCanonicalPath ::
    "net_state \<Rightarrow> string list \<Rightarrow> net_visibility \<Rightarrow> string list \<times> (string, string list) jsmap" where
  "projectCanonicalPath s canonicalPath vis =
     projectCanonicalPathWithAliases s canonicalPath vis (buildKnownSiblingRepeaterAliasMap s vis)"

definition project_link ::
    "(string, string list) jsmap \<Rightarrow> int \<Rightarrow> string \<times> string \<Rightarrow> (string, projected_link) jsmap \<Rightarrow> (string, projected_link) jsmap" where
  "project_link dashed activityAtMs hop links =
     (case hop of (sourceId, targetId) \<Rightarrow>
        if sourceId = targetId then links
        else
          let key = buildLinkKey sourceId targetId; hidden = jm_has dashed key; labels = coalesce (jm_get dashed key) [] in
          case jm_get links key of
            Some existing \<Rightarrow>
              jm_set key
                (if hidden
                 then existing\<lparr>nl_lastActivity := max (nl_lastActivity existing) activityAtMs,
                        pl_hasHiddenIntermediate := True,
                        pl_hiddenHopLabels := fold js_add labels (pl_hiddenHopLabels existing)\<rparr>
                 else existing\<lparr>nl_lastActivity := max (nl_lastActivity existing) activityAtMs,
                        pl_hasDirectObservation := True\<rparr>) links
          | None \<Rightarrow>
              jm_set key \<lparr>nl_sourceId = sourceId, nl_targetId = targetId, nl_lastActivity = activityAtMs,
                pl_hasDirectObservation = (\<not> hidden), pl_hasHiddenIntermediate = hidden,
                pl_hiddenHopLabels = labels\<rparr> links)"

record net_projection =
  np_nodes :: "(string, net_node) jsmap"
  np_links :: "(string, projected_link) jsmap"

definition project_observation ::
    "net_state \<Rightarrow> net_visibility \<Rightarrow> (string, string) jsmap \<Rightarrow> net_observation \<Rightarrow> net_projection \<Rightarrow> net_projection" where
  "project_observation s vis aliases ob p =
     (let (nodes, dashed) = projectCanonicalPathWithAliases s (no_nodes ob) vis aliases in
      if length nodes < 2 then p
      else
        \<lparr>np_nodes = fold (\<lambda>i m. case jm_get (ng_nodes s) i of Some n \<Rightarrow> jm_set i n m | None \<Rightarrow> m) nodes (np_nodes p),
         np_links = fold (project_link dashed (no_activityAtMs ob)) (zip nodes (tl nodes)) (np_links p)\<rparr>)"

definition projectPacketNetwork :: "net_state \<Rightarrow> net_visibility \<Rightarrow> net_projection" where
  "projectPacketNetwork s vis =
     (let aliases = buildKnownSiblingRepeaterAliasMap s vis;
          start = \<lparr>np_nodes = (case jm_get (ng_nodes s) ''self'' of Some n \<Rightarrow> [(''self'', n)] | None \<Rightarrow> []), np_links = []\<rparr>
      in fold (project_observation s vis aliases) (ng_observations s) start)"

definition renderedNodeIds :: "net_projection \<Rightarrow> string list" where
  "renderedNodeIds p = jm_keys (np_nodes p)"

section \<open>Pruning\<close>

definition prunePacketNetworkState :: "int \<Rightarrow> net_state \<Rightarrow> net_state \<times> bool" where
  "prunePacketNetworkState cutoff s =
     (let kept = filter (\<lambda>(i, n). i = ''self'' \<or> \<not> nn_lastActivity n < cutoff) (ng_nodes s) in
      if length kept = length (ng_nodes s) then (s, False)
      else
        let links = filter (\<lambda>(k, l). jm_has kept (nl_sourceId l) \<and> jm_has kept (nl_targetId l)) (ng_links s) in
        (s\<lparr>ng_nodes := kept, ng_links := links,
           ng_observations := filter (\<lambda>ob. list_all (jm_has kept) (no_nodes ob)) (ng_observations s),
           ng_neighborIds := fold (\<lambda>(k, l). upsertNeighbor (nl_sourceId l) (nl_targetId l)) links []\<rparr>, True))"

definition snapshotNeighborIds :: "net_state \<Rightarrow> (string, string list) jsmap" where
  "snapshotNeighborIds s = jm_map_values (\<lambda>_ ids. sort ids) (ng_neighborIds s)"

section \<open>The invariant\<close>

abbreviation node_ids :: "net_state \<Rightarrow> string set" where
  "node_ids s \<equiv> set (jm_keys (ng_nodes s))"

abbreviation neighbors :: "(string, string list) jsmap \<Rightarrow> string \<Rightarrow> string set" where
  "neighbors m a \<equiv> set (coalesce (jm_get m a) [])"

definition nodes_ok :: "(string, net_node) jsmap \<Rightarrow> bool" where
  "nodes_ok m \<longleftrightarrow> jm_wf m \<and> jm_all (\<lambda>k n. nn_id n = k) m \<and> ''self'' \<in> set (jm_keys m)"

definition link_ok :: "string set \<Rightarrow> (string, string list) jsmap \<Rightarrow> string \<Rightarrow> net_link \<Rightarrow> bool" where
  "link_ok ids nb k l \<longleftrightarrow>
     k = buildLinkKey (nl_sourceId l) (nl_targetId l) \<and> nl_sourceId l \<noteq> nl_targetId l \<and>
     {nl_sourceId l, nl_targetId l} \<subseteq> ids \<and> nl_targetId l \<in> neighbors nb (nl_sourceId l) \<and>
     nl_sourceId l \<in> neighbors nb (nl_targetId l)"

definition neighbors_ok :: "string set \<Rightarrow> (string, string list) jsmap \<Rightarrow> bool" where
  "neighbors_ok ids nb \<longleftrightarrow>
     (\<forall>a b. b \<in> neighbors nb a \<longrightarrow> a \<in> neighbors nb b \<and> a \<in> ids \<and> b \<in> ids \<and> a \<noteq> b)"

definition path_ok :: "string set \<Rightarrow> string list \<Rightarrow> bool" where
  "path_ok ids p \<longleftrightarrow> set p \<subseteq> ids \<and> [] \<notin> set p \<and> distinct_adj p"

definition traffic_ok :: "(string, repeater_traffic) jsmap \<Rightarrow> bool" where
  "traffic_ok m \<longleftrightarrow> jm_all (\<lambda>k d. length (rtd_observations d) \<le> MAX_TRAFFIC_OBSERVATIONS) m"

definition net_ok :: "net_state \<Rightarrow> bool" where
  "net_ok s \<longleftrightarrow>
     nodes_ok (ng_nodes s) \<and> jm_wf (ng_links s) \<and>
     jm_all (link_ok (node_ids s) (ng_neighborIds s)) (ng_links s) \<and>
     neighbors_ok (node_ids s) (ng_neighborIds s) \<and>
     list_all (\<lambda>ob. path_ok (node_ids s) (no_nodes ob) \<and> 2 \<le> length (no_nodes ob)) (ng_observations s) \<and>
     traffic_ok (ng_trafficPatterns s)"

text \<open>What resolving a token does to the state: nodes are added or updated, nothing else changes.\<close>

definition grown :: "net_state \<Rightarrow> net_state \<Rightarrow> bool" where
  "grown s s' \<longleftrightarrow> net_ok s' \<and> node_ids s \<subseteq> node_ids s' \<and> ng_observations s' = ng_observations s"

lemma path_ok_mono: "path_ok A p \<Longrightarrow> A \<subseteq> B \<Longrightarrow> path_ok B p"
  by (auto simp: path_ok_def)

lemma grown_refl: "net_ok s \<Longrightarrow> grown s s"
  by (simp add: grown_def)

lemma grown_trans: "grown a b \<Longrightarrow> grown b c \<Longrightarrow> grown a c"
  by (auto simp: grown_def)

lemma grownI:
  assumes "net_ok s" and "nodes_ok (ng_nodes s')" and "node_ids s \<subseteq> node_ids s'" and "traffic_ok (ng_trafficPatterns s')"
    and "ng_links s' = ng_links s" "ng_neighborIds s' = ng_neighborIds s" "ng_observations s' = ng_observations s"
  shows "grown s s'"
proof -
  have "jm_all (link_ok (node_ids s') (ng_neighborIds s)) (ng_links s)"
    by (rule jm_all_mono [of "link_ok (node_ids s) (ng_neighborIds s)"]) (use assms(1, 3) in \<open>auto simp: net_ok_def link_ok_def\<close>)
  moreover have "neighbors_ok (node_ids s') (ng_neighborIds s)"
    using assms(1, 3) by (auto simp: net_ok_def neighbors_ok_def)
  moreover have "list_all (\<lambda>ob. path_ok (node_ids s') (no_nodes ob) \<and> 2 \<le> length (no_nodes ob)) (ng_observations s)"
    using assms(1, 3) by (auto simp: net_ok_def list_all_iff intro: path_ok_mono)
  ultimately show ?thesis using assms by (simp add: grown_def net_ok_def)
qed

lemma nodes_ok_set: "nodes_ok m \<Longrightarrow> nn_id n = k \<Longrightarrow> nodes_ok (jm_set k n m)"
  by (auto simp: nodes_ok_def jm.set_keys_put intro: js_inv)

lemma nodes_ok_get: "nodes_ok m \<Longrightarrow> jm_get m k = Some n \<Longrightarrow> nn_id n = k"
  by (auto simp: nodes_ok_def dest: jm_all_get)

lemma add_node_grown:
  assumes "net_ok s"
  shows "grown s (addOrUpdateNode u s) \<and> nu_id u \<in> node_ids (addOrUpdateNode u s)"
proof -
  have n: "nodes_ok (ng_nodes s)" and t: "traffic_ok (ng_trafficPatterns s)" using assms by (auto simp: net_ok_def)
  have "nodes_ok (ng_nodes (addOrUpdateNode u s))"
    using n nodes_ok_get [OF n, of "nu_id u"]
    by (auto simp: addOrUpdateNode_def intro!: nodes_ok_set split: option.split)
  then show ?thesis
    using t by (auto intro!: grownI [OF assms] simp: addOrUpdateNode_def jm.set_keys_put split: option.split)
qed

lemma traffic_ok_record: "traffic_ok m \<Longrightarrow> traffic_ok (recordTrafficObservation now hop src next m)"
  by (auto simp: traffic_ok_def recordTrafficObservation_def slice_from_def MAX_TRAFFIC_OBSERVATIONS_def Let_def intro!: jm_all_set split: option.split)

subsection \<open>The interface of the resolution\<close>

text \<open>
  What the ingestion relies on: resolving a token grows the state, and a token that is resolved
  is a node afterwards.
\<close>

locale hop_resolver =
  fixes resolve :: resolver
  assumes resolve_grown: "net_ok s \<Longrightarrow> resolve source rep amb tc s = (s', r) \<Longrightarrow>
      grown s s' \<and> (case r of None \<Rightarrow> True | Some n \<Rightarrow> n \<in> node_ids s')"
begin

lemma resolve_hops_grown:
  "net_ok s \<Longrightarrow> resolve_hops resolve src hops s = (s', path) \<Longrightarrow>
     grown s s' \<and> set path \<subseteq> node_ids s' \<and> [] \<notin> set path"
proof (induction hops arbitrary: s s' path)
  case Nil
  then show ?case by (auto simp: grown_refl)
next
  case (Cons hop hops)
  let ?tc = "Some \<lparr>tc_packetSource = src, tc_nextPrefix = (case hops of [] \<Rightarrow> None | h # _ \<Rightarrow> or_null (Some h))\<rparr>"
  obtain s1 r where r: "resolve (SrcPrefix hop) True True ?tc s = (s1, r)" by (rule prod.exhaust)
  obtain s2 p where p: "resolve_hops resolve src hops s1 = (s2, p)" by (rule prod.exhaust)
  have g: "grown s s1" "case r of None \<Rightarrow> True | Some n \<Rightarrow> n \<in> node_ids s1"
    using resolve_grown [OF Cons.prems(1) r] by auto
  then have "net_ok s1" by (simp add: grown_def)
  from Cons.IH [OF this p] have h: "grown s1 s2" "set p \<subseteq> node_ids s2" "[] \<notin> set p" by auto
  have "s' = s2" and path: "path = (case or_null r of Some n \<Rightarrow> n # p | None \<Rightarrow> p)"
    using Cons.prems(2) r p by (simp_all add: Let_def)
  then show ?case
    using g h grown_trans [OF g(1) h(1)] by (auto simp: grown_def or_null_def split: option.splits if_splits)
qed

lemma resolve_source_grown:
  assumes "net_ok s" and "resolve_source resolve ctx parsed packet s = (s', r)"
  shows "grown s s' \<and> (case r of None \<Rightarrow> True | Some n \<Rightarrow> n \<in> node_ids s' \<and> n \<noteq> [])"
proof (cases "source_of_packet ctx parsed packet")
  case None
  then show ?thesis using assms by (auto simp: resolve_source_def grown_refl)
next
  case (Some q)
  obtain source amb where q: "q = (source, amb)" by (rule prod.exhaust)
  obtain s1 r1 where r1: "resolve source False amb None s = (s1, r1)" by (rule prod.exhaust)
  have self: "''self'' \<in> node_ids s" using assms(1) by (simp add: net_ok_def nodes_ok_def)
  show ?thesis
    using assms(2) resolve_grown [OF assms(1) r1] grown_refl [OF assms(1)] self Some
    by (auto simp: resolve_source_def q r1 or_null_def split: if_splits option.splits)
qed

end

lemma known_grown: "net_ok s \<Longrightarrow> grown s (addOrUpdateNode (known_node c (prefix12 k) t) s) \<and>
    prefix12 k \<in> node_ids (addOrUpdateNode (known_node c (prefix12 k) t) s)"
  using add_node_grown [of s "known_node c (prefix12 k) t"] by (simp add: known_node_def)

lemma resolve_ambiguous_grown:
  assumes "net_ok s" and "resolve_ambiguous compare now ctx v fs rep t tc s = (s', n)"
  shows "grown s s' \<and> n \<in> node_ids s'"
proof -
  let ?p = "ambiguous_patterns now ctx v rep tc (ng_trafficPatterns s)"
  obtain u where s': "s' = addOrUpdateNode u (s\<lparr>ng_trafficPatterns := ?p\<rparr>)" "n = nu_id u"
    using assms(2) by (auto simp: resolve_ambiguous_def Let_def)
  have "traffic_ok (ng_trafficPatterns s) \<Longrightarrow> traffic_ok ?p"
    by (simp add: ambiguous_patterns_def traffic_ok_record split: option.split)
  then have "net_ok (s\<lparr>ng_trafficPatterns := ?p\<rparr>)" using assms(1) by (simp add: net_ok_def)
  from add_node_grown [OF this, of u] s' show ?thesis by (auto simp: grown_def)
qed

lemma resolveNode_grown:
  assumes ok: "net_ok s" and r: "resolveNode compare now ctx source rep amb t tc s = (s', r)"
  shows "grown s s' \<and> (case r of None \<Rightarrow> True | Some n \<Rightarrow> n \<in> node_ids s')"
proof -
  have self: "''self'' \<in> node_ids s" using ok by (simp add: net_ok_def nodes_ok_def)
  have add: "grown s (addOrUpdateNode u s)" "nu_id u = n \<Longrightarrow> n \<in> node_ids (addOrUpdateNode u s)" for u n
    using add_node_grown [OF ok] by auto
  show ?thesis
  proof (cases source)
    case (SrcPubkey v)
    then show ?thesis using r self grown_refl [OF ok]
      by (auto simp: resolveNode_def Let_def intro!: add split: if_splits)
  next
    case (SrcName v)
    then show ?thesis
      using r self known_grown [OF ok] grown_refl [OF ok]
      by (auto simp: resolveNode_def known_node_def Let_def intro!: add split: if_splits option.splits)
  next
    case (SrcPrefix v)
    have "grown s (fst (resolve_ambiguous c n x l fs i m k s)) \<and>
        snd (resolve_ambiguous c n x l fs i m k s) \<in> node_ids (fst (resolve_ambiguous c n x l fs i m k s))" for c n x l fs i m k
      using resolve_ambiguous_grown [OF ok, of c n x l fs i m k] by (metis prod.collapse)
    then show ?thesis
      using r self SrcPrefix known_grown [OF ok] grown_refl [OF ok]
      by (auto simp: resolveNode_def Let_def split_beta split: if_splits list.splits)
  qed
qed

interpretation node_resolver: hop_resolver
  "\<lambda>source rep amb tc. resolveNode compare now ctx source rep amb t tc" for compare now ctx t
  by unfold_locales (rule resolveNode_grown)

subsection \<open>Ingestion\<close>

lemma build_path_grown:
  assumes ok: "net_ok s" and b: "buildCanonicalPathForPacket compare now ctx parsed packet t s = (s', path)"
  shows "grown s s' \<and> path_ok (node_ids s') path"
proof -
  let ?res = "\<lambda>source rep amb tc. resolveNode compare now ctx source rep amb t tc"
  obtain s1 src where src: "resolve_source ?res ctx parsed packet s = (s1, src)" by (rule prod.exhaust)
  obtain s2 hops where hops: "resolve_hops ?res src (pp_pathBytes parsed) s1 = (s2, hops)" by (rule prod.exhaust)
  have g1: "grown s s1" "case src of None \<Rightarrow> True | Some n \<Rightarrow> n \<in> node_ids s1 \<and> n \<noteq> []"
    using node_resolver.resolve_source_grown [OF ok src] by auto
  then have "net_ok s1" by (simp add: grown_def)
  from node_resolver.resolve_hops_grown [OF this hops]
  have g2: "grown s1 s2" "set hops \<subseteq> node_ids s2" "[] \<notin> set hops" by auto
  have self: "''self'' \<in> node_ids s2" using g2(1) by (simp add: grown_def net_ok_def nodes_ok_def)
  have sub: "node_ids s1 \<subseteq> node_ids s2" using g2(1) by (simp add: grown_def)
  define p where "p = (case src of Some n \<Rightarrow> [n] | None \<Rightarrow> []) @ hops"
  have p: "set p \<subseteq> node_ids s2" "[] \<notin> set p" using g1(2) g2(2, 3) sub by (auto simp: p_def split: option.splits)
  have "s' = s2" and "path = dedupeConsecutive p \<or> path = dedupeConsecutive (p @ [''self''])"
    using b by (auto simp: buildCanonicalPathForPacket_def src hops Let_def p_def)
  then show ?thesis
    using grown_trans [OF g1(1) g2(1)] p self
    by (auto simp: path_ok_def dedupe_is_remdups_adj distinct_adj_remdups_adj)
qed

lemma note_reasons_ok:
  "nodes_ok m \<Longrightarrow> nodes_ok (note_reasons label i ns m) \<and> set (jm_keys (note_reasons label i ns m)) = set (jm_keys m)"
proof (induction ns arbitrary: i m)
  case (Cons n ns)
  let ?m = "case jm_get m n of
      Some node \<Rightarrow> if nn_id node \<noteq> ''self'' then jm_set n (node\<lparr>nn_lastActivityReason :=
        Some (if i = 0 then label @ '' source'' else ''Relayed '' @ label)\<rparr>) m else m | None \<Rightarrow> m"
  have "nodes_ok ?m" and "set (jm_keys ?m) = set (jm_keys m)"
    using Cons.prems nodes_ok_get [OF Cons.prems, of n]
    by (auto simp: jm.set_keys_put intro!: nodes_ok_set dest: jm.get_SomeD split: option.splits)
  then show ?case using Cons.IH [of ?m "Suc i"] by simp
qed simp

lemma neighbors_group:
  "neighbors (add_to_group k v m) x = (if x = k then insert v (neighbors m x) else neighbors m x)"
proof -
  have "coalesce None y = y" "coalesce (Some z) y = z" for y z :: "string list" by (simp_all add: coalesce_def)
  then show ?thesis by (simp add: add_to_group_def jm.get_put)
qed

lemma neighbors_add:
  "neighbors (upsertNeighbor a b m) x =
     neighbors m x \<union> (if x = a then {b} else {}) \<union> (if x = b then {a} else {})"
  by (auto simp: upsertNeighbor_def neighbors_group)

lemma neighbors_ok_add:
  "neighbors_ok ids m \<Longrightarrow> a \<in> ids \<Longrightarrow> b \<in> ids \<Longrightarrow> a \<noteq> b \<Longrightarrow> neighbors_ok ids (upsertNeighbor a b m)"
  by (auto simp: neighbors_ok_def neighbors_add)

lemma link_ok_add: "link_ok ids m k l \<Longrightarrow> link_ok ids (upsertNeighbor a b m) k l"
  by (auto simp: link_ok_def neighbors_add)

definition edges_ok :: "string set \<Rightarrow> net_state \<Rightarrow> bool" where
  "edges_ok ids s \<longleftrightarrow> jm_wf (ng_links s) \<and> jm_all (link_ok ids (ng_neighborIds s)) (ng_links s) \<and>
     neighbors_ok ids (ng_neighborIds s)"

lemma edges_ok_add:
  assumes ok: "edges_ok ids s" and ab: "a \<in> ids" "b \<in> ids" "a \<noteq> b"
  shows "edges_ok ids ((addCanonicalLink a b t s)\<lparr>ng_neighborIds := upsertNeighbor a b (ng_neighborIds (addCanonicalLink a b t s))\<rparr>)"
proof -
  let ?nb = "upsertNeighbor a b (ng_neighborIds s)"
  have same: "ng_neighborIds (addCanonicalLink a b t s) = ng_neighborIds s"
    by (simp add: addCanonicalLink_def Let_def split: option.split)
  have old: "jm_all (link_ok ids ?nb) (ng_links s)"
    using ok by (auto simp: edges_ok_def intro: jm_all_mono link_ok_add)
  have "link_ok ids ?nb (buildLinkKey a b) \<lparr>nl_sourceId = a, nl_targetId = b, nl_lastActivity = t\<rparr>"
    using ab by (simp add: link_ok_def neighbors_add)
  moreover have "link_ok ids ?nb (buildLinkKey a b) (l\<lparr>nl_lastActivity := x\<rparr>)"
    if "jm_get (ng_links s) (buildLinkKey a b) = Some l" for l x
    using jm_all_get [OF old that] by (simp add: link_ok_def)
  ultimately have "jm_wf (ng_links (addCanonicalLink a b t s)) \<and> jm_all (link_ok ids ?nb) (ng_links (addCanonicalLink a b t s))"
    using ok old by (auto simp: addCanonicalLink_def edges_ok_def Let_def intro!: jm_all_set jm_wf_set split: option.split)
  then show ?thesis using ok ab by (simp add: edges_ok_def same neighbors_ok_add)
qed

lemma add_path_links_ok:
  "edges_ok ids s \<Longrightarrow> set p \<subseteq> ids \<Longrightarrow>
     edges_ok ids (add_path_links t p s) \<and> ng_nodes (add_path_links t p s) = ng_nodes s \<and>
     ng_observations (add_path_links t p s) = ng_observations s \<and>
     ng_trafficPatterns (add_path_links t p s) = ng_trafficPatterns s"
proof (induction t p s rule: add_path_links.induct)
  case (1 t a b ns s)
  have f: "ng_nodes (addCanonicalLink a b t s) = ng_nodes s" "ng_observations (addCanonicalLink a b t s) = ng_observations s"
    "ng_trafficPatterns (addCanonicalLink a b t s) = ng_trafficPatterns s"
    by (simp_all add: addCanonicalLink_def Let_def split: option.split)
  show ?case
  proof (cases "a = b")
    case True
    then show ?thesis using 1 by simp
  next
    case False
    then have "edges_ok ids ((addCanonicalLink a b t s)\<lparr>ng_neighborIds := upsertNeighbor a b (ng_neighborIds (addCanonicalLink a b t s))\<rparr>)"
      using 1(2, 3) by (intro edges_ok_add) auto
    then show ?thesis using 1 False f by (simp add: Let_def)
  qed
qed auto

lemma net_ok_split: "net_ok s \<longleftrightarrow>
   nodes_ok (ng_nodes s) \<and> edges_ok (node_ids s) s \<and>
   list_all (\<lambda>ob. path_ok (node_ids s) (no_nodes ob) \<and> 2 \<le> length (no_nodes ob)) (ng_observations s) \<and>
   traffic_ok (ng_trafficPatterns s)"
  by (auto simp: net_ok_def edges_ok_def)

lemma ingest_ok:
  assumes ok: "net_ok s"
  shows "net_ok (fst (ingestPacketIntoPacketNetwork dec compare now ctx packet s))"
proof (cases "parsePacket dec (rp_data packet)")
  case None
  then show ?thesis using ok by (simp add: ingestPacketIntoPacketNetwork_def)
next
  case (Some parsed)
  define t where "t = coalesce (rp_received_at_ms packet) (normalizePacketTimestampMs now (rp_timestamp packet))"
  obtain s1 path where b: "buildCanonicalPathForPacket compare now ctx parsed packet t s = (s1, path)" by (rule prod.exhaust)
  have g: "net_ok s1" "path_ok (node_ids s1) path" using build_path_grown [OF ok b] by (auto simp: grown_def)
  show ?thesis
  proof (cases "length path < 2")
    case True
    then show ?thesis using g Some by (simp add: ingestPacketIntoPacketNetwork_def t_def [symmetric] b)
  next
    case False
    define s2 where "s2 = s1\<lparr>ng_nodes := note_reasons (getPacketLabel (pp_payloadType parsed)) 0 path (ng_nodes s1),
        ng_observations := ng_observations s1 @ [\<lparr>no_nodes = path, no_activityAtMs = t\<rparr>]\<rparr>"
    have n: "nodes_ok (ng_nodes s2)" "node_ids s2 = node_ids s1"
      using note_reasons_ok [of "ng_nodes s1"] g(1) by (auto simp: s2_def net_ok_def)
    then have e: "edges_ok (node_ids s2) s2" using g(1) by (simp add: s2_def net_ok_split edges_ok_def)
    have "net_ok (add_path_links t path s2)"
      using add_path_links_ok [OF e, of path t] g n False
      by (auto simp: net_ok_split path_ok_def s2_def list_all_iff)
    then show ?thesis using Some False by (simp add: ingestPacketIntoPacketNetwork_def t_def [symmetric] b s2_def Let_def)
  qed
qed

subsection \<open>Pruning\<close>

abbreviation rebuild :: "(string, net_link) jsmap \<Rightarrow> (string, string list) jsmap \<Rightarrow> (string, string list) jsmap" where
  "rebuild links m \<equiv> fold (\<lambda>(k, l). upsertNeighbor (nl_sourceId l) (nl_targetId l)) links m"

lemma rebuild_mono: "y \<in> neighbors m x \<Longrightarrow> y \<in> neighbors (rebuild links m) x"
  by (induction links arbitrary: m) (auto simp: neighbors_add)

lemma rebuild_link:
  "(k, l) \<in> set links \<Longrightarrow> nl_targetId l \<in> neighbors (rebuild links m) (nl_sourceId l) \<and>
     nl_sourceId l \<in> neighbors (rebuild links m) (nl_targetId l)"
proof (induction links arbitrary: m)
  case (Cons e links)
  obtain k' l' where e: "e = (k', l')" by (rule prod.exhaust)
  show ?case
  proof (cases "e = (k, l)")
    case True
    then show ?thesis by (auto simp: neighbors_add intro!: rebuild_mono)
  next
    case False
    then show ?thesis using Cons by (auto simp: e)
  qed
qed simp

lemma rebuild_ok:
  "list_all (\<lambda>(k, l). nl_sourceId l \<noteq> nl_targetId l \<and> nl_sourceId l \<in> ids \<and> nl_targetId l \<in> ids) links \<Longrightarrow>
     neighbors_ok ids m \<Longrightarrow> neighbors_ok ids (rebuild links m)"
  by (induction links arbitrary: m) (auto simp: neighbors_ok_add)

lemma prune_ok:
  assumes ok: "net_ok s"
  shows "net_ok (fst (prunePacketNetworkState cutoff s))"
proof -
  define kept where "kept = filter (\<lambda>(i, n). i = ''self'' \<or> \<not> nn_lastActivity n < cutoff) (ng_nodes s)"
  define links where "links = filter (\<lambda>(k, l). jm_has kept (nl_sourceId l) \<and> jm_has kept (nl_targetId l)) (ng_links s)"
  let ?nb = "rebuild links []"
  have "''self'' \<in> set (jm_keys kept)"
    using ok by (force simp: net_ok_def nodes_ok_def kept_def jm_keys_def)
  then have n: "nodes_ok kept"
    using ok by (auto simp: net_ok_def nodes_ok_def kept_def intro: jm_all_filter jm_wf_filter)
  have old: "(k, l) \<in> set links \<Longrightarrow> k = buildLinkKey (nl_sourceId l) (nl_targetId l) \<and> nl_sourceId l \<noteq> nl_targetId l \<and>
      nl_sourceId l \<in> set (jm_keys kept) \<and> nl_targetId l \<in> set (jm_keys kept)" for k l
    using ok by (auto simp: links_def net_ok_def jm_all_def link_ok_def jm_has_set)
  have "neighbors_ok (set (jm_keys kept)) ?nb"
    by (rule rebuild_ok) (use old in \<open>auto simp: list_all_iff neighbors_ok_def coalesce_def\<close>)
  moreover have "jm_all (link_ok (set (jm_keys kept)) ?nb) links"
    using old rebuild_link [of _ _ links "[]"] by (auto simp: jm_all_def link_ok_def)
  ultimately have nb: "neighbors_ok (set (jm_keys kept)) ?nb" "jm_all (link_ok (set (jm_keys kept)) ?nb) links"
    by auto
  have "jm_wf links" using ok by (simp add: links_def net_ok_def jm_wf_filter)
  then have "net_ok (s\<lparr>ng_nodes := kept, ng_links := links,
      ng_observations := filter (\<lambda>ob. list_all (jm_has kept) (no_nodes ob)) (ng_observations s), ng_neighborIds := ?nb\<rparr>)"
    using ok n nb by (auto simp: net_ok_def list_all_iff path_ok_def jm_has_set)
  then show ?thesis using ok by (simp add: prunePacketNetworkState_def kept_def links_def Let_def)
qed

subsection \<open>The machine\<close>

datatype net_event =
    NIngest int net_context raw_packet
  | NPrune int
  | NClear string int
  | NEnsureSelf string int

fun net_step :: "decoder \<Rightarrow> (string \<Rightarrow> string \<Rightarrow> int) \<Rightarrow> net_event \<Rightarrow> net_state \<Rightarrow> net_state" where
  "net_step dec compare (NIngest now ctx packet) s = fst (ingestPacketIntoPacketNetwork dec compare now ctx packet s)"
| "net_step dec compare (NPrune cutoff) s = fst (prunePacketNetworkState cutoff s)"
| "net_step dec compare (NClear name now) s = clearPacketNetworkState name now s"
| "net_step dec compare (NEnsureSelf name now) s = ensureSelfNode name now s"

lemma net_ok_clear: "net_ok (clearPacketNetworkState name now s)"
  by (simp add: clearPacketNetworkState_def net_ok_def nodes_ok_def jm_wf_def jm_all_def self_node_def neighbors_ok_def
      traffic_ok_def coalesce_def)

lemma net_ok_create: "net_ok (createPacketNetworkState name now)"
  by (simp add: createPacketNetworkState_def net_ok_def nodes_ok_def jm_wf_def jm_all_def self_node_def neighbors_ok_def
      traffic_ok_def coalesce_def)

lemma net_ok_ensure:
  assumes "net_ok s"
  shows "net_ok (ensureSelfNode name now s)"
proof -
  have n: "nodes_ok (ng_nodes s)" using assms by (simp add: net_ok_def)
  have "grown s (ensureSelfNode name now s)"
    using assms n nodes_ok_get [OF n, of "''self''"]
    by (auto intro!: grownI [OF assms] nodes_ok_set simp: net_ok_def ensureSelfNode_def self_node_def jm.set_keys_put split: option.split)
  then show ?thesis by (simp add: grown_def)
qed

interpretation net_machine: event_machine "net_step dec compare" net_ok "\<lambda>_. True" for dec compare
proof unfold_locales
  fix s e
  assume "net_ok s"
  then show "net_ok (net_step dec compare e s)"
    by (cases e) (simp_all add: ingest_ok prune_ok net_ok_clear net_ok_ensure)
qed

subsection \<open>Projection\<close>

abbreviation shown :: "net_state \<Rightarrow> net_visibility \<Rightarrow> string \<Rightarrow> bool" where
  "shown s vis n \<equiv> isPacketNetworkNodeVisible (jm_get (ng_nodes s) n) vis"

lemma aliases_shown:
  assumes ok: "net_ok s"
  shows "jm_all (\<lambda>k v. shown s vis v \<and> v \<noteq> []) (buildKnownSiblingRepeaterAliasMap s vis)"
proof -
  have n: "nodes_ok (ng_nodes s)" using ok by (simp add: net_ok_def)
  have "shown s vis (nn_id b) \<and> nn_id b \<noteq> []"
    if "jm_get (ng_nodes s) pid = Some b" "pid \<noteq> []" "\<not> nn_isAmbiguous b" for pid b
    using nodes_ok_get [OF n that(1)] that by (simp add: isPacketNetworkNodeVisible_def)
  note target = this
  show ?thesis
  proof (cases "\<not> nv_collapseLikelyKnownSiblingRepeaters vis \<or> \<not> nv_showAmbiguousPaths vis")
    case True
    then show ?thesis by (simp add: buildKnownSiblingRepeaterAliasMap_def jm_all_def)
  next
    case False
    show ?thesis
      unfolding buildKnownSiblingRepeaterAliasMap_def Let_def if_not_P [OF False]
      by (rule fold_keeps) (auto simp: jm_all_Nil split: option.split intro!: jm_all_set dest: target)
  qed
qed

lemma step_nodes_shown:
  assumes "jm_all (\<lambda>k v. shown s vis v \<and> v \<noteq> []) aliases" and "x \<in> set (step_nodes
    (map (\<lambda>(index, nodeId). path_step_of s vis aliases len index nodeId) (enumerate i path)))"
  shows "shown s vis x \<and> x \<noteq> []"
proof -
  from assms(2) obtain index n where n: "or_null (ps_nodeId (path_step_of s vis aliases len index n)) = Some x"
    by (auto simp: step_nodes_def List.map_filter_def)
  then have "shown s vis n" and x: "x = coalesce (jm_get aliases n) n" "x \<noteq> []"
    by (auto simp: path_step_of_def or_null_def Let_def split: if_splits)
  then show ?thesis using jm_all_get [OF assms(1), of n] by (cases "jm_get aliases n") (auto simp: coalesce_def)
qed

lemma projected_nodes:
  assumes "jm_all (\<lambda>k v. shown s vis v \<and> v \<noteq> []) aliases" and "x \<in> set (fst (projectCanonicalPathWithAliases s path vis aliases))"
  shows "shown s vis x"
  using assms step_nodes_shown [OF assms(1)]
  by (auto simp: projectCanonicalPathWithAliases_def dedupe_is_remdups_adj compact_nodes Let_def)

definition plink_ok :: "string set \<Rightarrow> string \<Rightarrow> projected_link \<Rightarrow> bool" where
  "plink_ok ids k l \<longleftrightarrow> k = buildLinkKey (nl_sourceId l) (nl_targetId l) \<and> nl_sourceId l \<noteq> nl_targetId l \<and>
     {nl_sourceId l, nl_targetId l} \<subseteq> ids"

definition projection_ok :: "net_state \<Rightarrow> net_visibility \<Rightarrow> net_projection \<Rightarrow> bool" where
  "projection_ok s vis p \<longleftrightarrow>
     ''self'' \<in> set (jm_keys (np_nodes p)) \<and>
     jm_all (\<lambda>k n. jm_get (ng_nodes s) k = Some n \<and> isPacketNetworkNodeVisible (Some n) vis) (np_nodes p) \<and>
     jm_all (plink_ok (set (jm_keys (np_nodes p)))) (np_links p)"

lemma project_link_ok:
  assumes "jm_all (plink_ok ids) links" and "fst hop \<in> ids" "snd hop \<in> ids"
  shows "jm_all (plink_ok ids) (project_link dashed t hop links)"
proof -
  obtain a b where hop: "hop = (a, b)" by (rule prod.exhaust)
  have "plink_ok ids (buildLinkKey a b) l" if "jm_get links (buildLinkKey a b) = Some l" for l
    using jm_all_get [OF assms(1) that] .
  then show ?thesis
    using assms
    by (auto simp: project_link_def hop Let_def plink_ok_def intro!: jm_all_set split: option.split)
qed

lemma project_observation_ok:
  assumes ok: "projection_ok s vis p" and al: "jm_all (\<lambda>k v. shown s vis v \<and> v \<noteq> []) aliases"
  shows "projection_ok s vis (project_observation s vis aliases ob p)"
proof -
  obtain nodes dashed where p: "projectCanonicalPathWithAliases s (no_nodes ob) vis aliases = (nodes, dashed)" by (rule prod.exhaust)
  have vis: "x \<in> set nodes \<Longrightarrow> shown s vis x" for x using projected_nodes [OF al] p by (metis fst_conv)
  let ?f = "\<lambda>i m. case jm_get (ng_nodes s) i of Some n \<Rightarrow> jm_set i n m | None \<Rightarrow> m"
  let ?P = "\<lambda>k n. jm_get (ng_nodes s) k = Some n \<and> isPacketNetworkNodeVisible (Some n) vis"
  have fold: "jm_all ?P (fold ?f xs m) \<and> set (jm_keys (fold ?f xs m)) = set (jm_keys m) \<union> set xs"
    if "\<And>x. x \<in> set xs \<Longrightarrow> shown s vis x" "jm_all ?P m" for xs m
    using that
  proof (induction xs arbitrary: m)
    case (Cons x xs)
    have "shown s vis x" using Cons.prems(1) by simp
    then obtain n where n: "jm_get (ng_nodes s) x = Some n" "isPacketNetworkNodeVisible (Some n) vis"
      by (cases "jm_get (ng_nodes s) x") (simp_all add: isPacketNetworkNodeVisible_def)
    then have "jm_all ?P (jm_set x n m)" using Cons.prems by (intro jm_all_set) auto
    from Cons.IH [OF _ this] Cons.prems(1) n show ?case by (simp add: jm.set_keys_put)
  qed simp
  let ?ids = "set (jm_keys (fold ?f nodes (np_nodes p)))"
  have n: "jm_all ?P (fold ?f nodes (np_nodes p))" "?ids = set (jm_keys (np_nodes p)) \<union> set nodes"
    using fold [of nodes "np_nodes p"] vis ok by (auto simp: projection_ok_def)
  have "jm_all (plink_ok ?ids) (np_links p)"
    using ok n(2) by (auto simp: projection_ok_def plink_ok_def intro: jm_all_mono)
  then have "jm_all (plink_ok ?ids) (fold (project_link dashed t) (zip nodes (tl nodes)) (np_links p))" for t
  proof (rule fold_keeps)
    fix hop links
    assume "hop \<in> set (zip nodes (tl nodes))" and l: "jm_all (plink_ok ?ids) links"
    then have "fst hop \<in> set nodes" "snd hop \<in> set nodes"
      by (metis prod.collapse set_zip_leftD, metis list.set_sel(2) list.sel(2) prod.collapse set_zip_rightD)
    then show "jm_all (plink_ok ?ids) (project_link dashed t hop links)"
      using n(2) by (intro project_link_ok [OF l]) simp_all
  qed
  then show ?thesis using ok n by (simp add: project_observation_def p projection_ok_def)
qed

lemma projection_always_ok:
  assumes "net_ok s"
  shows "projection_ok s vis (projectPacketNetwork s vis)"
proof -
  obtain n where n: "jm_get (ng_nodes s) ''self'' = Some n"
    using assms jm.keys_obtain by (fastforce simp: net_ok_def nodes_ok_def)
  have "nn_id n = ''self''" using assms nodes_ok_get n by (auto simp: net_ok_def)
  then have "projection_ok s vis \<lparr>np_nodes = [(''self'', n)], np_links = []\<rparr>"
    using n by (simp add: projection_ok_def jm_all_def isPacketNetworkNodeVisible_def)
  then show ?thesis
    unfolding projectPacketNetwork_def Let_def n option.case
    by (rule fold_keeps) (rule project_observation_ok [OF _ aliases_shown [OF assms]])
qed

section \<open>Properties\<close>

text \<open>
  C34: The graph is always well formed. After any sequence of packets, prunings, clears and renames of
  the own node: every node is stored under its own id and the own node exists; every link joins
  two different existing nodes, is stored under its key and makes them neighbours of each other;
  the neighbour relation is symmetric and between existing nodes; every remembered path has at
  least two nodes, all existing, no two consecutive ones equal; and at most 200 observations are
  kept per hop token.
\<close>

theorem net_graph_wf: "net_ok (fold (net_step dec compare) es (createPacketNetworkState name now))"
  by (rule net_machine.run_inv [OF net_ok_create]) (simp add: list_all_iff)



text \<open>
  Showing everything hides nothing. With ambiguous nodes and paths shown and no collapsing, the
  projection of every remembered path is the path itself, with no dashed link.
\<close>

theorem full_visibility_identity:
  assumes "net_ok s" and "ob \<in> set (ng_observations s)"
  shows "projectCanonicalPath s (no_nodes ob)
     \<lparr>nv_showAmbiguousNodes = True, nv_showAmbiguousPaths = True, nv_collapseLikelyKnownSiblingRepeaters = False\<rparr> =
     (no_nodes ob, [])"
proof -
  let ?vis = "\<lparr>nv_showAmbiguousNodes = True, nv_showAmbiguousPaths = True, nv_collapseLikelyKnownSiblingRepeaters = False\<rparr>"
  have ob: "set (no_nodes ob) \<subseteq> node_ids s" "[] \<notin> set (no_nodes ob)" "distinct_adj (no_nodes ob)"
    using assms by (auto simp: net_ok_def list_all_iff path_ok_def)
  have vis: "shown s ?vis n" if "n \<in> node_ids s" for n
    using jm.keys_obtain [OF that] by (auto simp: isPacketNetworkNodeVisible_def)
  let ?step = "\<lambda>(index, nodeId). path_step_of s ?vis [] (length (no_nodes ob)) index nodeId"
  have step: "ps_nodeId (?step (i, n)) = Some n" "\<not> ps_markHiddenLinkWhenOmitted (?step (i, n))"
    if "n \<in> set (no_nodes ob)" for i n
    using vis ob(1) that by (auto simp: path_step_of_def coalesce_def Let_def)
  have mf: "step_nodes (map ?step (enumerate i xs)) = xs" if "set xs \<subseteq> set (no_nodes ob)" for i xs
    using that
  proof (induction xs arbitrary: i)
    case (Cons x xs)
    then have "or_null (ps_nodeId (?step (i, x))) = Some x" using step(1) ob(2) by (auto simp: or_null_def)
    then show ?case using Cons by (simp add: step_nodes_def map_filter_simps)
  qed (simp add: step_nodes_def map_filter_simps)
  have "list_all (\<lambda>st. \<not> ps_markHiddenLinkWhenOmitted st) (map ?step (enumerate 0 (no_nodes ob)))"
    using step(2) by (auto simp: list_all_iff in_set_enumerate_eq)
  from compact_no_dashed [OF this] show ?thesis
    using mf [of "no_nodes ob" 0] ob(3)
    by (simp add: projectCanonicalPath_def buildKnownSiblingRepeaterAliasMap_def projectCanonicalPathWithAliases_def
        compact_nodes dedupe_is_remdups_adj Let_def distinct_adj_altdef)
qed

definition two_node_state :: net_state where
  "two_node_state = (createPacketNetworkState ''Me'' 5)\<lparr>
     ng_nodes := [(''self'', self_node ''Me'' 5), (''ab'', (self_node ''Me'' 5)\<lparr>nn_id := ''ab'', nn_type := NtRepeater\<rparr>)],
     ng_observations := [\<lparr>no_nodes = [''ab'', ''self''], no_activityAtMs = 5\<rparr>]\<rparr>"

theorem full_visibility_identity_witness:
  "projectCanonicalPath two_node_state [''ab'', ''self'']
     \<lparr>nv_showAmbiguousNodes = True, nv_showAmbiguousPaths = True, nv_collapseLikelyKnownSiblingRepeaters = False\<rparr> =
     ([''ab'', ''self''], [])"
proof -
  have "net_ok two_node_state"
    by (simp add: two_node_state_def createPacketNetworkState_def net_ok_def nodes_ok_def jm_wf_def jm_all_def
        self_node_def neighbors_ok_def traffic_ok_def coalesce_def path_ok_def)
  from full_visibility_identity [OF this, of "\<lparr>no_nodes = [''ab'', ''self''], no_activityAtMs = 5\<rparr>"]
  show ?thesis by (simp add: two_node_state_def)
qed

text \<open>
  Pruning drops exactly the stale nodes. Afterwards the nodes are the own one and those active at
  or after the cutoff, the result says whether any was dropped, and pruning again with the same
  cutoff changes nothing.
\<close>

theorem prune_exact:
  "case prunePacketNetworkState cutoff s of (s', pruned) \<Rightarrow>
     ng_nodes s' = filter (\<lambda>(i, n). i = ''self'' \<or> cutoff \<le> nn_lastActivity n) (ng_nodes s) \<and>
     pruned = (ng_nodes s' \<noteq> ng_nodes s) \<and> prunePacketNetworkState cutoff s' = (s', False)"
proof -
  have len: "length (filter P xs) = length xs \<longleftrightarrow> filter P xs = xs" for P and xs :: "(string \<times> net_node) list"
    by (metis filter_id_conv length_filter_less less_irrefl)
  show ?thesis
    by (auto simp: prunePacketNetworkState_def len Let_def not_less)
qed

end
