(* ===== verification/Json.thy ===== *)
theory Json
  imports Complex_Main JsRuntime
begin

text \<open>
  The values \<^verbatim>\<open>JSON.parse\<close> makes, and reading properties of them. The fields of an object are listed in
  the order in which \<^verbatim>\<open>Object.entries\<close> gives them. Where the program parses a text, the model takes
  the parsed value, \<open>None\<close> when \<^verbatim>\<open>JSON.parse\<close> throws.
\<close>

datatype json =
    JNull
  | JBool bool
  | JNumber rat
  | JString string
  | JArray "json list"
  | JObject "(string \<times> json) list"

definition isRecord :: "json option \<Rightarrow> bool" where
  "isRecord v = (case v of Some (JObject _) \<Rightarrow> True | _ \<Rightarrow> False)"

text \<open>A property of a value: \<open>None\<close> is \<^verbatim>\<open>undefined\<close>; of \<^verbatim>\<open>null\<close> and \<^verbatim>\<open>undefined\<close> reading throws.\<close>

definition field :: "string \<Rightarrow> json option \<Rightarrow> json option" where
  "field name v = (case v of Some (JObject fields) \<Rightarrow> map_of fields name | _ \<Rightarrow> None)"

definition readable :: "json option \<Rightarrow> bool" where
  "readable v = (case v of None \<Rightarrow> False | Some JNull \<Rightarrow> False | _ \<Rightarrow> True)"

definition is_string :: "json option \<Rightarrow> bool" where
  "is_string v = (case v of Some (JString _) \<Rightarrow> True | _ \<Rightarrow> False)"

definition is_number :: "json option \<Rightarrow> bool" where
  "is_number v = (case v of Some (JNumber _) \<Rightarrow> True | _ \<Rightarrow> False)"

end
