(* ===== verification/Socket.thy ===== *)
theory Socket
  imports Json
begin

text \<open>
  The WebSocket of the application: the connection kept by \<^verbatim>\<open>useWebSocket.ts\<close> (sockets, backoff,
  timers, mounting and unmounting) and the envelope of an event (\<^verbatim>\<open>wsEvents.ts\<close>) with its dispatch to
  the handlers. A received frame is modelled by the value \<^verbatim>\<open>JSON.parse\<close> makes of it, \<open>None\<close> when it
  throws. The browser is the environment: it fires timers that are pending and events of any socket
  ever created, also of sockets that were replaced. Sockets and timers are numbered from 1.
\<close>

section \<open>The event envelope\<close>

datatype ws_type =
    WsHealth | WsMessage | WsContact | WsContactResolved | WsChannel | WsContactDeleted | WsChannelDeleted
  | WsRawPacket | WsCommunityPacket | WsCommunityLive | WsMessageAcked | WsMessageDeleted | WsRadioWifi
  | WsError | WsSuccess | WsPong | WsUnknown string

record ws_event =
  we_type :: ws_type
  we_data :: "json option"

definition known_types :: "(string \<times> ws_type) list" where
  "known_types =
     [(''health'', WsHealth), (''message'', WsMessage), (''contact'', WsContact),
      (''contact_resolved'', WsContactResolved), (''channel'', WsChannel),
      (''contact_deleted'', WsContactDeleted), (''channel_deleted'', WsChannelDeleted),
      (''raw_packet'', WsRawPacket), (''community_packet'', WsCommunityPacket),
      (''community_live'', WsCommunityLive), (''message_acked'', WsMessageAcked),
      (''message_deleted'', WsMessageDeleted), (''radio_wifi'', WsRadioWifi), (''error'', WsError),
      (''success'', WsSuccess), (''pong'', WsPong)]"

text \<open>\<open>None\<close> is the exception, of \<^verbatim>\<open>JSON.parse\<close> or of the envelope check.\<close>

definition parseWsEvent :: "json option \<Rightarrow> ws_event option" where
  "parseWsEvent parsed =
     (case field ''type'' parsed of
        Some (JString t) \<Rightarrow>
          Some \<lparr>we_type = (case map_of known_types t of Some k \<Rightarrow> k | None \<Rightarrow> WsUnknown t),
                we_data = field ''data'' parsed\<rparr>
      | _ \<Rightarrow> None)"

definition isDispatchableWsEvent :: "ws_event \<Rightarrow> bool" where
  "isDispatchableWsEvent e =
     (let data = we_data e in
      case we_type e of
        WsUnknown _ \<Rightarrow> True
      | WsPong \<Rightarrow> True
      | WsMessage \<Rightarrow> isRecord data
      | WsContact \<Rightarrow> isRecord data \<and> is_string (field ''public_key'' data)
      | WsContactResolved \<Rightarrow>
          isRecord data \<and> is_string (field ''previous_public_key'' data) \<and> isRecord (field ''contact'' data)
      | WsContactDeleted \<Rightarrow> isRecord data \<and> is_string (field ''public_key'' data)
      | WsChannelDeleted \<Rightarrow> isRecord data \<and> is_string (field ''key'' data)
      | WsMessageAcked \<Rightarrow>
          isRecord data \<and> is_number (field ''message_id'' data) \<and> is_number (field ''ack_count'' data)
      | WsMessageDeleted \<Rightarrow> isRecord data \<and> is_number (field ''message_id'' data)
      | WsRadioWifi \<Rightarrow> isRecord data \<and> is_string (field ''check'' data)
      | WsCommunityPacket \<Rightarrow> isRecord data
      | WsCommunityLive \<Rightarrow> isRecord data
      | WsError \<Rightarrow> isRecord data \<and> is_string (field ''message'' data)
      | WsSuccess \<Rightarrow> isRecord data \<and> is_string (field ''message'' data)
      | _ \<Rightarrow> True)"

section \<open>Dispatch\<close>

text \<open>A call of a handler with its arguments, \<open>None\<close> for \<^verbatim>\<open>undefined\<close>.\<close>

datatype ws_call =
    OnHealth "json option"
  | OnMessage "json option"
  | OnContact "json option"
  | OnContactResolved "json option" "json option"
  | OnContactDeleted "json option"
  | OnChannel "json option"
  | OnChannelDeleted "json option"
  | OnRawPacket "json option"
  | OnCommunityPacket "json option"
  | OnCommunityLive "json option"
  | OnMessageAcked "json option" "json option" "json option" "json option" "(json option \<times> json option) option"
  | OnMessageDeleted "json option"
  | OnRadioWifi "json option"
  | OnError "json option"
  | OnSuccess "json option"

datatype dispatched = Calls ws_call | Warned | Threw

text \<open>\<^verbatim>\<open>data.field\<close> on the data of an event, then the call: reading a property of null throws.\<close>

definition reading :: "json option \<Rightarrow> ws_call \<Rightarrow> dispatched" where
  "reading data call = (if readable data then Calls call else Threw)"

definition ack_call :: "json option \<Rightarrow> ws_call" where
  "ack_call data =
     OnMessageAcked (field ''message_id'' data) (field ''ack_count'' data) (field ''paths'' data) (field ''packet_id'' data)
       (if field ''packet_hash'' data \<noteq> None \<or> field ''observer_reach_eligible'' data \<noteq> None
        then Some (field ''packet_hash'' data, field ''observer_reach_eligible'' data) else None)"

definition call_handler :: "ws_event \<Rightarrow> dispatched" where
  "call_handler e =
     (let data = we_data e in
      case we_type e of
        WsHealth \<Rightarrow> Calls (OnHealth data)
      | WsMessage \<Rightarrow> Calls (OnMessage data)
      | WsContact \<Rightarrow> Calls (OnContact data)
      | WsContactResolved \<Rightarrow> reading data (OnContactResolved (field ''previous_public_key'' data) (field ''contact'' data))
      | WsChannel \<Rightarrow> Calls (OnChannel data)
      | WsContactDeleted \<Rightarrow> reading data (OnContactDeleted (field ''public_key'' data))
      | WsChannelDeleted \<Rightarrow> reading data (OnChannelDeleted (field ''key'' data))
      | WsRawPacket \<Rightarrow> Calls (OnRawPacket data)
      | WsCommunityPacket \<Rightarrow> Calls (OnCommunityPacket data)
      | WsCommunityLive \<Rightarrow> Calls (OnCommunityLive data)
      | WsMessageAcked \<Rightarrow> reading data (ack_call data)
      | WsMessageDeleted \<Rightarrow> reading data (OnMessageDeleted (field ''message_id'' data))
      | WsRadioWifi \<Rightarrow> Calls (OnRadioWifi data)
      | WsError \<Rightarrow> Calls (OnError data)
      | WsSuccess \<Rightarrow> Calls (OnSuccess data)
      | WsPong \<Rightarrow> Warned
      | WsUnknown _ \<Rightarrow> Warned)"

text \<open>The body of \<^verbatim>\<open>onmessage\<close> inside its \<^verbatim>\<open>try\<close>: an exception ends in the log.\<close>

definition dispatch :: "json option \<Rightarrow> dispatched" where
  "dispatch frame =
     (case parseWsEvent frame of
        None \<Rightarrow> Threw
      | Some msg \<Rightarrow> if \<not> isDispatchableWsEvent msg then Warned else call_handler msg)"

section \<open>The connection\<close>

definition RECONNECT_BASE_MS :: int where
  "RECONNECT_BASE_MS = 1000"

definition RECONNECT_MAX_MS :: int where
  "RECONNECT_MAX_MS = 30000"

definition STABLE_CONNECTION_MS :: int where
  "STABLE_CONNECTION_MS = 10000"

definition reconnect_base :: "nat \<Rightarrow> int" where
  "reconnect_base attempt = min RECONNECT_MAX_MS (RECONNECT_BASE_MS * 2 ^ min attempt 10)"

text \<open>\<^verbatim>\<open>Math.round(x)\<close> is the floor of \<open>x + 1/2\<close>; \<open>random\<close> is what \<^verbatim>\<open>Math.random()\<close> returned.\<close>

definition reconnectDelayMs :: "nat \<Rightarrow> rat \<Rightarrow> int" where
  "reconnectDelayMs attempt random = \<lfloor>of_int (reconnect_base attempt) * (3 / 4 + random * (1 / 2)) + 1 / 2\<rfloor>"

datatype timer_kind = StableTimer int | ReconnectTimer int

datatype ws_output = Reconnected | Called ws_call | Ping nat

text \<open>
  The refs of the hook, and of the browser whether the hook is mounted, the pending timers, the sockets whose \<^verbatim>\<open>readyState\<close> is
  open and the next number; \<open>ws_out\<close> is what the hook has done to the outside.
\<close>

record ws_state =
  ws_ref :: "nat option"
  ws_reconnectTimeout :: "nat option"
  ws_shouldReconnect :: bool
  ws_hasConnected :: bool
  ws_attempt :: nat
  ws_stableTimer :: "nat option"
  ws_mounted :: bool
  ws_timers :: "(nat \<times> timer_kind) list"
  ws_open :: "nat list"
  ws_fresh :: nat
  ws_out :: "ws_output list"

definition setTimeout :: "timer_kind \<Rightarrow> ws_state \<Rightarrow> ws_state \<times> nat" where
  "setTimeout kind s =
     (s\<lparr>ws_timers := ws_timers s @ [(ws_fresh s, kind)], ws_fresh := Suc (ws_fresh s)\<rparr>, ws_fresh s)"

definition clearTimeout :: "nat option \<Rightarrow> ws_state \<Rightarrow> ws_state" where
  "clearTimeout t s = s\<lparr>ws_timers := filter (\<lambda>(i, _). Some i \<noteq> t) (ws_timers s)\<rparr>"

definition clearStableTimer :: "ws_state \<Rightarrow> ws_state" where
  "clearStableTimer s = (clearTimeout (ws_stableTimer s) s)\<lparr>ws_stableTimer := None\<rparr>"

definition clearReconnectTimer :: "ws_state \<Rightarrow> ws_state" where
  "clearReconnectTimer s = (clearTimeout (ws_reconnectTimeout s) s)\<lparr>ws_reconnectTimeout := None\<rparr>"

definition connect :: "ws_state \<Rightarrow> ws_state" where
  "connect s = s\<lparr>ws_ref := Some (ws_fresh s), ws_fresh := Suc (ws_fresh s)\<rparr>"

definition emitted :: "ws_output \<Rightarrow> ws_state \<Rightarrow> ws_state" where
  "emitted out s = s\<lparr>ws_out := ws_out s @ [out]\<rparr>"

definition onopen :: "nat \<Rightarrow> ws_state \<Rightarrow> ws_state" where
  "onopen i s =
     (if ws_ref s \<noteq> Some i then s
      else
        let (s1, t) = setTimeout (StableTimer STABLE_CONNECTION_MS) (clearStableTimer s);
            s2 = clearReconnectTimer (s1\<lparr>ws_stableTimer := Some t\<rparr>);
            s3 = (if ws_hasConnected s2 then emitted Reconnected s2 else s2)
        in s3\<lparr>ws_hasConnected := True\<rparr>)"

definition onclose :: "rat \<Rightarrow> nat \<Rightarrow> ws_state \<Rightarrow> ws_state" where
  "onclose random i s =
     (if ws_ref s \<noteq> Some i then s
      else
        let s1 = (clearStableTimer s)\<lparr>ws_ref := None\<rparr> in
        if \<not> ws_shouldReconnect s1 then s1
        else
          let s2 = clearTimeout (ws_reconnectTimeout s1) s1;
              delay = reconnectDelayMs (ws_attempt s2) random;
              (s3, t) = setTimeout (ReconnectTimer delay) (s2\<lparr>ws_attempt := ws_attempt s2 + 1\<rparr>)
          in s3\<lparr>ws_reconnectTimeout := Some t\<rparr>)"

definition onmessage :: "nat \<Rightarrow> json option \<Rightarrow> ws_state \<Rightarrow> ws_state" where
  "onmessage i frame s =
     (if ws_ref s \<noteq> Some i then s
      else
        let s1 = (if ws_attempt s \<noteq> 0 then clearStableTimer (s\<lparr>ws_attempt := 0\<rparr>) else s) in
        case dispatch frame of Calls c \<Rightarrow> emitted (Called c) s1 | _ \<Rightarrow> s1)"

text \<open>A pending timer fires: it is no longer pending and its callback runs.\<close>

definition fire :: "nat \<Rightarrow> ws_state \<Rightarrow> ws_state" where
  "fire t s =
     (case map_of (ws_timers s) t of
        None \<Rightarrow> s
      | Some (StableTimer _) \<Rightarrow> (clearTimeout (Some t) s)\<lparr>ws_attempt := 0\<rparr>
      | Some (ReconnectTimer _) \<Rightarrow> connect ((clearTimeout (Some t) s)\<lparr>ws_reconnectTimeout := None\<rparr>))"

definition reconnectNow :: "ws_state \<Rightarrow> ws_state" where
  "reconnectNow s =
     (if \<not> ws_shouldReconnect s \<or> ws_ref s \<noteq> None then s else connect (clearReconnectTimer s))"

definition pingInterval :: "ws_state \<Rightarrow> ws_state" where
  "pingInterval s =
     (case ws_ref s of
        Some i \<Rightarrow> if i \<in> set (ws_open s) then emitted (Ping i) s else s
      | None \<Rightarrow> s)"

definition mount :: "ws_state \<Rightarrow> ws_state" where
  "mount s = connect (s\<lparr>ws_mounted := True, ws_shouldReconnect := True, ws_attempt := 0\<rparr>)"

definition unmount :: "ws_state \<Rightarrow> ws_state" where
  "unmount s =
     (clearReconnectTimer (clearStableTimer (s\<lparr>ws_mounted := False, ws_shouldReconnect := False\<rparr>)))\<lparr>ws_ref := None\<rparr>"

text \<open>A page that has not mounted the hook yet.\<close>

definition ws_init :: ws_state where
  "ws_init = \<lparr>ws_ref = None, ws_reconnectTimeout = None, ws_shouldReconnect = True, ws_hasConnected = False,
     ws_attempt = 0, ws_stableTimer = None, ws_mounted = False, ws_timers = [], ws_open = [], ws_fresh = 1, ws_out = []\<rparr>"

text \<open>
  The steps of the page. The browser opens a socket (its \<^verbatim>\<open>readyState\<close> changes before the handler
  runs), closes it, delivers frames, fires pending timers, and reports the page online or visible;
  React mounts and unmounts the hook, which starts and stops the listeners and the ping.
\<close>

inductive ws_step :: "ws_state \<Rightarrow> ws_state \<Rightarrow> bool" where
  step_open: "ws_step s (onopen i (s\<lparr>ws_open := i # ws_open s\<rparr>))"
| step_close: "0 \<le> r \<Longrightarrow> r < 1 \<Longrightarrow> ws_step s (onclose r i (s\<lparr>ws_open := removeAll i (ws_open s)\<rparr>))"
| step_message: "ws_step s (onmessage i frame s)"
| step_timer: "t \<in> fst ` set (ws_timers s) \<Longrightarrow> ws_step s (fire t s)"
| step_online: "ws_mounted s \<Longrightarrow> ws_step s (reconnectNow s)"
| step_ping: "ws_mounted s \<Longrightarrow> ws_step s (pingInterval s)"
| step_mount: "\<not> ws_mounted s \<Longrightarrow> ws_step s (mount s)"
| step_unmount: "ws_mounted s \<Longrightarrow> ws_step s (unmount s)"

inductive ws_reachable :: "ws_state \<Rightarrow> bool" where
  reach_init: "ws_reachable ws_init"
| reach_step: "ws_reachable s \<Longrightarrow> ws_step s s' \<Longrightarrow> ws_reachable s'"

section \<open>The invariant of the connection\<close>

definition ws_ok :: "ws_state \<Rightarrow> bool" where
  "ws_ok s \<longleftrightarrow>
     (if ws_mounted s then
        ws_shouldReconnect s \<and>
        (case ws_ref s of
           Some _ \<Rightarrow>
             ws_reconnectTimeout s = None \<and>
             (ws_timers s = [] \<or>
              (\<exists>t. ws_timers s = [(t, StableTimer STABLE_CONNECTION_MS)] \<and> ws_stableTimer s = Some t))
         | None \<Rightarrow>
             \<exists>t d. ws_timers s = [(t, ReconnectTimer d)] \<and> ws_reconnectTimeout s = Some t \<and>
               ws_stableTimer s = None \<and> 750 \<le> d \<and> d \<le> 37500)
      else ws_ref s = None \<and> ws_timers s = [] \<and> ws_reconnectTimeout s = None \<and> ws_stableTimer s = None)"

lemmas timer_defs = setTimeout_def clearTimeout_def clearStableTimer_def clearReconnectTimer_def connect_def emitted_def

lemma reconnect_base_cases:
  "reconnect_base n \<in> {1000, 2000, 4000, 8000, 16000, 30000}"
proof (cases "n < 5")
  case True
  then have "n \<in> {0, 1, 2, 3, 4}" by auto
  then show ?thesis by (auto simp: reconnect_base_def RECONNECT_BASE_MS_def RECONNECT_MAX_MS_def)
next
  case False
  then have "(2 :: int) ^ 5 \<le> 2 ^ min n 10" by (intro power_increasing) auto
  then show ?thesis by (simp add: reconnect_base_def RECONNECT_BASE_MS_def RECONNECT_MAX_MS_def)
qed

lemma delay_near_base:
  assumes "0 \<le> r" "r < 1"
  shows "3 * reconnect_base n \<le> 4 * reconnectDelayMs n r" and "4 * reconnectDelayMs n r \<le> 5 * reconnect_base n"
proof -
  define b where "b = reconnect_base n"
  obtain k where k: "b = 4 * k" and "0 < k"
    using reconnect_base_cases [of n] by (auto simp: b_def intro: that [of "_ div 4"])
  have "of_int b * (3 / 4 + r * (1 / 2)) = of_int (3 * k) + of_int k * (2 * r)"
    by (simp add: k algebra_simps)
  moreover have "0 \<le> of_int k * (2 * r)" "of_int k * (2 * r) < of_int k * 2"
    using assms \<open>0 < k\<close> by simp_all
  ultimately have "3 * k \<le> reconnectDelayMs n r" "reconnectDelayMs n r \<le> 5 * k"
    unfolding reconnectDelayMs_def b_def [symmetric] by (linarith, linarith)
  then show "3 * reconnect_base n \<le> 4 * reconnectDelayMs n r" "4 * reconnectDelayMs n r \<le> 5 * reconnect_base n"
    using k by (simp_all add: b_def)
qed

lemma delay_bounds:
  assumes "0 \<le> r" "r < 1"
  shows "750 \<le> reconnectDelayMs n r" and "reconnectDelayMs n r \<le> 37500"
  using delay_near_base [OF assms, of n] reconnect_base_cases [of n] by auto

lemma ws_ok_init: "ws_ok ws_init"
  by (simp add: ws_ok_def ws_init_def)

lemma ws_ok_open: "ws_ok s \<Longrightarrow> ws_ok (onopen i s)"
  by (auto simp: onopen_def ws_ok_def timer_defs Let_def split: option.splits if_splits)

lemma ws_ok_close:
  assumes "ws_ok s" and "0 \<le> r" "r < 1"
  shows "ws_ok (onclose r i s)"
  using assms(1) delay_bounds [OF assms(2, 3), of "ws_attempt s"]
  by (auto simp: onclose_def ws_ok_def timer_defs Let_def split: option.splits if_splits)

lemma ws_ok_message: "ws_ok s \<Longrightarrow> ws_ok (onmessage i frame s)"
  by (auto simp: onmessage_def ws_ok_def timer_defs Let_def split: option.splits if_splits dispatched.splits)

lemma ws_ok_fire: "ws_ok s \<Longrightarrow> ws_ok (fire t s)"
  by (auto simp: fire_def ws_ok_def timer_defs split: option.splits if_splits timer_kind.splits)

lemma ws_ok_mounted: "ws_ok s \<Longrightarrow> ws_mounted s \<Longrightarrow> ws_ok (reconnectNow s) \<and> ws_ok (pingInterval s) \<and> ws_ok (unmount s)"
  by (auto simp: reconnectNow_def pingInterval_def unmount_def ws_ok_def timer_defs split: option.splits if_splits)

lemma ws_ok_mount: "ws_ok s \<Longrightarrow> \<not> ws_mounted s \<Longrightarrow> ws_ok (mount s)"
  by (simp add: mount_def ws_ok_def timer_defs)

lemma ws_ok_browser: "ws_ok (s\<lparr>ws_open := x\<rparr>) = ws_ok s"
  by (simp add: ws_ok_def split: option.split)

lemma ws_ok_step: "ws_step s s' \<Longrightarrow> ws_ok s \<Longrightarrow> ws_ok s'"
  by (induction rule: ws_step.induct)
    (simp_all add: ws_ok_open ws_ok_close ws_ok_message ws_ok_fire ws_ok_mounted ws_ok_mount ws_ok_browser)

lemma ws_reachable_ok: "ws_reachable s \<Longrightarrow> ws_ok s"
  by (induction rule: ws_reachable.induct) (auto intro: ws_ok_init ws_ok_step)

text \<open>A pending reconnection stays pending until the page connects or the hook is unmounted.\<close>

lemma pending_until_connected:
  assumes "ws_step s s'" and "ws_ok s" "ws_mounted s" "ws_ref s = None" "ws_timers s = [(t, ReconnectTimer d)]"
  shows "ws_ref s' \<noteq> None \<or> \<not> ws_mounted s' \<or> ws_timers s' = [(t, ReconnectTimer d)]"
  using assms
  by (induction rule: ws_step.induct)
    (auto simp: onopen_def onclose_def onmessage_def fire_def reconnectNow_def pingInterval_def unmount_def
      timer_defs)

text \<open>Nothing but mounting changes an unmounted hook.\<close>

lemma unmounted_inert:
  assumes "ws_step s s'" and "ws_ok s" "\<not> ws_mounted s"
  shows "ws_mounted s' \<or> s' = s\<lparr>ws_open := ws_open s'\<rparr>"
  using assms
  by (induction rule: ws_step.induct)
    (auto simp: onopen_def onclose_def onmessage_def fire_def mount_def ws_ok_def timer_defs)

text \<open>A failed attempt: the current socket closes and the pending reconnection fires.\<close>

definition fail_round :: "rat \<Rightarrow> ws_state \<Rightarrow> ws_state" where
  "fail_round r s =
     (case ws_ref s of
        None \<Rightarrow> s
      | Some i \<Rightarrow>
          let s1 = onclose r i s in (case ws_reconnectTimeout s1 of None \<Rightarrow> s1 | Some t \<Rightarrow> fire t s1))"

lemma fail_round_attempt:
  assumes "ws_ok s" "ws_mounted s" "ws_ref s \<noteq> None"
  shows "ws_mounted (fail_round r s) \<and> ws_ref (fail_round r s) \<noteq> None \<and> ws_attempt (fail_round r s) = Suc (ws_attempt s)"
  using assms
  by (auto simp: fail_round_def onclose_def fire_def ws_ok_def timer_defs Let_def split: option.splits)

lemma fail_round_ok:
  assumes "ws_ok s" and "0 \<le> r" "r < 1"
  shows "ws_ok (fail_round r s)"
  using assms by (auto simp: fail_round_def Let_def split: option.split intro: ws_ok_close ws_ok_fire)

lemma fail_rounds:
  assumes "ws_ok s" "ws_mounted s" "ws_ref s \<noteq> None" and "list_all (\<lambda>r. 0 \<le> r \<and> r < 1) rs"
  shows "ws_ok (fold fail_round rs s) \<and> ws_mounted (fold fail_round rs s) \<and> ws_ref (fold fail_round rs s) \<noteq> None \<and>
     ws_attempt (fold fail_round rs s) = ws_attempt s + length rs"
  using assms
proof (induction rs arbitrary: s)
  case (Cons r rs)
  then show ?case using fail_round_attempt [of s r] fail_round_ok [of s r] by simp
qed simp

lemma reach_mount: "ws_reachable (mount ws_init)"
  by (rule reach_step [OF reach_init step_mount]) (simp add: ws_init_def)

section \<open>Properties\<close>

text \<open>
  C14: One link, never stuck. In every reachable state of the page, whatever late events old sockets
  send and however often the hook is remounted: a mounted hook either has a current socket and no
  reconnection pending, or no socket and exactly one reconnection pending with a delay between
  0.75 and 37.5 seconds; at most one timer is pending at any time, and an unmounted hook has
  neither socket nor timer.
\<close>

theorem socket_single_link:
  assumes "ws_reachable s"
  shows "if ws_mounted s
    then (case ws_ref s of
            Some i \<Rightarrow> ws_reconnectTimeout s = None \<and> length (ws_timers s) \<le> 1 \<and>
              list_all (\<lambda>(t, k). k = StableTimer STABLE_CONNECTION_MS) (ws_timers s)
          | None \<Rightarrow> \<exists>t d. ws_timers s = [(t, ReconnectTimer d)] \<and> ws_reconnectTimeout s = Some t \<and> 750 \<le> d \<and> d \<le> 37500)
    else ws_ref s = None \<and> ws_timers s = []"
  using ws_reachable_ok [OF assms] by (auto simp: ws_ok_def split: option.splits if_splits)

theorem socket_single_link_witness:
  "list_all (\<lambda>(t, k). k = StableTimer STABLE_CONNECTION_MS) (ws_timers (onopen 1 ((mount ws_init)\<lparr>ws_open := [1]\<rparr>)))"
proof -
  note m = reach_mount
  have "ws_open (mount ws_init) = []" by (simp add: mount_def connect_def ws_init_def)
  then have "ws_step (mount ws_init) (onopen 1 ((mount ws_init)\<lparr>ws_open := [1]\<rparr>))"
    using step_open [of "mount ws_init" 1] by simp
  then have "ws_reachable (onopen 1 ((mount ws_init)\<lparr>ws_open := [1]\<rparr>))" using m reach_step by blast
  from socket_single_link [OF this] show ?thesis
    by (simp add: mount_def onopen_def ws_init_def timer_defs)
qed

text \<open>
  C15: The link comes back. A mounted hook without a socket has a pending reconnection that connects a
  new socket when it fires, and no step of the page loses it: after any step the page is
  connected, the hook is unmounted, or the same reconnection is still pending. So a browser that
  fires its timers reconnects.
\<close>

theorem reconnection_ensured:
  assumes "ws_reachable s" and "ws_mounted s" and "ws_ref s = None"
  shows "\<exists>t d. (t, ReconnectTimer d) \<in> set (ws_timers s) \<and> d \<le> 37500 \<and>
     ws_ref (fire t s) = Some (ws_fresh s) \<and>
     (\<forall>s'. ws_step s s' \<longrightarrow> ws_ref s' \<noteq> None \<or> \<not> ws_mounted s' \<or> (t, ReconnectTimer d) \<in> set (ws_timers s'))"
proof -
  have ok: "ws_ok s" using assms(1) by (rule ws_reachable_ok)
  then obtain t d where t: "ws_timers s = [(t, ReconnectTimer d)]" "d \<le> 37500"
    using assms(2, 3) by (auto simp: ws_ok_def)
  moreover have "ws_ref (fire t s) = Some (ws_fresh s)" using t by (simp add: fire_def timer_defs)
  moreover have "ws_ref s' \<noteq> None \<or> \<not> ws_mounted s' \<or> (t, ReconnectTimer d) \<in> set (ws_timers s')" if "ws_step s s'" for s'
    using pending_until_connected [OF that ok assms(2, 3) t(1)] by auto
  ultimately show ?thesis by auto
qed

theorem reconnection_ensured_witness:
  "\<exists>t d. (t, ReconnectTimer d) \<in> set (ws_timers (onclose 0 1 (mount ws_init)))"
proof -
  note m = reach_mount
  have "(mount ws_init)\<lparr>ws_open := removeAll 1 (ws_open (mount ws_init))\<rparr> = mount ws_init"
    by (simp add: mount_def connect_def ws_init_def)
  then have "ws_step (mount ws_init) (onclose 0 1 (mount ws_init))"
    using step_close [of 0 "mount ws_init" 1] by (metis order_refl zero_less_one)
  then have "ws_reachable (onclose 0 1 (mount ws_init))" using m reach_step by blast
  from reconnection_ensured [OF this] show ?thesis
    by (simp add: mount_def onclose_def ws_init_def timer_defs Let_def)
qed

text \<open>
  Nothing happens after unmounting. The only step that changes an unmounted hook is mounting it
  again: late socket events, timers and frames leave every ref, every timer and the outside alone.
\<close>

theorem socket_quiet_after_unmount:
  assumes "ws_reachable s" and "\<not> ws_mounted s" and "ws_step s s'"
  shows "ws_mounted s' \<or> s' = s\<lparr>ws_open := ws_open s'\<rparr>"
  using unmounted_inert [OF assms(3) ws_reachable_ok [OF assms(1)] assms(2)] .

theorem socket_quiet_after_unmount_witness:
  "onmessage 7 None ws_init = ws_init"
  using socket_quiet_after_unmount [OF reach_init _ step_message [of ws_init 7 None]]
  by (simp add: ws_init_def onmessage_def)

text \<open>
  Backoff. After any number of consecutive failed attempts the next delay is within a quarter of
  the base delay of that attempt, which doubles from one second and stops at thirty.
\<close>

theorem backoff_after_failures:
  assumes "ws_reachable s" "ws_mounted s" "ws_ref s = Some i" and "list_all (\<lambda>r. 0 \<le> r \<and> r < 1) (r # rs)"
  shows "case fold fail_round rs s of s' \<Rightarrow> (case ws_ref s' of
       None \<Rightarrow> False
     | Some j \<Rightarrow>
         (case ws_timers (onclose r j s') of
            [(t, ReconnectTimer d)] \<Rightarrow>
              (let b = reconnect_base (ws_attempt s + length rs) in 3 * b \<le> 4 * d \<and> 4 * d \<le> 5 * b)
          | _ \<Rightarrow> False))"
proof -
  let ?s = "fold fail_round rs s"
  have f: "ws_ok ?s" "ws_mounted ?s" "ws_ref ?s \<noteq> None" "ws_attempt ?s = ws_attempt s + length rs"
    using fail_rounds [of s rs] ws_reachable_ok [OF assms(1)] assms by auto
  then obtain j where "ws_ref ?s = Some j" by auto
  then have "ws_timers (onclose r j ?s) = [(ws_fresh ?s, ReconnectTimer (reconnectDelayMs (ws_attempt s + length rs) r))]"
    using f by (auto simp: onclose_def ws_ok_def timer_defs Let_def)
  then show ?thesis
    using \<open>ws_ref ?s = Some j\<close> delay_near_base [of r "ws_attempt s + length rs"] assms(4) by (simp add: Let_def)
qed

theorem backoff_after_failures_witness:
  "case fold fail_round [0, 1 / 2] (mount ws_init) of s' \<Rightarrow> (case ws_ref s' of
       None \<Rightarrow> False
     | Some j \<Rightarrow>
         (case ws_timers (onclose (1 / 4) j s') of
            [(t, ReconnectTimer d)] \<Rightarrow>
              (let b = reconnect_base (ws_attempt (mount ws_init) + length [0, 1 / 2 :: rat]) in 3 * b \<le> 4 * d \<and> 4 * d \<le> 5 * b)
          | _ \<Rightarrow> False))"
proof -
  note m = reach_mount
  have "ws_mounted (mount ws_init)" "ws_ref (mount ws_init) = Some 1"
    by (simp_all add: mount_def connect_def ws_init_def)
  from backoff_after_failures [OF m this, of "1 / 4" "[0, 1 / 2]"] show ?thesis by simp
qed

text \<open>
  C16: Handlers get what they dereference. A frame that throws is exactly one whose envelope does not
  parse; every call that is made carries keys that are strings, ids and counts that are numbers, and
  records where the handler reads fields.
\<close>

definition well_typed :: "ws_call \<Rightarrow> bool" where
  "well_typed call =
     (case call of
        OnMessage m \<Rightarrow> isRecord m
      | OnContact c \<Rightarrow> isRecord c \<and> is_string (field ''public_key'' c)
      | OnContactResolved k c \<Rightarrow> is_string k \<and> isRecord c
      | OnContactDeleted k \<Rightarrow> is_string k
      | OnChannelDeleted k \<Rightarrow> is_string k
      | OnCommunityPacket p \<Rightarrow> isRecord p
      | OnCommunityLive p \<Rightarrow> isRecord p
      | OnMessageAcked i n ps pid extras \<Rightarrow> is_number i \<and> is_number n
      | OnMessageDeleted i \<Rightarrow> is_number i
      | OnRadioWifi s \<Rightarrow> isRecord s \<and> is_string (field ''check'' s)
      | OnError e \<Rightarrow> isRecord e \<and> is_string (field ''message'' e)
      | OnSuccess e \<Rightarrow> isRecord e \<and> is_string (field ''message'' e)
      | _ \<Rightarrow> True)"


end
