(* ===== verification/TextReplace.thy ===== *)
theory TextReplace
  imports Json
begin

text \<open>
  Text replacement while typing (\<^verbatim>\<open>utils/textReplace.ts\<close>): checking a map of replacements before it is
  stored, and applying it to the text of the input with its cursor. The scan is a loop that need
  not end for an arbitrary map, so it is a partial function; that it returns for every map the
  code builds is part of what is proved.
\<close>

section \<open>Checking and storing the map\<close>

datatype map_error = NotAnObject | NotStrings | ReExpands string string | InvalidJson

definition js_includes :: "string \<Rightarrow> string \<Rightarrow> bool" where
  "js_includes s p = list_ex (\<lambda>i. take (length p) (drop i s) = p) [0..<Suc (length s)]"

fun string_entries :: "(string \<times> json) list \<Rightarrow> (string \<times> string) list option" where
  "string_entries [] = Some []"
| "string_entries ((k, JString v) # es) = map_option ((#) (k, v)) (string_entries es)"
| "string_entries (_ # es) = None"

text \<open>The first needle, and for it the first replacement, that would expand again.\<close>

definition re_expansion :: "(string \<times> string) list \<Rightarrow> (string \<times> string) option" where
  "re_expansion entries =
     find (\<lambda>(needle, replacement). 0 < length needle \<and> js_includes replacement needle)
       (concat (map (\<lambda>(needle, _). map (\<lambda>(_, replacement). (needle, replacement)) entries) entries))"

text \<open>
  \<open>storageOk\<close> says whether \<^verbatim>\<open>localStorage.setItem\<close> succeeds; when it throws, the handler reports invalid
  JSON. The stored text is represented by its parsed value.
\<close>

definition setTextReplaceMapJson :: "bool \<Rightarrow> json option \<Rightarrow> json option \<Rightarrow> json option \<times> map_error option" where
  "setTextReplaceMapJson storageOk parsed stored =
     (case parsed of
        None \<Rightarrow> (stored, Some InvalidJson)
      | Some (JObject fields) \<Rightarrow>
          (case string_entries fields of
             None \<Rightarrow> (stored, Some NotStrings)
           | Some entries \<Rightarrow>
               (case re_expansion entries of
                  Some (needle, replacement) \<Rightarrow> (stored, Some (ReExpands needle replacement))
                | None \<Rightarrow> if storageOk then (parsed, None) else (stored, Some InvalidJson)))
      | _ \<Rightarrow> (stored, Some NotAnObject))"

section \<open>Applying it\<close>

text \<open>The entries of a map of strings, longest needle first; \<open>None\<close> when the text does not parse.\<close>

definition buildReplacements :: "(string \<times> string) list option \<Rightarrow> (string \<times> string) list" where
  "buildReplacements parsed =
     (case parsed of
        None \<Rightarrow> []
      | Some entries \<Rightarrow>
          js_sort (\<lambda>a b. int (length (fst b)) - int (length (fst a))) (filter (\<lambda>(k, _). 0 < length k) entries))"

definition match_at :: "(string \<times> string) list \<Rightarrow> string \<Rightarrow> nat \<Rightarrow> (string \<times> string) option" where
  "match_at replacements text i = find (\<lambda>(needle, _). starts_with (drop i text) needle) replacements"

partial_function (option) replace_loop ::
    "string \<Rightarrow> nat \<Rightarrow> (string \<times> string) list \<Rightarrow> nat \<Rightarrow> string \<Rightarrow> int \<Rightarrow> (string \<times> int) option" where
  "replace_loop text cursorPos replacements i result newCursor =
     (if length text \<le> i then Some (result, newCursor)
      else
        case match_at replacements text i of
          Some (needle, replacement) \<Rightarrow>
            let result' = result @ replacement;
                cursor' =
                  (if i + length needle \<le> cursorPos then newCursor + (int (length replacement) - int (length needle))
                   else if i < cursorPos then int (length result')
                   else newCursor)
            in replace_loop text cursorPos replacements (i + length needle) result' cursor'
        | None \<Rightarrow> replace_loop text cursorPos replacements (i + 1) (result @ [text ! i]) newCursor)"

declare replace_loop.simps [code]

text \<open>The outer option says whether the call returns, the inner one is the result.\<close>

definition applyTextReplacements ::
    "string \<Rightarrow> nat \<Rightarrow> (string \<times> string) list option \<Rightarrow> (string \<times> int) option option" where
  "applyTextReplacements text cursorPos parsed =
     (let replacements = buildReplacements parsed in
      if length replacements = 0 then Some None
      else
        map_option (\<lambda>(result, cursor). if result = text then None else Some (result, cursor))
          (replace_loop text cursorPos replacements 0 [] (int cursorPos)))"

section \<open>Reference definition\<close>

text \<open>
  The text is cut from the left into pieces: the first replacement that matches, or one character.
  \<open>pieces\<close> lists every piece with what it becomes.
\<close>

function pieces :: "(string \<times> string) list \<Rightarrow> string \<Rightarrow> (string \<times> string) list" where
  "pieces reps s =
     (case s of
        [] \<Rightarrow> []
      | c # cs \<Rightarrow>
          (case find (\<lambda>(needle, _). starts_with s needle) (filter (\<lambda>(k, _). 0 < length k) reps) of
             Some (needle, replacement) \<Rightarrow> (needle, replacement) # pieces reps (drop (length needle) s)
           | None \<Rightarrow> ([c], [c]) # pieces reps cs))"
  by pat_completeness auto
termination
  by (relation "measure (\<lambda>(reps, s). length s)") (auto simp: find_Some_iff dest: nth_mem)

declare pieces.simps [simp del]

definition replaced :: "(string \<times> string) list \<Rightarrow> string" where
  "replaced ps = concat (map snd ps)"

text \<open>The pieces that start before a position.\<close>

fun before :: "nat \<Rightarrow> (string \<times> string) list \<Rightarrow> (string \<times> string) list" where
  "before n [] = []"
| "before n (p # ps) = (if n = 0 then [] else p # before (n - length (fst p)) ps)"

section \<open>The loop computes the reference\<close>

abbreviation proper :: "(string \<times> string) list \<Rightarrow> bool" where
  "proper reps \<equiv> list_all (\<lambda>(k, _). 0 < length k) reps"

lemma build_proper: "proper (buildReplacements m)"
  by (cases m) (auto simp: buildReplacements_def list_all_iff)

lemma match_at_Some:
  assumes "match_at reps text i = Some (n, r)" and "proper reps"
  shows "(n, r) \<in> set reps" and "0 < length n" and "take (length n) (drop i text) = n"
proof -
  from assms(1) show mem: "(n, r) \<in> set reps" and "take (length n) (drop i text) = n"
    by (auto simp: match_at_def find_Some_iff starts_with_def dest: nth_mem)
  then show "0 < length n" using assms(2) by (auto simp: list_all_iff)
qed

lemma pieces_step:
  assumes "proper reps" and "i < length text"
  shows "pieces reps (drop i text) =
    (case match_at reps text i of
       Some (n, r) \<Rightarrow> (n, r) # pieces reps (drop (i + length n) text)
     | None \<Rightarrow> ([text ! i], [text ! i]) # pieces reps (drop (Suc i) text))"
proof -
  have "filter (\<lambda>(k, _). 0 < length k) reps = reps" using assms(1) by (simp add: list_all_iff)
  moreover obtain c cs where "drop i text = c # cs" and "c = text ! i" and "cs = drop (Suc i) text"
    using assms(2) by (metis Cons_nth_drop_Suc)
  moreover have "drop (length n) (drop i text) = drop (i + length n) text" for n :: string
    by (simp add: add.commute)
  ultimately show ?thesis
    by (subst pieces.simps) (auto simp: match_at_def split: option.split)
qed

lemma pieces_Nil [simp]: "pieces reps [] = []"
  by (simp add: pieces.simps)

lemma match_in_text:
  assumes "match_at reps text i = Some (n, r)" and "proper reps"
  shows "i + length n \<le> length text"
proof -
  have "length n \<le> length (drop i text)" "0 < length n"
    using match_at_Some [OF assms] by (metis length_take min.cobounded1, simp)
  then show ?thesis unfolding length_drop by arith
qed

text \<open>Behind the cursor the loop leaves the cursor alone; before it, it moves by what is inserted.\<close>

lemma loop_behind:
  assumes "proper reps" and "c \<le> i" "i \<le> length text"
  shows "replace_loop text c reps i result cursor = Some (result @ replaced (pieces reps (drop i text)), cursor)"
  using assms(2, 3)
proof (induction "length text - i" arbitrary: i result rule: less_induct)
  case less
  show ?case
  proof (cases "i = length text")
    case True
    then show ?thesis by (simp add: replace_loop.simps replaced_def)
  next
    case False
    then have i: "i < length text" using less.prems by simp
    show ?thesis
    proof (cases "match_at reps text i")
      case None
      have "replace_loop text c reps (i + 1) (result @ [text ! i]) cursor =
          Some ((result @ [text ! i]) @ replaced (pieces reps (drop (i + 1) text)), cursor)"
        using less.prems i by (intro less.hyps) auto
      then show ?thesis using None i
        by (subst replace_loop.simps) (simp add: pieces_step [OF assms(1) i] replaced_def)
    next
      case (Some p)
      obtain n r where p: "p = (n, r)" by (rule prod.exhaust)
      have n: "0 < length n" "i + length n \<le> length text"
        using match_at_Some match_in_text Some p assms(1) by blast+
      have "replace_loop text c reps (i + length n) (result @ r) cursor =
          Some ((result @ r) @ replaced (pieces reps (drop (i + length n) text)), cursor)"
        using less.prems n i by (intro less.hyps) arith+
      moreover have "\<not> i + length n \<le> c" "\<not> length text \<le> i" using n less.prems i by linarith+
      ultimately show ?thesis using Some p less.prems
        by (subst replace_loop.simps) (simp add: pieces_step [OF assms(1) i] replaced_def Let_def)
    qed
  qed
qed

lemma loop_before:
  assumes "proper reps" and "i \<le> c" "i \<le> length text"
  shows "replace_loop text c reps i result (int (c - i + length result)) =
     Some (result @ replaced (pieces reps (drop i text)),
       int (length result + length (replaced (before (c - i) (pieces reps (drop i text)))) + (c - length text)))"
  using assms(2, 3)
proof (induction "length text - i" arbitrary: i result rule: less_induct)
  case less
  show ?case
  proof (cases "i = length text")
    case True
    then show ?thesis by (simp add: replace_loop.simps replaced_def)
  next
    case False
    then have i: "i < length text" using less.prems by simp
    show ?thesis
    proof (cases "c = i")
      case True
      then show ?thesis using loop_behind [OF assms(1), of c i "text"] i
        by (cases "pieces reps (drop i text)") (simp_all add: replaced_def)
    next
      case False
      then have c: "i < c" using less.prems by simp
      show ?thesis
      proof (cases "match_at reps text i")
        case None
        have "replace_loop text c reps (i + 1) (result @ [text ! i]) (int (c - (i + 1) + length (result @ [text ! i]))) =
          Some ((result @ [text ! i]) @ replaced (pieces reps (drop (i + 1) text)),
            int (length (result @ [text ! i]) + length (replaced (before (c - (i + 1)) (pieces reps (drop (i + 1) text)))) +
              (c - length text)))"
          using c i by (intro less.hyps) auto
        moreover have e: "c - (i + 1) + length (result @ [text ! i]) = c - i + length result" using c by simp
        ultimately show ?thesis using None i c unfolding e
          by (subst replace_loop.simps) (simp add: pieces_step [OF assms(1) i] replaced_def)
      next
        case (Some p)
        obtain n r where p: "p = (n, r)" by (rule prod.exhaust)
        have n: "0 < length n" "i + length n \<le> length text"
          using match_at_Some match_in_text Some p assms(1) by blast+
        show ?thesis
        proof (cases "i + length n \<le> c")
          case True
          have "replace_loop text c reps (i + length n) (result @ r) (int (c - (i + length n) + length (result @ r))) =
            Some ((result @ r) @ replaced (pieces reps (drop (i + length n) text)),
              int (length (result @ r) + length (replaced (before (c - (i + length n)) (pieces reps (drop (i + length n) text)))) +
                (c - length text)))"
            using True n i by (intro less.hyps) arith+
          moreover have "int (c - i + length result) + (int (length r) - int (length n)) =
              int (c - (i + length n) + length (result @ r))" using True by simp
          moreover have "c - i - length n = c - (i + length n)" by simp
          ultimately show ?thesis using Some p i c True
            by (subst replace_loop.simps) (simp add: pieces_step [OF assms(1) i] replaced_def Let_def algebra_simps)
        next
          case False
          have "replace_loop text c reps (i + length n) (result @ r) (int (length (result @ r))) =
            Some ((result @ r) @ replaced (pieces reps (drop (i + length n) text)), int (length (result @ r)))"
            using False n by (intro loop_behind [OF assms(1)]) auto
          moreover have "before (c - i - length n) ps = []" for ps using False by (cases ps) auto
          ultimately show ?thesis using Some p i c False n
            by (subst replace_loop.simps) (simp add: pieces_step [OF assms(1) i] replaced_def Let_def)
        qed
      qed
    qed
  qed
qed

lemma replace_loop_pieces:
  assumes "proper reps"
  shows "replace_loop text c reps 0 [] (int c) =
     Some (replaced (pieces reps text),
       int (length (replaced (before c (pieces reps text))) + (c - length text)))"
  using loop_before [OF assms, of 0 c "text" "[]"] by simp

lemma before_prefix: "\<exists>rest. ps = before n ps @ rest"
proof (induction ps arbitrary: n)
  case (Cons p ps)
  then show ?case using Cons.IH [of "n - length (fst p)"] by (cases "n = 0") auto
qed simp

lemma before_length: "length (replaced (before n ps)) \<le> length (replaced ps)"
proof -
  obtain rest where "ps = before n ps @ rest" using before_prefix by blast
  then have "replaced ps = replaced (before n ps) @ replaced rest" by (metis concat_append map_append replaced_def)
  then show ?thesis by simp
qed

lemma pieces_source: "concat (map fst (pieces reps s)) = s"
proof (induction reps s rule: pieces.induct)
  case (1 reps s)
  show ?case
  proof (cases s)
    case (Cons c cs)
    show ?thesis
    proof (cases "find (\<lambda>(needle, _). starts_with s needle) (filter (\<lambda>(k, _). 0 < length k) reps)")
      case None
      then show ?thesis using 1(1) Cons by (simp add: pieces.simps [of reps "c # cs"])
    next
      case (Some p)
      obtain n r where p: "p = (n, r)" by (rule prod.exhaust)
      have "take (length n) s = n" using Some p by (auto simp: find_Some_iff starts_with_def)
      moreover have "concat (map fst (pieces reps (drop (length n) s))) = drop (length n) s"
        using 1(2) Cons Some p by blast
      ultimately show ?thesis using Cons Some p
        by (metis (no_types, lifting) append_take_drop_id case_prod_conv concat.simps(2) fst_conv list.case(2)
            list.simps(9) option.case(2) pieces.simps)
    qed
  qed simp
qed

text \<open>A map of single characters that the check accepts leaves nothing to replace.\<close>

lemma includes_single: "js_includes s [c] \<longleftrightarrow> c \<in> set s"
proof -
  have "take 1 (drop i s) = [c] \<longleftrightarrow> i < length s \<and> s ! i = c" for i
    by (cases "i < length s") (auto simp: take_Suc_conv_app_nth Cons_nth_drop_Suc [symmetric])
  then show ?thesis by (auto simp: js_includes_def list_ex_iff in_set_conv_nth)
qed

lemma accepted_single:
  assumes "re_expansion entries = None" and "(k, v) \<in> set entries" "([c], w) \<in> set entries"
  shows "c \<notin> set v"
proof -
  have "(\<lambda>(_, replacement). ([c], replacement)) (k, v) \<in> (\<lambda>(_, replacement). ([c], replacement)) ` set entries"
    using assms(2) by (rule imageI)
  then have "([c], v) \<in> set (concat (map (\<lambda>(needle, _). map (\<lambda>(_, replacement). (needle, replacement)) entries) entries))"
    using assms(3) by (auto intro!: bexI [of _ "([c], w)"])
  then have "\<not> (0 < length [c] \<and> js_includes v [c])"
    using assms(1) unfolding re_expansion_def find_None_iff by blast
  then show ?thesis by (simp add: includes_single)
qed

definition key_chars :: "(string \<times> string) list \<Rightarrow> char set" where
  "key_chars reps = {c. \<exists>w. ([c], w) \<in> set reps}"

lemma pieces_without_keys:
  assumes "list_all (\<lambda>(k, _). length k = 1) reps" and "set s \<inter> key_chars reps = {}"
  shows "replaced (pieces reps s) = s"
  using assms(2)
proof (induction s)
  case (Cons c cs)
  have "proper reps" using assms(1) by (auto simp: list_all_iff)
  moreover have "match_at reps (c # cs) 0 = None"
  proof (rule ccontr)
    assume "match_at reps (c # cs) 0 \<noteq> None"
    then obtain n r where m: "match_at reps (c # cs) 0 = Some (n, r)" by auto
    have "(n, r) \<in> set reps" "take (length n) (c # cs) = n" using match_at_Some [OF m \<open>proper reps\<close>] by simp_all
    moreover from this have "length n = 1" using assms(1) by (auto simp: list_all_iff)
    ultimately have "n = [c]" "c \<in> key_chars reps" by (auto simp: key_chars_def)
    then show False using Cons.prems by auto
  qed
  ultimately show ?case
    using pieces_step [of reps 0 "c # cs"] Cons by (simp add: replaced_def)
qed (simp add: replaced_def)

lemma replaced_without_keys:
  assumes "list_all (\<lambda>(k, _). length k = 1) reps" and "\<And>k v. (k, v) \<in> set reps \<Longrightarrow> set v \<inter> key_chars reps = {}"
  shows "set (replaced (pieces reps s)) \<inter> key_chars reps = {}"
proof (induction s)
  case (Cons c cs)
  have pr: "proper reps" using assms(1) by (auto simp: list_all_iff)
  show ?case
  proof (cases "match_at reps (c # cs) 0")
    case None
    have "c \<notin> key_chars reps"
    proof
      assume "c \<in> key_chars reps"
      then show False using None by (fastforce simp: key_chars_def match_at_def find_None_iff starts_with_def)
    qed
    then show ?thesis using pieces_step [OF pr, of 0 "c # cs"] None Cons by (simp add: replaced_def)
  next
    case (Some p)
    obtain n r where p: "p = (n, r)" by (rule prod.exhaust)
    have "(n, r) \<in> set reps" using match_at_Some(1) Some p pr by blast
    moreover from this have "length n = 1" using assms(1) by (auto simp: list_all_iff)
    ultimately show ?thesis
      using pieces_step [OF pr, of 0 "c # cs"] Some p Cons assms(2) [of n r] by (simp add: replaced_def Int_Un_distrib2)
  qed
qed (simp add: replaced_def)

lemma apply_pieces:
  "applyTextReplacements text cursorPos parsed =
     (let ps = pieces (buildReplacements parsed) text in
      Some (if replaced ps = text then None
            else Some (replaced ps, int (length (replaced (before cursorPos ps)) + (cursorPos - length text)))))"
proof (cases "buildReplacements parsed = []")
  case True
  then have "replaced (pieces [] text) = text" using pieces_without_keys [of "[]" "text"] by (simp add: key_chars_def)
  then show ?thesis using True by (simp add: applyTextReplacements_def)
next
  case False
  then show ?thesis
    by (simp add: applyTextReplacements_def replace_loop_pieces [OF build_proper] Let_def)
qed

section \<open>Properties\<close>


text \<open>
  The cursor stays in the text: a cursor inside the old text is moved to a position inside the
  new one.
\<close>

theorem text_replace_cursor:
  assumes "cursorPos \<le> length text" and "applyTextReplacements text cursorPos parsed = Some (Some (result, cursor))"
  shows "0 \<le> cursor \<and> cursor \<le> int (length result)"
  using assms before_length [of cursorPos "pieces (buildReplacements parsed) text"]
  by (auto simp: apply_pieces Let_def split: if_splits)

theorem text_replace_cursor_witness:
  "applyTextReplacements ''xay'' 2 (Some [(''a'', ''bcd'')]) = Some (Some (''xbcdy'', 4)) \<and> (4 :: int) \<le> int (length ''xbcdy'')"
proof -
  have "applyTextReplacements ''xay'' 2 (Some [(''a'', ''bcd'')]) = Some (Some (''xbcdy'', 4))" by code_simp
  then show ?thesis using text_replace_cursor [of 2 "''xay''" "Some [(''a'', ''bcd'')]" "''xbcdy''" 4] by simp
qed

text \<open>
  An accepted map of single characters, such as the default one, is stable: once a text has been
  replaced, applying the map again changes nothing.
\<close>

theorem accepted_map_stable:
  assumes "setTextReplaceMapJson True (Some (JObject fields)) stored = (Some (JObject fields), None)"
    and "string_entries fields = Some entries" and "list_all (\<lambda>(k, _). length k = 1) entries"
    and "applyTextReplacements text cursorPos (Some entries) = Some (Some (result, cursor))"
  shows "applyTextReplacements result n (Some entries) = Some None"
proof -
  let ?reps = "buildReplacements (Some entries)"
  have none: "re_expansion entries = None"
    using assms(1, 2) by (auto simp: setTextReplaceMapJson_def split: option.splits)
  have set: "set ?reps = set entries"
    using assms(3) by (auto simp: buildReplacements_def list_all_iff)
  then have one: "list_all (\<lambda>(k, _). length k = 1) ?reps" using assms(3) by (simp add: list_all_iff)
  have clean: "set v \<inter> key_chars ?reps = {}" if "(k, v) \<in> set ?reps" for k v
    using accepted_single [OF none] that set by (auto simp: key_chars_def)
  have "result = replaced (pieces ?reps text)"
    using assms(4) by (auto simp: apply_pieces Let_def split: if_splits)
  then have "replaced (pieces ?reps result) = result"
    using pieces_without_keys [OF one] replaced_without_keys [OF one clean] by simp
  then show ?thesis by (simp add: apply_pieces Let_def)
qed

theorem accepted_map_stable_witness:
  "applyTextReplacements ''xbcdy'' 0 (Some [(''a'', ''bcd'')]) = Some None"
proof -
  have "setTextReplaceMapJson True (Some (JObject [(''a'', JString ''bcd'')])) None =
      (Some (JObject [(''a'', JString ''bcd'')]), None)" by code_simp
  moreover have "applyTextReplacements ''xay'' 2 (Some [(''a'', ''bcd'')]) = Some (Some (''xbcdy'', 4))" by code_simp
  ultimately show ?thesis using accepted_map_stable by simp
qed

text \<open>
  The check does not see a key that a replacement completes together with the text around it: this
  table is accepted and changes its own result.
\<close>

lemma accepted_map_expands_again:
  "setTextReplaceMapJson True (Some (JObject [(''ab'', JString ''c''), (''cd'', JString ''e'')])) None =
     (Some (JObject [(''ab'', JString ''c''), (''cd'', JString ''e'')]), None)"
  "applyTextReplacements ''abd'' 3 (Some [(''ab'', ''c''), (''cd'', ''e'')]) = Some (Some (''cd'', 2))"
  "applyTextReplacements ''cd'' 2 (Some [(''ab'', ''c''), (''cd'', ''e'')]) = Some (Some (''e'', 1))"
  by code_simp+

end
