(* ===== verification/UrlHash.thy ===== *)
theory UrlHash
  imports Realtime HexCodec
begin

text \<open>
  Conversations in the address of the page (\<^verbatim>\<open>utils/urlHash.ts\<close>, \<^verbatim>\<open>utils/publicChannel.ts\<close>): reading and
  writing the hash, the settings links, and resolving a token to a channel or a contact. The hash is
  an argument. \<open>Throws\<close> is the \<^verbatim>\<open>URIError\<close> of \<^verbatim>\<open>decodeURIComponent\<close>; strings hold the code points up to
  U+00FF, and an escape of a later one, which they cannot hold, counts as malformed.
\<close>

section \<open>Percent encoding\<close>

datatype 'a result = Throws | Returns 'a

fun bind_result :: "'a result \<Rightarrow> ('a \<Rightarrow> 'b result) \<Rightarrow> 'b result" where
  "bind_result Throws f = Throws"
| "bind_result (Returns x) f = f x"

definition uri_unreserved :: "char \<Rightarrow> bool" where
  "uri_unreserved c =
     (let n = of_char c :: nat in
      48 \<le> n \<and> n \<le> 57 \<or> 65 \<le> n \<and> n \<le> 90 \<or> 97 \<le> n \<and> n \<le> 122 \<or> c \<in> set ''-_.!~*'' \<or> n \<in> {39, 40, 41})"

definition percent_byte :: "nat \<Rightarrow> string" where
  "percent_byte b = [CHR ''%'', upper_char (hex_digit (b div 16)), upper_char (hex_digit (b mod 16))]"

definition encode_char :: "char \<Rightarrow> string" where
  "encode_char c =
     (let n = of_char c :: nat in
      if uri_unreserved c then [c]
      else if n < 128 then percent_byte n
      else percent_byte (192 + n div 64) @ percent_byte (128 + n mod 64))"

definition encodeURIComponent :: "string \<Rightarrow> string" where
  "encodeURIComponent s = concat (map encode_char s)"

definition hex_byte :: "char \<Rightarrow> char \<Rightarrow> nat option" where
  "hex_byte h l =
     (case hex_value h of None \<Rightarrow> None | Some a \<Rightarrow> (case hex_value l of None \<Rightarrow> None | Some b \<Rightarrow> Some (16 * a + b)))"

text \<open>The character an escape at the front stands for, and what follows it.\<close>

definition decode_escape :: "string \<Rightarrow> (char \<times> string) option" where
  "decode_escape s =
     (case s of
        h # l # rest \<Rightarrow>
          (case hex_byte h l of
             None \<Rightarrow> None
           | Some b \<Rightarrow>
               if b < 128 then Some (char_of b, rest)
               else if b \<noteq> 194 \<and> b \<noteq> 195 then None
               else (case rest of
                       p # h2 # l2 # rest2 \<Rightarrow>
                         if p \<noteq> CHR ''%'' then None
                         else (case hex_byte h2 l2 of
                                 None \<Rightarrow> None
                               | Some b2 \<Rightarrow>
                                   if 128 \<le> b2 \<and> b2 < 192 then Some (char_of ((b - 192) * 64 + (b2 - 128)), rest2)
                                   else None)
                     | _ \<Rightarrow> None))
      | _ \<Rightarrow> None)"

lemma decode_escape_shorter: "decode_escape s = Some (c, rest) \<Longrightarrow> length rest < length s"
  by (auto simp: decode_escape_def split: list.splits option.splits if_splits)

function decodeURIComponent :: "string \<Rightarrow> string result" where
  "decodeURIComponent s =
     (case s of
        [] \<Rightarrow> Returns []
      | c # cs \<Rightarrow>
          if c = CHR ''%'' then
            (case decode_escape cs of
               None \<Rightarrow> Throws
             | Some (d, rest) \<Rightarrow> bind_result (decodeURIComponent rest) (\<lambda>t. Returns (d # t)))
          else bind_result (decodeURIComponent cs) (\<lambda>t. Returns (c # t)))"
  by pat_completeness auto
termination
  by (relation "measure length") (auto dest: decode_escape_shorter)

declare decodeURIComponent.simps [simp del]

section \<open>Reading the hash\<close>

record parsed_hash =
  ph_type :: conversation_type
  ph_name :: string
  ph_label :: "string option"
  ph_mapFocusKey :: "string option"
  ph_locateKey :: "string option"

definition plain_hash :: "conversation_type \<Rightarrow> string \<Rightarrow> parsed_hash" where
  "plain_hash t n = \<lparr>ph_type = t, ph_name = n, ph_label = None, ph_mapFocusKey = None, ph_locateKey = None\<rparr>"

definition plain_views :: "(string \<times> conversation_type) list" where
  "plain_views =
     [(''raw'', ConvRaw), (''control'', ConvControl), (''map'', ConvMap), (''live'', ConvLive),
      (''visualizer'', ConvVisualizer), (''search'', ConvSearch), (''trace'', ConvTrace), (''locate'', ConvLocate),
      (''discovered'', ConvDiscovered), (''test'', ConvTest)]"

text \<open>The text up to the first slash, and what follows it.\<close>

definition split_slash :: "string \<Rightarrow> string \<times> string option" where
  "split_slash s =
     (case dropWhile (\<lambda>c. c \<noteq> CHR ''/'') s of
        [] \<Rightarrow> (s, None)
      | _ # rest \<Rightarrow> (takeWhile (\<lambda>c. c \<noteq> CHR ''/'') s, Some rest))"

definition parse_conversation_hash :: "conversation_type \<Rightarrow> string \<Rightarrow> parsed_hash option result" where
  "parse_conversation_hash t value =
     (case split_slash value of (tokenRaw, rest) \<Rightarrow>
        let labelRaw = coalesce rest [] in
        bind_result (decodeURIComponent tokenRaw) (\<lambda>token.
          if token = [] then Returns None
          else if labelRaw = [] then Returns (Some (plain_hash t token))
          else bind_result (decodeURIComponent labelRaw) (\<lambda>label.
            Returns (Some ((plain_hash t token)\<lparr>ph_label := Some label\<rparr>)))))"

definition parseHashConversation :: "string \<Rightarrow> parsed_hash option result" where
  "parseHashConversation locationHash =
     (let hash = drop 1 locationHash in
      if hash = [] then Returns None
      else
        case map_of plain_views hash of
          Some t \<Rightarrow> Returns (Some (plain_hash t hash))
        | None \<Rightarrow>
            if starts_with hash ''locate/'' then
              (let locateKey = drop (length ''locate/'') hash in
               if locateKey \<noteq> [] then
                 bind_result (decodeURIComponent locateKey) (\<lambda>k.
                   Returns (Some ((plain_hash ConvLocate ''locate'')\<lparr>ph_locateKey := Some k\<rparr>)))
               else Returns (Some (plain_hash ConvLocate ''locate'')))
            else if starts_with hash ''map/focus/'' then
              (let focusKey = drop (length ''map/focus/'') hash in
               if focusKey \<noteq> [] then
                 bind_result (decodeURIComponent focusKey) (\<lambda>k.
                   Returns (Some ((plain_hash ConvMap ''map'')\<lparr>ph_mapFocusKey := Some k\<rparr>)))
               else Returns (Some (plain_hash ConvMap ''map'')))
            else
              (case split_slash hash of
                 (_, None) \<Rightarrow> Returns None
               | (type, Some value) \<Rightarrow>
                   if value = [] then Returns None
                   else if type = ''channel'' then parse_conversation_hash ConvChannel value
                   else if type = ''contact'' then parse_conversation_hash ConvContact value
                   else Returns None))"

section \<open>Settings links\<close>

definition SETTINGS_SECTION_ORDER :: "string list" where
  "SETTINGS_SECTION_ORDER =
     [''radio'', ''proxy'', ''local'', ''notifications'', ''updates'', ''community'', ''fanout'', ''radio-app'', ''alerts'',
      ''database'', ''navigation'', ''statistics'', ''about'']"

definition SETTINGS_ANCHORS :: "(string \<times> string list) list" where
  "SETTINGS_ANCHORS = [(''database'', [''backup''])]"

definition parseHashSettingsTarget :: "string \<Rightarrow> (string \<times> string option) option result" where
  "parseHashSettingsTarget locationHash =
     (let hash = drop 1 locationHash in
      if \<not> starts_with hash ''settings/'' then Returns None
      else
        case split_slash (drop (length ''settings/'') hash) of (rawSection, rest) \<Rightarrow>
          let rawAnchor = (case rest of Some r \<Rightarrow> or_null (Some (fst (split_slash r))) | None \<Rightarrow> None) in
          bind_result (decodeURIComponent rawSection) (\<lambda>section.
            if section \<notin> set SETTINGS_SECTION_ORDER then Returns None
            else
              bind_result (case rawAnchor of
                  None \<Rightarrow> Returns None
                | Some a \<Rightarrow> bind_result (decodeURIComponent a) (\<lambda>d. Returns (Some d))) (\<lambda>anchor.
                Returns (Some (section,
                  case or_null anchor of
                    Some a \<Rightarrow> if a \<in> set (coalesce (map_of SETTINGS_ANCHORS section) []) then Some a else None
                  | None \<Rightarrow> None)))))"

definition parseHashSettingsSection :: "string \<Rightarrow> string option result" where
  "parseHashSettingsSection locationHash =
     bind_result (parseHashSettingsTarget locationHash) (\<lambda>t. Returns (map_option fst t))"

definition parseHashSettingsAnchor :: "string \<Rightarrow> string option result" where
  "parseHashSettingsAnchor locationHash =
     bind_result (parseHashSettingsTarget locationHash) (\<lambda>t.
       Returns (case t of Some (_, anchor) \<Rightarrow> anchor | None \<Rightarrow> None))"

text \<open>The module variable \<^verbatim>\<open>pendingSettingsAnchor\<close> is an argument and a result.\<close>

definition rememberSettingsAnchor :: "string \<Rightarrow> (string \<times> string) option \<Rightarrow> (string \<times> string) option result" where
  "rememberSettingsAnchor locationHash pending =
     bind_result (parseHashSettingsTarget locationHash) (\<lambda>target.
       Returns (case target of
                  Some (section, Some anchor) \<Rightarrow> if anchor = [] then pending else Some (section, anchor)
                | _ \<Rightarrow> pending))"

definition takeSettingsAnchor :: "string \<Rightarrow> (string \<times> string) option \<Rightarrow> (string \<times> string) option \<times> string option" where
  "takeSettingsAnchor section pending =
     (case pending of
        Some (s, anchor) \<Rightarrow> if s \<noteq> section then (pending, None) else (None, Some anchor)
      | None \<Rightarrow> (pending, None))"

definition getSettingsHash :: "string \<Rightarrow> string" where
  "getSettingsHash section = ''#settings/'' @ encodeURIComponent section"

section \<open>Resolving a token\<close>

definition PUBLIC_CHANNEL_KEY :: string where
  "PUBLIC_CHANNEL_KEY = ''8B3387E9C5CDEA6AC9E5EDBAA115CD72''"

definition PUBLIC_CHANNEL_NAME :: string where
  "PUBLIC_CHANNEL_NAME = ''Public''"

definition isPublicChannelKey :: "string \<Rightarrow> bool" where
  "isPublicChannelKey key \<longleftrightarrow> to_upper key = PUBLIC_CHANNEL_KEY"

definition findPublicChannel :: "channel list \<Rightarrow> channel option" where
  "findPublicChannel channels = find (\<lambda>c. isPublicChannelKey (ch_key c)) channels"

definition resolveChannelFromHashToken :: "string \<Rightarrow> channel list \<Rightarrow> channel option" where
  "resolveChannelFromHashToken token channels =
     (let normalizedToken = js_trim token in
      if normalizedToken = [] then None
      else
        case find (\<lambda>c. to_lower (ch_key c) = to_lower normalizedToken) channels of
          Some c \<Rightarrow> Some c
        | None \<Rightarrow>
            (let legacy = find (\<lambda>c. ch_name c = normalizedToken \<or> ch_name c = CHR ''#'' # normalizedToken) channels in
             if to_lower normalizedToken = to_lower PUBLIC_CHANNEL_NAME then
               (case findPublicChannel channels of Some c \<Rightarrow> Some c | None \<Rightarrow> legacy)
             else legacy))"

definition resolveContactFromHashToken :: "string \<Rightarrow> contact list \<Rightarrow> contact option" where
  "resolveContactFromHashToken token contacts =
     (let normalizedToken = js_trim token; lowerToken = to_lower normalizedToken in
      if normalizedToken = [] then None
      else
        case find (\<lambda>c. to_lower (ct_public_key c) = lowerToken) contacts of
          Some c \<Rightarrow> Some c
        | None \<Rightarrow>
            find (\<lambda>c. getContactDisplayName (ct_name c) (ct_public_key c) (ct_last_advert c) = normalizedToken \<or>
                      starts_with (to_lower (ct_public_key c)) lowerToken) contacts)"

section \<open>Writing the hash\<close>

definition getMapFocusHash :: "string \<Rightarrow> string" where
  "getMapFocusHash publicKeyPrefix = ''#map/focus/'' @ encodeURIComponent publicKeyPrefix"

definition getLocateHash :: "string option \<Rightarrow> string" where
  "getLocateHash query =
     (let trimmed = (case query of Some q \<Rightarrow> js_trim q | None \<Rightarrow> []) in
      if trimmed \<noteq> [] then ''#locate/'' @ encodeURIComponent trimmed else ''#locate'')"

definition getConversationHash :: "conversation option \<Rightarrow> string" where
  "getConversationHash conv =
     (case conv of
        None \<Rightarrow> []
      | Some c \<Rightarrow>
          (case conv_type c of
             ConvRaw \<Rightarrow> ''#raw''
           | ConvControl \<Rightarrow> ''#control''
           | ConvMap \<Rightarrow> (case or_null (conv_mapFocusKey c) of Some k \<Rightarrow> getMapFocusHash k | None \<Rightarrow> ''#map'')
           | ConvLive \<Rightarrow> ''#live''
           | ConvVisualizer \<Rightarrow> ''#visualizer''
           | ConvSearch \<Rightarrow> ''#search''
           | ConvTrace \<Rightarrow> ''#trace''
           | ConvLocate \<Rightarrow> getLocateHash (conv_locateKey c)
           | ConvDiscovered \<Rightarrow> ''#discovered''
           | ConvTest \<Rightarrow> ''#test''
           | ConvChannel \<Rightarrow>
               let label = (if starts_with (conv_name c) ''#'' then drop 1 (conv_name c) else conv_name c) in
               ''#channel/'' @ encodeURIComponent (conv_id c) @ ''/'' @ encodeURIComponent label
           | ConvContact \<Rightarrow>
               ''#contact/'' @ encodeURIComponent (conv_id c) @ ''/'' @ encodeURIComponent (conv_name c)))"

text \<open>
  The session history of the page: the entries before the current one and the current hash.
  \<^verbatim>\<open>newHash || pathname\<close> leaves the page without a hash when there is none.
\<close>

record page_history =
  hi_back :: "string list"
  hi_hash :: string

definition replace_hash :: "string \<Rightarrow> page_history \<Rightarrow> page_history" where
  "replace_hash newHash h = (if newHash \<noteq> hi_hash h then h\<lparr>hi_hash := newHash\<rparr> else h)"

definition push_hash :: "string \<Rightarrow> page_history \<Rightarrow> page_history" where
  "push_hash newHash h =
     (if newHash \<noteq> hi_hash h then h\<lparr>hi_back := hi_hash h # hi_back h, hi_hash := newHash\<rparr> else h)"

definition updateUrlHash :: "conversation option \<Rightarrow> page_history \<Rightarrow> page_history" where
  "updateUrlHash conv h = replace_hash (getConversationHash conv) h"

definition pushUrlHash :: "conversation option \<Rightarrow> page_history \<Rightarrow> page_history" where
  "pushUrlHash conv h = push_hash (getConversationHash conv) h"

definition updateSettingsHash :: "string \<Rightarrow> page_history \<Rightarrow> page_history" where
  "updateSettingsHash section h = replace_hash (getSettingsHash section) h"

definition pushSettingsHash :: "string \<Rightarrow> page_history \<Rightarrow> page_history" where
  "pushSettingsHash section h = push_hash (getSettingsHash section) h"

section \<open>Encoding and decoding\<close>

lemma hex_nibble:
  assumes "a < 16"
  shows "hex_value (upper_char (hex_digit a)) = Some a" and "upper_char (hex_digit a) \<noteq> CHR ''/''"
proof -
  show v: "hex_value (upper_char (hex_digit a)) = Some a" using assms by (rule hex_digit_facts(2))
  have "hex_value CHR ''/'' = None" by code_simp
  then show "upper_char (hex_digit a) \<noteq> CHR ''/''" using v by auto
qed

lemma hex_byte_percent:
  assumes "b < 256"
  shows "hex_byte (upper_char (hex_digit (b div 16))) (upper_char (hex_digit (b mod 16))) = Some b"
proof -
  have "b div 16 < 16" "b mod 16 < 16" using assms by auto
  then show ?thesis by (simp add: hex_byte_def hex_nibble)
qed

lemma decode_percent_char:
  assumes "\<not> uri_unreserved c"
  shows "\<exists>e. encode_char c = CHR ''%'' # e \<and> decode_escape (e @ t) = Some (c, t)"
proof -
  define n where "n = (of_char c :: nat)"
  have n: "n < 256" "char_of n = c" by (simp_all add: n_def)
  show ?thesis
  proof (cases "n < 128")
    case True
    then show ?thesis using assms n hex_byte_percent [of n]
      by (auto simp: encode_char_def n_def [symmetric] percent_byte_def decode_escape_def Let_def)
  next
    case False
    define hi lo where "hi = 192 + n div 64" and "lo = 128 + n mod 64"
    have hi: "hi = 194 \<or> hi = 195" using False n(1) by (auto simp: hi_def)
    have lo: "128 \<le> lo" "lo < 192" by (simp_all add: lo_def)
    have "(hi - 192) * 64 + (lo - 128) = n" by (simp add: hi_def lo_def)
    then show ?thesis using assms False hi lo n hex_byte_percent [of hi] hex_byte_percent [of lo]
      by (auto simp: encode_char_def n_def [symmetric] hi_def [symmetric] lo_def [symmetric] percent_byte_def
          decode_escape_def Let_def)
  qed
qed

lemma unreserved_not_percent: "uri_unreserved c \<Longrightarrow> c \<noteq> CHR ''%'' \<and> c \<noteq> CHR ''/''"
  by (auto simp: uri_unreserved_def Let_def)

lemma decode_encode_char:
  "decodeURIComponent (encode_char c @ t) = bind_result (decodeURIComponent t) (\<lambda>r. Returns (c # r))"
proof (cases "uri_unreserved c")
  case True
  then show ?thesis using unreserved_not_percent [of c]
    by (subst decodeURIComponent.simps) (simp add: encode_char_def)
next
  case False
  from decode_percent_char [OF this, of t] obtain e where "encode_char c = CHR ''%'' # e" "decode_escape (e @ t) = Some (c, t)"
    by blast
  then show ?thesis by (subst decodeURIComponent.simps) simp
qed

lemma decode_encode: "decodeURIComponent (encodeURIComponent s) = Returns s"
proof (induction s)
  case Nil
  then show ?case by (simp add: encodeURIComponent_def decodeURIComponent.simps)
next
  case (Cons c s)
  then show ?case using decode_encode_char [of c "encodeURIComponent s"] by (simp add: encodeURIComponent_def)
qed

lemma of_char_less: "(of_char c :: nat) < 256"
  by simp

lemma encode_char_no_slash: "CHR ''/'' \<notin> set (encode_char c)"
proof -
  have "CHR ''/'' \<notin> set (percent_byte n)" if "n < 256" for n
  proof -
    have "n div 16 < 16" "n mod 16 < 16" using that by auto
    then show ?thesis using hex_nibble(2) [of "n div 16"] hex_nibble(2) [of "n mod 16"] by (auto simp: percent_byte_def)
  qed
  moreover have "(192 + n div 64 :: nat) < 256" "(128 + n mod 64 :: nat) < 256" if "n < 256" for n :: nat
  proof -
    have "n div 64 < 4" using that by (simp add: less_mult_imp_div_less)
    moreover have "n mod 64 < 64" by simp
    ultimately show "192 + n div 64 < 256" "128 + n mod 64 < 256" by linarith+
  qed
  note this [OF of_char_less, of c]
  ultimately show ?thesis
    using unreserved_not_percent [of c] by (auto simp: encode_char_def Let_def)
qed

lemma encode_no_slash: "CHR ''/'' \<notin> set (encodeURIComponent s)"
  using encode_char_no_slash by (auto simp: encodeURIComponent_def)

lemma encode_char_not_Nil: "encode_char c \<noteq> []"
  by (simp add: encode_char_def percent_byte_def Let_def)

lemma encode_Nil_iff: "encodeURIComponent s = [] \<longleftrightarrow> s = []"
  using encode_char_not_Nil by (cases s) (auto simp: encodeURIComponent_def)

lemma split_slash_append: "CHR ''/'' \<notin> set a \<Longrightarrow> split_slash (a @ CHR ''/'' # b) = (a, Some b)"
  by (simp add: split_slash_def dropWhile_append2 takeWhile_append2 ball_simps) (auto simp: dropWhile_append takeWhile_append)

section \<open>Reading back what was written\<close>

definition conversation_label :: "conversation \<Rightarrow> string" where
  "conversation_label c =
     (if conv_type c = ConvChannel \<and> starts_with (conv_name c) ''#'' then drop 1 (conv_name c) else conv_name c)"

definition written_hash :: "conversation \<Rightarrow> parsed_hash" where
  "written_hash c =
     (case conv_type c of
        ConvChannel \<Rightarrow> (plain_hash ConvChannel (conv_id c))\<lparr>ph_label := or_null (Some (conversation_label c))\<rparr>
      | ConvContact \<Rightarrow> (plain_hash ConvContact (conv_id c))\<lparr>ph_label := or_null (Some (conversation_label c))\<rparr>
      | ConvMap \<Rightarrow> (plain_hash ConvMap ''map'')\<lparr>ph_mapFocusKey := or_null (conv_mapFocusKey c)\<rparr>
      | ConvLocate \<Rightarrow>
          (plain_hash ConvLocate ''locate'')\<lparr>ph_locateKey := or_null (map_option js_trim (conv_locateKey c))\<rparr>
      | t \<Rightarrow> plain_hash t (drop 1 (getConversationHash (Some c))))"

lemma parse_written_value:
  assumes "i \<noteq> []"
  shows "parse_conversation_hash t (encodeURIComponent i @ CHR ''/'' # encodeURIComponent l) =
     Returns (Some ((plain_hash t i)\<lparr>ph_label := or_null (Some l)\<rparr>))"
  using assms
  by (simp add: parse_conversation_hash_def split_slash_append encode_no_slash decode_encode encode_Nil_iff coalesce_def
      or_null_def plain_hash_def)

lemma parse_channel_hash:
  "v \<noteq> [] \<Longrightarrow> parseHashConversation (''#channel/'' @ v) = parse_conversation_hash ConvChannel v"
  by (simp add: parseHashConversation_def plain_views_def starts_with_def split_slash_def)

lemma parse_contact_hash:
  "v \<noteq> [] \<Longrightarrow> parseHashConversation (''#contact/'' @ v) = parse_conversation_hash ConvContact v"
  by (simp add: parseHashConversation_def plain_views_def starts_with_def split_slash_def)

lemma parse_map_hash:
  "k \<noteq> [] \<Longrightarrow> parseHashConversation (getMapFocusHash k) =
     Returns (Some ((plain_hash ConvMap ''map'')\<lparr>ph_mapFocusKey := Some k\<rparr>))"
  by (simp add: parseHashConversation_def getMapFocusHash_def plain_views_def starts_with_def encode_Nil_iff decode_encode)

lemma parse_locate_hash:
  "parseHashConversation (getLocateHash q) =
     Returns (Some ((plain_hash ConvLocate ''locate'')\<lparr>ph_locateKey := or_null (map_option js_trim q)\<rparr>))"
  by (cases q) (simp_all add: parseHashConversation_def getLocateHash_def plain_views_def starts_with_def encode_Nil_iff
      decode_encode or_null_def plain_hash_def Let_def)

lemma parse_written_hash:
  assumes "conv_id c \<noteq> []"
  shows "parseHashConversation (getConversationHash (Some c)) = Returns (Some (written_hash c))"
proof (cases "conv_type c")
  case ConvChannel
  then show ?thesis
    using assms parse_channel_hash parse_written_value [OF assms]
    by (simp add: getConversationHash_def written_hash_def conversation_label_def Let_def)
next
  case ConvContact
  then show ?thesis
    using assms parse_contact_hash parse_written_value [OF assms]
    by (simp add: getConversationHash_def written_hash_def conversation_label_def)
next
  case ConvMap
  then show ?thesis
    using parse_map_hash [of "the (conv_mapFocusKey c)"]
    by (auto simp: getConversationHash_def written_hash_def or_null_def plain_hash_def parseHashConversation_def
        plain_views_def split: option.split)
next
  case ConvLocate
  then show ?thesis by (simp add: getConversationHash_def written_hash_def parse_locate_hash)
qed (simp_all add: getConversationHash_def written_hash_def parseHashConversation_def plain_views_def)

text \<open>
  The address names the conversation. Reading the hash that was written for a conversation gives
  its type, its id as the token and its name without the leading # as the label, whatever
  characters they hold; for the map and the locate view their key, trimmed for the locate view.
\<close>

theorem hash_roundtrip:
  assumes "conv_id c \<noteq> []"
  shows "parseHashConversation (getConversationHash (Some c)) = Returns (Some (written_hash c))"
  using assms by (rule parse_written_hash)

theorem hash_roundtrip_witness:
  "parseHashConversation (getConversationHash (Some
     \<lparr>conv_type = ConvChannel, conv_id = ''AB'', conv_name = ''#a/b%'', conv_mapFocusKey = None, conv_locateKey = None\<rparr>)) =
   Returns (Some ((plain_hash ConvChannel ''AB'')\<lparr>ph_label := Some ''a/b%''\<rparr>))"
  using hash_roundtrip [of "\<lparr>conv_type = ConvChannel, conv_id = ''AB'', conv_name = ''#a/b%'', conv_mapFocusKey = None,
      conv_locateKey = None\<rparr>"]
  by (simp add: written_hash_def conversation_label_def starts_with_def or_null_def)

text \<open>
  A hash with a percent sign that is no escape makes the reader throw; none of its callers, which run
  in React effects and in the handler of the back button, catches it.
\<close>

lemma malformed_hash_throws: "parseHashConversation ''#channel/50%'' = Throws"
  by code_simp

end
