(* ===== verification/Router.thy ===== *)
theory Router
  imports UrlHash Json
begin

text \<open>
  Which conversation is open (\<^verbatim>\<open>hooks/useConversationRouter.ts\<close>, \<^verbatim>\<open>utils/lastViewedConversation.ts\<close>): the
  initial route from the hash, the stored conversation or Public, the back button, the recovery after
  a deletion, and keeping the address up to date.

  React runs the effects whose dependencies changed after a render, in the order of the file, and
  renders again when an effect has set the state; \<open>commit\<close> is one such round and \<open>settle\<close> repeats it.
  An effect reads the state of its render (\<open>ro_active\<close>) and queues the next one (\<open>ro_queued\<close>). \<open>tr\<close> is the
  translation function of \<^verbatim>\<open>i18n\<close>.
\<close>

section \<open>The last viewed conversation\<close>

definition type_name :: "conversation_type \<Rightarrow> string" where
  "type_name t =
     (case t of
        ConvContact \<Rightarrow> ''contact'' | ConvChannel \<Rightarrow> ''channel'' | ConvRaw \<Rightarrow> ''raw'' | ConvControl \<Rightarrow> ''control''
      | ConvMap \<Rightarrow> ''map'' | ConvLive \<Rightarrow> ''live'' | ConvVisualizer \<Rightarrow> ''visualizer'' | ConvSearch \<Rightarrow> ''search''
      | ConvTrace \<Rightarrow> ''trace'' | ConvLocate \<Rightarrow> ''locate'' | ConvDiscovered \<Rightarrow> ''discovered'' | ConvTest \<Rightarrow> ''test'')"

definition SUPPORTED_TYPES :: "conversation_type list" where
  "SUPPORTED_TYPES =
     [ConvContact, ConvChannel, ConvRaw, ConvControl, ConvMap, ConvLive, ConvVisualizer, ConvTrace, ConvLocate,
      ConvDiscovered]"

definition supported_type :: "json option \<Rightarrow> conversation_type option" where
  "supported_type v =
     (case v of
        Some (JString n) \<Rightarrow> find (\<lambda>t. type_name t = n) SUPPORTED_TYPES
      | _ \<Rightarrow> None)"

definition optional_string :: "string \<Rightarrow> string option \<Rightarrow> (string \<times> json) list" where
  "optional_string name v = (case v of None \<Rightarrow> [] | Some s \<Rightarrow> [(name, JString s)])"

text \<open>\<^verbatim>\<open>JSON.stringify(conversation)\<close>, as the value that parsing it again gives.\<close>

definition conversation_json :: "conversation \<Rightarrow> json" where
  "conversation_json c =
     JObject ([(''type'', JString (type_name (conv_type c))), (''id'', JString (conv_id c)), (''name'', JString (conv_name c))] @
       optional_string ''mapFocusKey'' (conv_mapFocusKey c) @ optional_string ''locateKey'' (conv_locateKey c))"

definition saveLastViewedConversation :: "conversation \<Rightarrow> json option \<Rightarrow> json option" where
  "saveLastViewedConversation c stored = Some (conversation_json c)"

definition string_of :: "json option \<Rightarrow> string option" where
  "string_of v = (case v of Some (JString s) \<Rightarrow> Some s | _ \<Rightarrow> None)"

definition getLastViewedConversation :: "json option \<Rightarrow> conversation option" where
  "getLastViewedConversation stored =
     (if \<not> readable stored then None
      else
        case (supported_type (field ''type'' stored), string_of (field ''id'' stored), string_of (field ''name'' stored)) of
          (Some t, Some i, Some n) \<Rightarrow>
            Some \<lparr>conv_type = t, conv_id = i, conv_name = n,
                  conv_mapFocusKey = (if t = ConvMap then string_of (field ''mapFocusKey'' stored) else None),
                  conv_locateKey = (if t = ConvLocate then string_of (field ''locateKey'' stored) else None)\<rparr>
        | _ \<Rightarrow> None)"

section \<open>Views and hashes\<close>

definition simple_conversation :: "conversation_type \<Rightarrow> string \<Rightarrow> string \<Rightarrow> conversation" where
  "simple_conversation t i n =
     \<lparr>conv_type = t, conv_id = i, conv_name = n, conv_mapFocusKey = None, conv_locateKey = None\<rparr>"

definition channel_conversation :: "channel \<Rightarrow> conversation" where
  "channel_conversation c = simple_conversation ConvChannel (ch_key c) (ch_name c)"

definition contact_conversation :: "contact \<Rightarrow> conversation" where
  "contact_conversation c =
     simple_conversation ConvContact (ct_public_key c)
       (getContactDisplayName (ct_name c) (ct_public_key c) (ct_last_advert c))"

definition resolvePublicFromChannels :: "channel list \<Rightarrow> conversation option" where
  "resolvePublicFromChannels channels = map_option channel_conversation (findPublicChannel channels)"

definition testConversation :: "(string \<Rightarrow> string) \<Rightarrow> conversation" where
  "testConversation tr = simple_conversation ConvTest ''test'' (tr ''meshTest.title'')"

text \<open>The views that need no data.\<close>

definition view_conversation :: "(string \<Rightarrow> string) \<Rightarrow> parsed_hash \<Rightarrow> conversation option" where
  "view_conversation tr h =
     (case ph_type h of
        ConvRaw \<Rightarrow> Some (simple_conversation ConvRaw ''raw'' ''Raw Packet Feed'')
      | ConvControl \<Rightarrow> Some (simple_conversation ConvControl ''control'' (tr ''sidebar.controlJournal''))
      | ConvMap \<Rightarrow> Some ((simple_conversation ConvMap ''map'' ''Node Map'')\<lparr>conv_mapFocusKey := ph_mapFocusKey h\<rparr>)
      | ConvLive \<Rightarrow> Some (simple_conversation ConvLive ''live'' ''Live'')
      | ConvVisualizer \<Rightarrow> Some (simple_conversation ConvVisualizer ''visualizer'' ''Mesh Visualizer'')
      | ConvSearch \<Rightarrow> Some (simple_conversation ConvSearch ''search'' ''Message Search'')
      | ConvTrace \<Rightarrow> Some (simple_conversation ConvTrace ''trace'' ''Trace'')
      | ConvLocate \<Rightarrow> Some ((simple_conversation ConvLocate ''locate'' ''RF Locate'')\<lparr>conv_locateKey := ph_locateKey h\<rparr>)
      | ConvDiscovered \<Rightarrow> Some (simple_conversation ConvDiscovered ''discovered'' (tr ''discovered.title''))
      | _ \<Rightarrow> None)"

definition resolveConversationFromHash ::
    "(string \<Rightarrow> string) \<Rightarrow> string \<Rightarrow> channel list \<Rightarrow> contact list \<Rightarrow> bool \<Rightarrow> conversation option result" where
  "resolveConversationFromHash tr locationHash channels contacts directoryEnabled =
     bind_result (parseHashConversation locationHash) (\<lambda>hashConv.
       Returns (case hashConv of
          None \<Rightarrow> None
        | Some h \<Rightarrow>
            (case ph_type h of
               ConvTest \<Rightarrow> if directoryEnabled then Some (testConversation tr) else None
             | ConvChannel \<Rightarrow> map_option channel_conversation (resolveChannelFromHashToken (ph_name h) channels)
             | ConvContact \<Rightarrow> map_option contact_conversation (resolveContactFromHashToken (ph_name h) contacts)
             | _ \<Rightarrow> view_conversation tr h)))"

definition captureLastViewedConversationFromHash ::
    "(string \<Rightarrow> string) \<Rightarrow> string \<Rightarrow> json option \<Rightarrow> json option result" where
  "captureLastViewedConversationFromHash tr locationHash stored =
     bind_result (parseHashConversation locationHash) (\<lambda>hashConv.
       Returns (case hashConv of
          None \<Rightarrow> stored
        | Some h \<Rightarrow>
            saveLastViewedConversation
              (case ph_type h of
                 ConvDiscovered \<Rightarrow> simple_conversation ConvDiscovered ''discovered'' ''Discovered channels''
               | ConvMap \<Rightarrow>
                   (simple_conversation ConvMap ''map'' ''Node Map'')\<lparr>conv_mapFocusKey := or_null (ph_mapFocusKey h)\<rparr>
               | ConvLocate \<Rightarrow>
                   (simple_conversation ConvLocate ''locate'' ''RF Locate'')\<lparr>conv_locateKey := or_null (ph_locateKey h)\<rparr>
               | _ \<Rightarrow>
                   (case if ph_type h = ConvSearch then None else view_conversation tr h of
                      Some c \<Rightarrow> c
                    | None \<Rightarrow>
                        simple_conversation (ph_type h) (ph_name h) (coalesce (or_null (ph_label h)) (ph_name h)))) stored))"

section \<open>The router\<close>

datatype router_toast = ChannelNotFound string bool | ContactNotFound string bool

record router =
  ro_active :: "conversation option"
  ro_queued :: "conversation option option"
  ro_activeRef :: "conversation option"
  ro_hashSyncEnabled :: bool
  ro_shouldPushHistory :: bool
  ro_isHandlingPopstate :: bool
  ro_hasSetDefault :: bool
  ro_pendingDeleteFallback :: bool
  ro_channels :: "channel list"
  ro_contacts :: "contact list"
  ro_contactsLoaded :: bool
  ro_settingsLoaded :: bool
  ro_directoryEnabled :: bool
  ro_suspendHashSync :: bool
  ro_narrow :: bool
  ro_reopenLast :: bool
  ro_stored :: "json option"
  ro_history :: page_history
  ro_toasts :: "router_toast list"
  ro_sidebarOpen :: bool

definition router_init :: "page_history \<Rightarrow> json option \<Rightarrow> bool \<Rightarrow> bool \<Rightarrow> router result" where
  "router_init h stored reopen narrow =
     bind_result (parseHashSettingsSection (hi_hash h)) (\<lambda>section.
       Returns \<lparr>ro_active = None, ro_queued = None, ro_activeRef = None,
         ro_hashSyncEnabled = (0 < length (hi_hash h) \<and> section = None), ro_shouldPushHistory = False,
         ro_isHandlingPopstate = False, ro_hasSetDefault = False, ro_pendingDeleteFallback = False, ro_channels = [],
         ro_contacts = [], ro_contactsLoaded = False, ro_settingsLoaded = False, ro_directoryEnabled = False,
         ro_suspendHashSync = False, ro_narrow = narrow, ro_reopenLast = reopen, ro_stored = stored, ro_history = h,
         ro_toasts = [], ro_sidebarOpen = False\<rparr>)"

definition queue :: "conversation option \<Rightarrow> router \<Rightarrow> router" where
  "queue c s = s\<lparr>ro_queued := Some c\<rparr>"

definition open_default :: "conversation \<Rightarrow> router \<Rightarrow> router" where
  "open_default c s = queue (Some c) (s\<lparr>ro_hasSetDefault := True\<rparr>)"

definition hash_conversation :: "string \<Rightarrow> parsed_hash option result" where
  "hash_conversation locationHash =
     bind_result (parseHashSettingsSection locationHash) (\<lambda>section.
       if or_null section \<noteq> None then Returns None else parseHashConversation locationHash)"

definition short_token :: "string \<Rightarrow> string \<times> bool" where
  "short_token n = (if 16 < length n then (take 16 n, True) else (n, False))"

definition last_view :: "router \<Rightarrow> conversation option" where
  "last_view s = (if ro_reopenLast s then getLastViewedConversation (ro_stored s) else None)"

definition data_free_type :: "conversation_type \<Rightarrow> bool" where
  "data_free_type t \<longleftrightarrow>
     t \<in> {ConvRaw, ConvControl, ConvMap, ConvLive, ConvVisualizer, ConvTrace, ConvLocate, ConvDiscovered}"

text \<open>The last step of phase 1: Public, with a notice when the hash named a channel.\<close>

definition default_public :: "parsed_hash option \<Rightarrow> router \<Rightarrow> router" where
  "default_public hashConv s =
     (case resolvePublicFromChannels (ro_channels s) of
        None \<Rightarrow> s
      | Some p \<Rightarrow>
          open_default p
            (case hashConv of
               Some h \<Rightarrow>
                 if ph_type h = ConvChannel
                 then s\<lparr>ro_toasts := ro_toasts s @ [(case short_token (ph_name h) of (t, shortened) \<Rightarrow> ChannelNotFound t shortened)]\<rparr>
                 else s
             | None \<Rightarrow> s))"

definition phase1_channels :: "parsed_hash option \<Rightarrow> router \<Rightarrow> router" where
  "phase1_channels hashConv s =
     (if ro_channels s = [] then s
      else
        case hashConv of
          Some h \<Rightarrow>
            if ph_type h = ConvChannel then
              (case resolveChannelFromHashToken (ph_name h) (ro_channels s) of
                 Some c \<Rightarrow> open_default (channel_conversation c) s
               | None \<Rightarrow> default_public hashConv s)
            else if ph_type h = ConvContact then s
            else default_public hashConv s
        | None \<Rightarrow>
            (case last_view s of
               Some l \<Rightarrow>
                 if conv_type l = ConvChannel then
                   (case (case find (\<lambda>c. to_lower (ch_key c) = to_lower (conv_id l)) (ro_channels s) of
                            Some c \<Rightarrow> Some c
                          | None \<Rightarrow> resolveChannelFromHashToken (conv_id l) (ro_channels s)) of
                      Some c \<Rightarrow> open_default (channel_conversation c) s
                    | None \<Rightarrow> if ro_narrow s then s else default_public hashConv s)
                 else if conv_type l = ConvContact then s
                 else if ro_narrow s then s else default_public hashConv s
             | None \<Rightarrow> if ro_narrow s then s else default_public hashConv s))"

definition phase1_route :: "(string \<Rightarrow> string) \<Rightarrow> parsed_hash option \<Rightarrow> router \<Rightarrow> router" where
  "phase1_route tr hashConv s =
     (case hashConv of
        Some h \<Rightarrow>
          (case view_conversation tr h of
             Some v \<Rightarrow> open_default v s
           | None \<Rightarrow>
               if ph_type h = ConvTest then
                 if \<not> ro_settingsLoaded s then s
                 else if ro_directoryEnabled s then open_default (testConversation tr) s
                 else phase1_channels hashConv s
               else phase1_channels hashConv s)
      | None \<Rightarrow>
          (case last_view s of
             Some l \<Rightarrow> if data_free_type (conv_type l) then open_default l s else phase1_channels hashConv s
           | None \<Rightarrow> phase1_channels hashConv s))"

definition phase1 :: "(string \<Rightarrow> string) \<Rightarrow> router \<Rightarrow> router result" where
  "phase1 tr s =
     (if ro_hasSetDefault s \<or> ro_active s \<noteq> None then Returns s
      else bind_result (hash_conversation (hi_hash (ro_history s))) (\<lambda>hashConv. Returns (phase1_route tr hashConv s)))"

definition community_off :: "router \<Rightarrow> router result" where
  "community_off s =
     Returns
       (if \<not> ro_settingsLoaded s \<or> ro_directoryEnabled s then s
        else if map_option conv_type (ro_active s) \<noteq> Some ConvTest then s
        else
          case resolvePublicFromChannels (ro_channels s) of
            None \<Rightarrow> s
          | Some p \<Rightarrow> queue (Some p) (s\<lparr>ro_hashSyncEnabled := True\<rparr>))"

definition public_fallback :: "router \<Rightarrow> router" where
  "public_fallback s =
     (case resolvePublicFromChannels (ro_channels s) of None \<Rightarrow> s | Some p \<Rightarrow> open_default p s)"

definition phase2_route :: "parsed_hash option \<Rightarrow> router \<Rightarrow> router" where
  "phase2_route hashConv s =
     (case hashConv of
        Some h \<Rightarrow>
          if ph_type h = ConvContact then
            if \<not> ro_contactsLoaded s then s
            else
              (case resolveContactFromHashToken (ph_name h) (ro_contacts s) of
                 Some c \<Rightarrow> open_default (contact_conversation c) s
               | None \<Rightarrow>
                   public_fallback
                     (s\<lparr>ro_toasts := ro_toasts s @ [(case short_token (ph_name h) of (t, shortened) \<Rightarrow> ContactNotFound t shortened)]\<rparr>))
          else s
      | None \<Rightarrow>
          (case last_view s of
             Some l \<Rightarrow>
               if conv_type l \<noteq> ConvContact \<or> \<not> ro_contactsLoaded s then s
               else
                 (case (case find (\<lambda>c. to_lower (ct_public_key c) = to_lower (conv_id l)) (ro_contacts s) of
                          Some c \<Rightarrow> Some c
                        | None \<Rightarrow> resolveContactFromHashToken (conv_id l) (ro_contacts s)) of
                    Some c \<Rightarrow> open_default (contact_conversation c) s
                  | None \<Rightarrow> public_fallback s)
           | None \<Rightarrow> s))"

definition phase2 :: "router \<Rightarrow> router result" where
  "phase2 s =
     (if ro_hasSetDefault s \<or> ro_active s \<noteq> None then Returns s
      else bind_result (hash_conversation (hi_hash (ro_history s))) (\<lambda>hashConv. Returns (phase2_route hashConv s)))"

definition url_effect :: "router \<Rightarrow> router result" where
  "url_effect s =
     (let s1 = s\<lparr>ro_activeRef := ro_active s\<rparr>;
          s2 =
            (if ro_isHandlingPopstate s1 then s1\<lparr>ro_isHandlingPopstate := False\<rparr>
             else if ro_active s1 \<noteq> None \<and> ro_hashSyncEnabled s1 \<and> \<not> ro_suspendHashSync s1 then
               if ro_shouldPushHistory s1
               then s1\<lparr>ro_shouldPushHistory := False, ro_history := pushUrlHash (ro_active s1) (ro_history s1)\<rparr>
               else s1\<lparr>ro_history := updateUrlHash (ro_active s1) (ro_history s1)\<rparr>
             else s1)
      in Returns (case ro_active s2 of
           Some c \<Rightarrow>
             if conv_type c \<noteq> ConvSearch then s2\<lparr>ro_stored := saveLastViewedConversation c (ro_stored s2)\<rparr> else s2
         | None \<Rightarrow> s2))"

definition delete_fallback :: "router \<Rightarrow> router result" where
  "delete_fallback s =
     Returns
       (if \<not> ro_pendingDeleteFallback s then s
        else if ro_active s \<noteq> None then s\<lparr>ro_pendingDeleteFallback := False\<rparr>
        else
          case resolvePublicFromChannels (ro_channels s) of
            None \<Rightarrow> s
          | Some p \<Rightarrow> queue (Some p) (s\<lparr>ro_hasSetDefault := True, ro_pendingDeleteFallback := False\<rparr>))"

datatype dep = DepChannels | DepContacts | DepContactsLoaded | DepSettings | DepDirectory | DepSuspend | DepActive

definition on_change :: "dep list \<Rightarrow> dep list \<Rightarrow> (router \<Rightarrow> router result) \<Rightarrow> router \<Rightarrow> router result" where
  "on_change deps changed eff s = (if list_ex (\<lambda>d. d \<in> set deps) changed then eff s else Returns s)"

definition commit :: "(string \<Rightarrow> string) \<Rightarrow> dep list \<Rightarrow> router \<Rightarrow> router result" where
  "commit tr changed s =
     bind_result (on_change [DepChannels, DepActive, DepSettings, DepDirectory] changed (phase1 tr) s) (\<lambda>s1.
     bind_result (on_change [DepSettings, DepDirectory, DepActive, DepChannels] changed community_off s1) (\<lambda>s2.
     bind_result (on_change [DepContacts, DepChannels, DepActive, DepContactsLoaded] changed phase2 s2) (\<lambda>s3.
     bind_result (on_change [DepActive, DepSuspend] changed url_effect s3) (\<lambda>s4.
     on_change [DepActive, DepChannels] changed delete_fallback s4))))"

text \<open>\<open>n\<close> bounds the number of renders after the first; queueing \<^verbatim>\<open>null\<close> over \<^verbatim>\<open>null\<close> does not render.\<close>

fun settle :: "nat \<Rightarrow> (string \<Rightarrow> string) \<Rightarrow> dep list \<Rightarrow> router \<Rightarrow> router result" where
  "settle n tr changed s =
     bind_result (commit tr changed s) (\<lambda>s'.
       case ro_queued s' of
         None \<Rightarrow> Returns s'
       | Some q \<Rightarrow>
           if q = None \<and> ro_active s' = None then Returns (s'\<lparr>ro_queued := None\<rparr>)
           else
             (case n of
                0 \<Rightarrow> Returns s'
              | Suc k \<Rightarrow> settle k tr [DepActive] (s'\<lparr>ro_active := q, ro_queued := None\<rparr>)))"

declare settle.simps [simp del]

section \<open>Events\<close>

definition set_active :: "conversation option \<Rightarrow> router \<Rightarrow> router" where
  "set_active c s = queue c (s\<lparr>ro_hashSyncEnabled := True, ro_shouldPushHistory := True\<rparr>)"

definition handlePopstate :: "(string \<Rightarrow> string) \<Rightarrow> router \<Rightarrow> router result" where
  "handlePopstate tr s =
     bind_result (parseHashSettingsSection (hi_hash (ro_history s))) (\<lambda>section.
       if section \<noteq> None then Returns s
       else
         bind_result (resolveConversationFromHash tr (hi_hash (ro_history s)) (ro_channels s) (ro_contacts s)
             (ro_directoryEnabled s)) (\<lambda>fromHash.
           Returns
             (if fromHash = None \<and> ro_narrow s
              then queue None (s\<lparr>ro_hashSyncEnabled := True, ro_isHandlingPopstate := True\<rparr>)
              else
                case (case fromHash of Some c \<Rightarrow> Some c | None \<Rightarrow> resolvePublicFromChannels (ro_channels s)) of
                  None \<Rightarrow> s
                | Some c \<Rightarrow> queue (Some c) (s\<lparr>ro_hashSyncEnabled := True, ro_isHandlingPopstate := True\<rparr>))))"

datatype router_event =
    RMount
  | RChannels "channel list"
  | RContacts "contact list"
  | RContactsLoaded "contact list"
  | RSettings bool
  | RDirectory bool
  | RSuspend bool
  | RLayout bool
  | RSetActive "conversation option"
  | RSelect conversation
  | RPopstate page_history
  | RMarkDefault
  | RDeletePending

text \<open>A queued state is rendered, and the effects of the changes run.\<close>

definition render :: "(string \<Rightarrow> string) \<Rightarrow> router \<Rightarrow> router result" where
  "render tr s =
     (case ro_queued s of
        None \<Rightarrow> Returns s
      | Some q \<Rightarrow>
          if q = None \<and> ro_active s = None then Returns (s\<lparr>ro_queued := None\<rparr>)
          else settle 3 tr [DepActive] (s\<lparr>ro_active := q, ro_queued := None\<rparr>))"

fun router_step :: "(string \<Rightarrow> string) \<Rightarrow> router_event \<Rightarrow> router \<Rightarrow> router result" where
  "router_step tr RMount s =
     settle 3 tr [DepChannels, DepContacts, DepContactsLoaded, DepSettings, DepDirectory, DepSuspend, DepActive] s"
| "router_step tr (RChannels cs) s = settle 3 tr [DepChannels] (s\<lparr>ro_channels := cs\<rparr>)"
| "router_step tr (RContacts cs) s = settle 3 tr [DepContacts] (s\<lparr>ro_contacts := cs\<rparr>)"
| "router_step tr (RContactsLoaded cs) s =
     settle 3 tr [DepContacts, DepContactsLoaded] (s\<lparr>ro_contacts := cs, ro_contactsLoaded := True\<rparr>)"
| "router_step tr (RSettings directory) s =
     settle 3 tr [DepSettings, DepDirectory] (s\<lparr>ro_settingsLoaded := True, ro_directoryEnabled := directory\<rparr>)"
| "router_step tr (RDirectory directory) s = settle 3 tr [DepDirectory] (s\<lparr>ro_directoryEnabled := directory\<rparr>)"
| "router_step tr (RSuspend b) s = settle 3 tr [DepSuspend] (s\<lparr>ro_suspendHashSync := b\<rparr>)"
| "router_step tr (RLayout narrow) s = Returns (s\<lparr>ro_narrow := narrow\<rparr>)"
| "router_step tr (RSetActive c) s = render tr (set_active c s)"
| "router_step tr (RSelect c) s = render tr (set_active (Some c) (s\<lparr>ro_sidebarOpen := False\<rparr>))"
| "router_step tr (RPopstate h) s = bind_result (handlePopstate tr (s\<lparr>ro_history := h\<rparr>)) (render tr)"
| "router_step tr RMarkDefault s = Returns (s\<lparr>ro_hasSetDefault := True\<rparr>)"
| "router_step tr RDeletePending s = Returns (s\<lparr>ro_pendingDeleteFallback := True\<rparr>)"

fun router_run :: "(string \<Rightarrow> string) \<Rightarrow> router_event list \<Rightarrow> router \<Rightarrow> router result" where
  "router_run tr [] s = Returns s"
| "router_run tr (e # es) s = bind_result (router_step tr e s) (router_run tr es)"


section \<open>Rounds of effects\<close>

text \<open>What no effect changes.\<close>

definition same_inputs :: "router \<Rightarrow> router \<Rightarrow> bool" where
  "same_inputs s s' \<longleftrightarrow>
     ro_active s' = ro_active s \<and> ro_channels s' = ro_channels s \<and> ro_contacts s' = ro_contacts s \<and>
     ro_contactsLoaded s' = ro_contactsLoaded s \<and> ro_settingsLoaded s' = ro_settingsLoaded s \<and>
     ro_directoryEnabled s' = ro_directoryEnabled s \<and> ro_suspendHashSync s' = ro_suspendHashSync s \<and>
     ro_narrow s' = ro_narrow s \<and> ro_reopenLast s' = ro_reopenLast s"

lemma same_inputs_trans: "same_inputs a b \<Longrightarrow> same_inputs b c \<Longrightarrow> same_inputs a c"
  by (simp add: same_inputs_def)

lemmas queue_defs = open_default_def queue_def public_fallback_def default_public_def

text \<open>What an effect may queue, given the state it ran in.\<close>

definition queues :: "router \<Rightarrow> router \<Rightarrow> bool" where
  "queues s s' \<longleftrightarrow> same_inputs s s' \<and>
     (ro_queued s' = ro_queued s \<or>
      (\<exists>c. ro_queued s' = Some (Some c) \<and>
         (ro_active s = None \<and> (conv_type c = ConvTest \<longrightarrow> ro_directoryEnabled s) \<or>
          conv_type c = ConvChannel \<and> map_option conv_type (ro_active s) = Some ConvTest)))"

lemma queues_refl [simp]: "queues s s"
  by (simp add: queues_def same_inputs_def)

lemma queues_trans: "queues a b \<Longrightarrow> queues b c \<Longrightarrow> queues a c"
  by (auto simp: queues_def same_inputs_def)

lemma public_channel: "resolvePublicFromChannels cs = Some p \<Longrightarrow> conv_type p = ConvChannel"
  by (auto simp: resolvePublicFromChannels_def channel_conversation_def simple_conversation_def)

lemma conversation_types [simp]:
  "conv_type (channel_conversation ch) = ConvChannel" "conv_type (contact_conversation ct) = ConvContact"
  "conv_type (testConversation tr) = ConvTest"
  by (simp_all add: channel_conversation_def contact_conversation_def testConversation_def simple_conversation_def)

lemma view_not_test: "view_conversation tr h = Some v \<Longrightarrow> conv_type v \<noteq> ConvTest"
  by (auto simp: view_conversation_def simple_conversation_def split: conversation_type.splits)

lemma open_queues:
  "ro_active s = None \<Longrightarrow> (conv_type c = ConvTest \<longrightarrow> ro_directoryEnabled s) \<Longrightarrow> queues s (open_default c s)"
  by (simp add: queues_def same_inputs_def queue_defs)

lemma default_public_queues: "ro_active s = None \<Longrightarrow> queues s (default_public h s)"
  by (auto simp: queues_def same_inputs_def queue_defs dest: public_channel split: option.split)

lemma public_fallback_queues: "ro_active s = None \<Longrightarrow> queues s (public_fallback s)"
  by (auto simp: queues_def same_inputs_def queue_defs dest: public_channel split: option.split)

lemma phase1_channels_queues: "ro_active s = None \<Longrightarrow> queues s (phase1_channels h s)"
  by (auto simp: phase1_channels_def intro: open_queues default_public_queues split: option.split)

lemma phase1_route_queues: "ro_active s = None \<Longrightarrow> queues s (phase1_route tr h s)"
  by (auto simp: phase1_route_def data_free_type_def dest: view_not_test intro!: open_queues phase1_channels_queues
      split: option.split)

lemma phase1_queues: "phase1 tr s = Returns s' \<Longrightarrow> queues s s'"
  by (cases "hash_conversation (hi_hash (ro_history s))")
    (auto simp: phase1_def intro: phase1_route_queues split: if_splits)

lemma community_off_queues: "community_off s = Returns s' \<Longrightarrow> queues s s'"
  by (auto simp: community_off_def queues_def same_inputs_def queue_def dest: public_channel split: option.splits if_splits)

lemma toast_fallback_queues: "ro_active s = None \<Longrightarrow> queues s (public_fallback (s\<lparr>ro_toasts := x\<rparr>))"
  using public_fallback_queues [of "s\<lparr>ro_toasts := x\<rparr>"] by (simp add: queues_def same_inputs_def)

lemma phase2_route_queues: "ro_active s = None \<Longrightarrow> queues s (phase2_route h s)"
  by (auto simp: phase2_route_def intro!: open_queues public_fallback_queues toast_fallback_queues split: option.split)

lemma phase2_queues: "phase2 s = Returns s' \<Longrightarrow> queues s s'"
  by (cases "hash_conversation (hi_hash (ro_history s))")
    (auto simp: phase2_def intro: phase2_route_queues split: if_splits)

lemma url_effect_queues: "url_effect s = Returns s' \<Longrightarrow> queues s s'"
  by (auto simp: url_effect_def queues_def same_inputs_def Let_def split: option.splits if_splits)

lemma delete_queues: "delete_fallback s = Returns s' \<Longrightarrow> queues s s'"
  by (auto simp: delete_fallback_def queues_def same_inputs_def queue_def dest: public_channel split: option.splits if_splits)

lemma on_change_queues:
  "(\<And>x y. eff x = Returns y \<Longrightarrow> queues x y) \<Longrightarrow> on_change deps changed eff s = Returns s' \<Longrightarrow> queues s s'"
  by (auto simp: on_change_def split: if_splits)

lemma bind_Returns: "bind_result r f = Returns y \<longleftrightarrow> (\<exists>x. r = Returns x \<and> f x = Returns y)"
  by (cases r) auto

lemma commit_parts:
  assumes "commit tr changed s = Returns s'"
  obtains s1 s2 s3 s4 where
    "on_change [DepChannels, DepActive, DepSettings, DepDirectory] changed (phase1 tr) s = Returns s1"
    "on_change [DepSettings, DepDirectory, DepActive, DepChannels] changed community_off s1 = Returns s2"
    "on_change [DepContacts, DepChannels, DepActive, DepContactsLoaded] changed phase2 s2 = Returns s3"
    "on_change [DepActive, DepSuspend] changed url_effect s3 = Returns s4"
    "on_change [DepActive, DepChannels] changed delete_fallback s4 = Returns s'"
  using assms unfolding commit_def bind_Returns by (elim exE conjE) (rule that)

lemma commit_queues:
  assumes "commit tr changed s = Returns s'"
  shows "queues s s'"
proof -
  from assms obtain s1 s2 s3 s4 where p:
    "on_change [DepChannels, DepActive, DepSettings, DepDirectory] changed (phase1 tr) s = Returns s1"
    "on_change [DepSettings, DepDirectory, DepActive, DepChannels] changed community_off s1 = Returns s2"
    "on_change [DepContacts, DepChannels, DepActive, DepContactsLoaded] changed phase2 s2 = Returns s3"
    "on_change [DepActive, DepSuspend] changed url_effect s3 = Returns s4"
    "on_change [DepActive, DepChannels] changed delete_fallback s4 = Returns s'" by (rule commit_parts)
  have "queues s s1" by (rule on_change_queues [OF phase1_queues p(1)])
  moreover have "queues s1 s2" by (rule on_change_queues [OF community_off_queues p(2)])
  moreover have "queues s2 s3" by (rule on_change_queues [OF phase2_queues p(3)])
  moreover have "queues s3 s4" by (rule on_change_queues [OF url_effect_queues p(4)])
  moreover have "queues s4 s'" by (rule on_change_queues [OF delete_queues p(5)])
  ultimately show ?thesis using queues_trans by blast
qed

lemma on_change_open:
  assumes "\<exists>y. eff s = Returns y" and "\<And>y. eff s = Returns y \<Longrightarrow> queues s y" and "ro_active s = Some c"
  shows "\<exists>y. on_change deps changed eff s = Returns y \<and> ro_active y = Some c"
  using assms by (auto simp: on_change_def queues_def same_inputs_def)

lemma effects_return: "\<exists>y. community_off s = Returns y" "\<exists>y. url_effect s = Returns y" "\<exists>y. delete_fallback s = Returns y"
  by (simp_all add: community_off_def url_effect_def delete_fallback_def Let_def)

lemma commit_open:
  assumes "ro_active s = Some c"
  shows "\<exists>s'. commit tr changed s = Returns s'"
proof -
  have "phase1 tr s = Returns s" using assms by (simp add: phase1_def)
  then obtain s1 where "on_change [DepChannels, DepActive, DepSettings, DepDirectory] changed (phase1 tr) s = Returns s1"
    "ro_active s1 = Some c" using assms by (auto simp: on_change_def)
  moreover from this obtain s2 where "on_change [DepSettings, DepDirectory, DepActive, DepChannels] changed community_off s1 = Returns s2"
    "ro_active s2 = Some c" using on_change_open [where eff = community_off, OF effects_return(1) community_off_queues] by blast
  moreover from this have "phase2 s2 = Returns s2" by (simp add: phase2_def)
  moreover from this calculation obtain s3 where
    "on_change [DepContacts, DepChannels, DepActive, DepContactsLoaded] changed phase2 s2 = Returns s3"
    "ro_active s3 = Some c" by (auto simp: on_change_def)
  moreover from this obtain s4 where "on_change [DepActive, DepSuspend] changed url_effect s3 = Returns s4"
    "ro_active s4 = Some c" using on_change_open [where eff = url_effect, OF effects_return(2) url_effect_queues] by blast
  moreover from this obtain s5 where "on_change [DepActive, DepChannels] changed delete_fallback s4 = Returns s5"
    using on_change_open [where eff = delete_fallback, OF effects_return(3) delete_queues] by blast
  ultimately show ?thesis by (simp add: commit_def)
qed

text \<open>
  A round that starts with a conversation open ends with it open, and queues at most Public instead of
  the test page; so two rounds settle.
\<close>

lemma settle_commit:
  "settle n tr changed s =
     bind_result (commit tr changed s) (\<lambda>s'.
       case ro_queued s' of
         None \<Rightarrow> Returns s'
       | Some q \<Rightarrow>
           if q = None \<and> ro_active s' = None then Returns (s'\<lparr>ro_queued := None\<rparr>)
           else (case n of 0 \<Rightarrow> Returns s' | Suc k \<Rightarrow> settle k tr [DepActive] (s'\<lparr>ro_active := q, ro_queued := None\<rparr>)))"
  by (rule settle.simps)

lemma settle_quiet:
  assumes "ro_active s = Some c" "conv_type c \<noteq> ConvTest \<or> ro_directoryEnabled s" "ro_queued s = None"
  shows "\<exists>s'. settle n tr changed s = Returns s' \<and> commit tr changed s = Returns s' \<and> ro_queued s' = None \<and> ro_active s' = Some c"
proof -
  obtain s' where s': "commit tr changed s = Returns s'" using commit_open [OF assms(1)] by blast
  have "queues s s'" using s' by (rule commit_queues)
  moreover have "ro_queued s' = None"
  proof -
    from s' obtain s1 s2 s3 s4 where p:
      "on_change [DepChannels, DepActive, DepSettings, DepDirectory] changed (phase1 tr) s = Returns s1"
      "on_change [DepSettings, DepDirectory, DepActive, DepChannels] changed community_off s1 = Returns s2"
      "on_change [DepContacts, DepChannels, DepActive, DepContactsLoaded] changed phase2 s2 = Returns s3"
      "on_change [DepActive, DepSuspend] changed url_effect s3 = Returns s4"
      "on_change [DepActive, DepChannels] changed delete_fallback s4 = Returns s'" by (rule commit_parts)
    have "s1 = s" using p(1) assms(1) by (simp add: on_change_def phase1_def split: if_splits)
    moreover from this have "s2 = s" using p(2) assms(1, 2) by (auto simp: on_change_def community_off_def split: if_splits)
    moreover from this have "s3 = s" using p(3) assms(1) by (simp add: on_change_def phase2_def split: if_splits)
    moreover have "ro_queued y = ro_queued x \<and> ro_active y = ro_active x" if "url_effect x = Returns y" for x y
      using that by (auto simp: url_effect_def Let_def split: option.splits if_splits)
    ultimately have "ro_queued s4 = None" "ro_active s4 = Some c" using p(4) assms by (auto simp: on_change_def split: if_splits)
    then show ?thesis using p(5) by (auto simp: on_change_def delete_fallback_def split: if_splits)
  qed
  ultimately show ?thesis using s' assms(1) by (simp add: settle_commit queues_def same_inputs_def)
qed

lemma settle_open:
  assumes "ro_active s = Some c" "ro_queued s = None"
  shows "\<exists>s' d. settle (Suc n) tr changed s = Returns s' \<and> ro_queued s' = None \<and> ro_active s' = Some d"
proof -
  obtain s' where s': "commit tr changed s = Returns s'" using commit_open [OF assms(1)] by blast
  have q: "queues s s'" using s' by (rule commit_queues)
  show ?thesis
  proof (cases "ro_queued s'")
    case None
    then show ?thesis using s' q assms(1) by (simp add: settle_commit queues_def same_inputs_def)
  next
    case (Some qd)
    then obtain p where p: "qd = Some p" "conv_type p = ConvChannel" using q assms by (auto simp: queues_def)
    from settle_quiet [of "s'\<lparr>ro_active := Some p, ro_queued := None\<rparr>" p n tr "[DepActive]"] p(2)
    obtain s2 where "settle n tr [DepActive] (s'\<lparr>ro_active := Some p, ro_queued := None\<rparr>) = Returns s2"
      "ro_queued s2 = None" "ro_active s2 = Some p" by auto
    then show ?thesis using s' Some p(1) by (subst settle_commit) simp
  qed
qed

lemma settle_settles:
  assumes "ro_queued s = None" and "settle (Suc (Suc n)) tr changed s = Returns s'"
  shows "ro_queued s' = None"
proof (cases "ro_active s")
  case (Some c)
  then show ?thesis using settle_open [OF Some assms(1), of "Suc n" tr changed] assms(2) by auto
next
  case None
  from assms(2) obtain s1 where c: "commit tr changed s = Returns s1" by (auto simp: settle_commit [of "Suc (Suc n)"] bind_Returns)
  have q: "queues s s1" using c by (rule commit_queues)
  show ?thesis
  proof (cases "ro_queued s1")
    case None
    then show ?thesis using assms(2) c by (simp add: settle_commit [of "Suc (Suc n)"])
  next
    case (Some qd)
    then obtain p where p: "qd = Some p" using q assms(1) by (auto simp: queues_def)
    have "settle (Suc n) tr [DepActive] (s1\<lparr>ro_active := Some p, ro_queued := None\<rparr>) = Returns s'"
      using assms(2) c Some p by (simp add: settle_commit [of "Suc (Suc n)"])
    then show ?thesis using settle_open [of "s1\<lparr>ro_active := Some p, ro_queued := None\<rparr>" p n tr "[DepActive]"] by auto
  qed
qed

lemma settle3_settles: "settle 3 tr changed s = Returns s' \<Longrightarrow> ro_queued s = None \<Longrightarrow> ro_queued s' = None"
  using settle_settles [of s 1 tr changed s'] by (simp add: numeral_3_eq_3)

lemma render_settles: "render tr s = Returns s' \<Longrightarrow> ro_queued s' = None"
  by (auto simp: render_def dest!: settle3_settles split: option.splits if_splits)

lemma step_settles:
  assumes "ro_queued s = None" and "router_step tr e s = Returns s'"
  shows "ro_queued s' = None"
  using assms
  by (cases e) (auto simp: bind_Returns dest!: settle3_settles render_settles)

section \<open>The initial route\<close>

text \<open>What the initial route may have to wait for.\<close>

definition waits_contact :: "parsed_hash option \<Rightarrow> router \<Rightarrow> bool" where
  "waits_contact h s =
     (case h of
        Some p \<Rightarrow> ph_type p = ConvContact
      | None \<Rightarrow> (case last_view s of Some l \<Rightarrow> conv_type l = ConvContact | None \<Rightarrow> False))"

definition waits_settings :: "parsed_hash option \<Rightarrow> bool" where
  "waits_settings h = (case h of Some p \<Rightarrow> ph_type p = ConvTest | None \<Rightarrow> False)"

definition opened :: "router \<Rightarrow> bool" where
  "opened s \<longleftrightarrow> ro_hasSetDefault s \<and> (\<exists>c. ro_queued s = Some (Some c))"

lemma open_opened [simp]: "opened (open_default c s)"
  by (simp add: opened_def queue_defs)

lemma default_public_opened: "resolvePublicFromChannels (ro_channels s) = Some p \<Longrightarrow> opened (default_public h s)"
  by (simp add: default_public_def)

lemma phase1_route_opens:
  assumes "resolvePublicFromChannels (ro_channels s) = Some p" and "\<not> ro_narrow s"
  shows "opened (phase1_route tr h s) \<or>
     phase1_route tr h s = s \<and> (waits_settings h \<and> \<not> ro_settingsLoaded s \<or> waits_contact h s)"
proof -
  have ne: "ro_channels s \<noteq> []" using assms(1) by (auto simp: resolvePublicFromChannels_def findPublicChannel_def)
  have ch: "opened (phase1_channels h s) \<or> phase1_channels h s = s \<and> waits_contact h s"
    using ne assms default_public_opened [OF assms(1)]
    by (auto simp: phase1_channels_def waits_contact_def split: option.split)
  show ?thesis
  proof (cases h)
    case None
    then show ?thesis using ch by (auto simp: phase1_route_def split: option.split)
  next
    case (Some q)
    then show ?thesis using ch by (auto simp: phase1_route_def waits_settings_def split: option.split)
  qed
qed

text \<open>Otherwise a phase changes nothing but the notices.\<close>

definition routes :: "router \<Rightarrow> router \<Rightarrow> bool" where
  "routes s s' \<longleftrightarrow> opened s' \<or> s' = s\<lparr>ro_toasts := ro_toasts s'\<rparr>"

lemma routes_simps [simp]: "routes s s" "routes s (s\<lparr>ro_toasts := x\<rparr>)" "routes s (open_default c s')"
  by (simp_all add: routes_def)

lemma routes_public [simp]: "routes s (default_public h s)" "routes s (public_fallback (s\<lparr>ro_toasts := x\<rparr>))" "routes s (public_fallback s)"
  by (simp_all add: default_public_def public_fallback_def split: option.split)

lemma phase1_channels_routes [simp]: "routes s (phase1_channels h s)"
  by (simp add: phase1_channels_def split: option.split)

lemma phase1_route_routes: "routes s (phase1_route tr h s)"
  by (simp add: phase1_route_def split: option.split)

lemma phase2_route_routes: "routes s (phase2_route h s)"
  by (simp add: phase2_route_def split: option.split)

lemma phase2_route_opens:
  assumes "resolvePublicFromChannels (ro_channels s) = Some p" and "waits_contact h s" "ro_contactsLoaded s"
  shows "opened (phase2_route h s)"
  using assms by (auto simp: phase2_route_def waits_contact_def public_fallback_def split: option.splits)


text \<open>One round of effects on a page that has not opened anything yet.\<close>

definition unrouted :: "parsed_hash option \<Rightarrow> router \<Rightarrow> bool" where
  "unrouted h s \<longleftrightarrow>
     ro_active s = None \<and> ro_queued s = None \<and> \<not> ro_hasSetDefault s \<and> \<not> ro_pendingDeleteFallback s \<and>
     \<not> ro_narrow s \<and> hash_conversation (hi_hash (ro_history s)) = Returns h"

abbreviation "phase1_deps \<equiv> [DepChannels, DepActive, DepSettings, DepDirectory]"
abbreviation "phase2_deps \<equiv> [DepContacts, DepChannels, DepActive, DepContactsLoaded]"

definition has_public :: "router \<Rightarrow> bool" where
  "has_public s \<longleftrightarrow> resolvePublicFromChannels (ro_channels s) \<noteq> None"

lemma waits_same: "same_inputs s s' \<Longrightarrow> ro_stored s' = ro_stored s \<Longrightarrow> waits_contact h s' = waits_contact h s"
  by (simp add: waits_contact_def last_view_def same_inputs_def cong: option.case_cong)

lemma route_keeps:
  "ro_pendingDeleteFallback (phase1_route tr h s) = ro_pendingDeleteFallback s"
  "ro_history (phase1_route tr h s) = ro_history s" "ro_stored (phase1_route tr h s) = ro_stored s"
  "ro_pendingDeleteFallback (phase2_route h s) = ro_pendingDeleteFallback s"
  "ro_history (phase2_route h s) = ro_history s" "ro_stored (phase2_route h s) = ro_stored s"
  by (simp_all add: phase1_route_def phase1_channels_def phase2_route_def queue_defs split: option.split)

text \<open>The two phases of a round.\<close>

definition route_round :: "bool \<Rightarrow> bool \<Rightarrow> (string \<Rightarrow> string) \<Rightarrow> parsed_hash option \<Rightarrow> router \<Rightarrow> router" where
  "route_round one two tr h s =
     (let s1 = (if one then phase1_route tr h s else s) in
      if two \<and> \<not> ro_hasSetDefault s1 then phase2_route h s1 else s1)"

lemma route_round_keeps:
  "ro_pendingDeleteFallback (route_round one two tr h s) = ro_pendingDeleteFallback s"
  "ro_history (route_round one two tr h s) = ro_history s" "ro_stored (route_round one two tr h s) = ro_stored s"
  by (simp_all add: route_round_def route_keeps Let_def)

lemma route_round_active: "ro_active s = None \<Longrightarrow> same_inputs s (route_round one two tr h s)"
  using phase1_route_queues [of s tr h] phase2_route_queues [of s h] phase2_route_queues [of "phase1_route tr h s" h]
  by (auto simp: route_round_def queues_def Let_def intro: same_inputs_trans) (auto simp: same_inputs_def)

lemma round_commit:
  assumes u: "unrouted h s" and c: "commit tr changed s = Returns s'"
  shows "let r = route_round (list_ex (\<lambda>d. d \<in> set phase1_deps) changed) (list_ex (\<lambda>d. d \<in> set phase2_deps) changed) tr h s in
     ro_queued s' = ro_queued r \<and> same_inputs r s' \<and> ro_stored s' = ro_stored r \<and>
     ro_hasSetDefault s' = ro_hasSetDefault r \<and> ro_history s' = ro_history r \<and> \<not> ro_pendingDeleteFallback s'"
proof -
  define one two where "one = list_ex (\<lambda>d. d \<in> set phase1_deps) changed" and "two = list_ex (\<lambda>d. d \<in> set phase2_deps) changed"
  from c obtain s1 s2 s3 s4 where p:
    "on_change phase1_deps changed (phase1 tr) s = Returns s1"
    "on_change [DepSettings, DepDirectory, DepActive, DepChannels] changed community_off s1 = Returns s2"
    "on_change phase2_deps changed phase2 s2 = Returns s3"
    "on_change [DepActive, DepSuspend] changed url_effect s3 = Returns s4"
    "on_change [DepActive, DepChannels] changed delete_fallback s4 = Returns s'" by (rule commit_parts)
  have s1: "s1 = (if one then phase1_route tr h s else s)"
    using p(1) u by (simp add: on_change_def phase1_def unrouted_def one_def split: if_splits)
  have a1: "ro_active s1 = None" using on_change_queues [OF phase1_queues p(1)] u
    by (simp add: queues_def same_inputs_def unrouted_def)
  then have s2: "s2 = s1" using p(2) by (simp add: on_change_def community_off_def split: if_splits)
  have "hash_conversation (hi_hash (ro_history s1)) = Returns h" using s1 u by (simp add: route_keeps unrouted_def)
  then have s3: "s3 = route_round one two tr h s"
    using p(3) a1 by (simp add: s2 on_change_def phase2_def route_round_def two_def s1 [symmetric] split: if_splits)
  have "ro_active s3 = None" using on_change_queues [OF phase2_queues p(3)] s2 a1 by (simp add: queues_def same_inputs_def)
  moreover have "\<not> ro_pendingDeleteFallback s3" using s3 u by (simp add: route_round_keeps unrouted_def)
  ultimately have "ro_queued s' = ro_queued s3 \<and> same_inputs s3 s' \<and> ro_stored s' = ro_stored s3 \<and>
     ro_hasSetDefault s' = ro_hasSetDefault s3 \<and> ro_history s' = ro_history s3 \<and> \<not> ro_pendingDeleteFallback s'"
    using p(4, 5) by (auto simp: on_change_def url_effect_def delete_fallback_def same_inputs_def Let_def split: if_splits)
  then show ?thesis by (simp add: s3 one_def two_def Let_def)
qed

lemma route_round_opens:
  assumes "unrouted h s" and "\<not> opened (route_round one two tr h s)"
  shows "ro_queued (route_round one two tr h s) = None \<and> \<not> ro_hasSetDefault (route_round one two tr h s) \<and>
     (has_public s \<longrightarrow>
        (one \<longrightarrow> waits_settings h \<and> \<not> ro_settingsLoaded s \<or> waits_contact h s) \<and>
        (two \<longrightarrow> \<not> (waits_contact h s \<and> ro_contactsLoaded s)))"
proof -
  let ?s1 = "if one then phase1_route tr h s else s"
  have r1: "opened ?s1 \<or> ?s1 = s\<lparr>ro_toasts := ro_toasts ?s1\<rparr>"
    using phase1_route_routes [of s tr h] by (simp add: routes_def)
  moreover have "\<not> opened ?s1"
    using assms(2) by (auto simp: route_round_def opened_def Let_def split: if_splits)
  ultimately obtain x where x: "?s1 = s\<lparr>ro_toasts := x\<rparr>" by metis
  then have r: "route_round one two tr h s = (if two then phase2_route h (s\<lparr>ro_toasts := x\<rparr>) else s\<lparr>ro_toasts := x\<rparr>)"
    using assms(1) by (simp add: route_round_def unrouted_def Let_def)
  then obtain y where y: "route_round one two tr h s = s\<lparr>ro_toasts := y\<rparr>"
    using assms(2) phase2_route_routes [of "s\<lparr>ro_toasts := x\<rparr>" h] by (auto simp: routes_def split: if_splits)
  have "\<not> (waits_contact h s \<and> ro_contactsLoaded s)" if "has_public s" "two"
    using that r assms(2) phase2_route_opens [of "s\<lparr>ro_toasts := x\<rparr>" _ h]
    by (auto simp: has_public_def waits_contact_def last_view_def split: option.splits)
  moreover have "waits_settings h \<and> \<not> ro_settingsLoaded s \<or> waits_contact h s" if "has_public s" "one"
    using that phase1_route_opens [of s _ tr h] \<open>\<not> opened ?s1\<close> assms(1) by (auto simp: has_public_def unrouted_def)
  ultimately show ?thesis using y assms(1) by (auto simp: unrouted_def)
qed

lemma commit_returns:
  assumes "unrouted h s"
  shows "\<exists>s'. commit tr changed s = Returns s'"
proof -
  obtain s1 where s1: "on_change phase1_deps changed (phase1 tr) s = Returns s1" "ro_active s1 = None"
      "hash_conversation (hi_hash (ro_history s1)) = Returns h"
  proof (cases "list_ex (\<lambda>d. d \<in> set phase1_deps) changed")
    case True
    then show ?thesis using assms that [of "phase1_route tr h s"] phase1_route_queues [of s tr h]
      by (simp add: on_change_def phase1_def unrouted_def route_keeps queues_def same_inputs_def)
  next
    case False
    then show ?thesis using assms that [of s] by (simp add: on_change_def unrouted_def)
  qed
  then have s2: "on_change [DepSettings, DepDirectory, DepActive, DepChannels] changed community_off s1 = Returns s1"
    by (simp add: on_change_def community_off_def)
  have "\<exists>s3. on_change phase2_deps changed phase2 s1 = Returns s3"
    using s1(2, 3) by (simp add: on_change_def phase2_def)
  then obtain s3 where s3: "on_change phase2_deps changed phase2 s1 = Returns s3" by blast
  have "\<exists>y. on_change deps changed url_effect x = Returns y" "\<exists>y. on_change deps changed delete_fallback x = Returns y" for deps x
    using effects_return(2, 3) by (simp_all add: on_change_def)
  then obtain s4 s5 where s4: "on_change [DepActive, DepSuspend] changed url_effect s3 = Returns s4"
    and "on_change [DepActive, DepChannels] changed delete_fallback s4 = Returns s5" by metis
  then show ?thesis using s1(1) s2 s3 s4 by (simp add: commit_def)
qed

text \<open>While nothing is open, the route is still waiting for something that has not arrived.\<close>

definition waiting :: "parsed_hash option \<Rightarrow> router \<Rightarrow> bool" where
  "waiting h s \<longleftrightarrow> (has_public s \<longrightarrow>
     waits_settings h \<and> \<not> ro_settingsLoaded s \<or> waits_contact h s \<and> \<not> ro_contactsLoaded s)"

definition routed :: "parsed_hash option \<Rightarrow> router \<Rightarrow> bool" where
  "routed h s \<longleftrightarrow> ro_queued s = None \<and> (ro_active s = None \<longrightarrow> unrouted h s \<and> waiting h s)"

lemma waits_exclusive: "waits_settings h \<Longrightarrow> \<not> waits_contact h s"
  by (auto simp: waits_settings_def waits_contact_def split: option.splits)

lemma settle_routed:
  assumes u: "unrouted h s"
    and w: "has_public s \<Longrightarrow>
      (list_ex (\<lambda>d. d \<in> set phase1_deps) changed \<longrightarrow> waits_settings h \<and> \<not> ro_settingsLoaded s \<or> waits_contact h s) \<Longrightarrow>
      (list_ex (\<lambda>d. d \<in> set phase2_deps) changed \<longrightarrow> \<not> (waits_contact h s \<and> ro_contactsLoaded s)) \<Longrightarrow>
      waits_settings h \<and> \<not> ro_settingsLoaded s \<or> waits_contact h s \<and> \<not> ro_contactsLoaded s"
  shows "\<exists>s'. settle 3 tr changed s = Returns s' \<and> routed h s'"
proof -
  obtain s' where s': "commit tr changed s = Returns s'" using commit_returns [OF u] by blast
  define r where "r = route_round (list_ex (\<lambda>d. d \<in> set phase1_deps) changed) (list_ex (\<lambda>d. d \<in> set phase2_deps) changed) tr h s"
  have f: "ro_queued s' = ro_queued r" "same_inputs r s'" "ro_stored s' = ro_stored r"
    "ro_hasSetDefault s' = ro_hasSetDefault r" "ro_history s' = ro_history r" "\<not> ro_pendingDeleteFallback s'"
    using round_commit [OF u s'] by (simp_all add: r_def Let_def)
  have i: "same_inputs s s'" using route_round_active u f(2) same_inputs_trans by (metis r_def unrouted_def)
  show ?thesis
  proof (cases "opened r")
    case True
    then obtain c where c: "ro_queued s' = Some (Some c)" using f(1) by (auto simp: opened_def)
    from settle_open [of "s'\<lparr>ro_active := Some c, ro_queued := None\<rparr>" c 1 tr "[DepActive]"]
    obtain s2 d where "settle 2 tr [DepActive] (s'\<lparr>ro_active := Some c, ro_queued := None\<rparr>) = Returns s2"
      "ro_queued s2 = None" "ro_active s2 = Some d" by (auto simp: numeral_2_eq_2)
    then show ?thesis using s' c by (simp add: settle_commit [of "Suc (Suc (Suc 0))"] eval_nat_numeral routed_def)
  next
    case False
    note o = route_round_opens [OF u False [unfolded r_def]]
    have "unrouted h s'" using u f i o by (simp add: unrouted_def same_inputs_def r_def route_round_keeps)
    moreover have "waits_contact h s' = waits_contact h s"
      using i f(3) by (simp add: waits_same r_def route_round_keeps)
    moreover have "has_public s' = has_public s" using i by (simp add: has_public_def same_inputs_def)
    ultimately have "routed h s'" using o w i f(1) by (auto simp: routed_def waiting_def same_inputs_def r_def)
    moreover have "settle 3 tr changed s = Returns s'" using s' f(1) o by (simp add: settle_commit [of 3] r_def)
    ultimately show ?thesis by blast
  qed
qed

definition loads :: "router_event \<Rightarrow> bool" where
  "loads e = (case e of
     RMount \<Rightarrow> True | RChannels _ \<Rightarrow> True | RContacts _ \<Rightarrow> True | RContactsLoaded _ \<Rightarrow> True | RSettings _ \<Rightarrow> True
   | RDirectory _ \<Rightarrow> True | _ \<Rightarrow> False)"

lemma settle_active:
  assumes "ro_active s \<noteq> None" "ro_queued s = None"
  shows "\<exists>s'. settle 3 tr changed s = Returns s' \<and> routed h s'"
proof -
  obtain c where "ro_active s = Some c" using assms(1) by auto
  from settle_open [OF this assms(2), of 2 tr changed] show ?thesis by (auto simp: routed_def eval_nat_numeral)
qed

lemma loads_routed:
  assumes "routed h s" and "loads e"
  shows "\<exists>s'. router_step tr e s = Returns s' \<and> routed h s'"
proof (cases "ro_active s = None")
  case False
  moreover have "ro_queued s = None" using assms(1) by (simp add: routed_def)
  ultimately show ?thesis using assms(2) by (cases e) (simp_all add: loads_def settle_active)
next
  case True
  then have u: "unrouted h s" and w: "waiting h s" using assms(1) by (simp_all add: routed_def)
  have wc: "waits_contact h (s\<lparr>ro_channels := a\<rparr>) = waits_contact h s" "waits_contact h (s\<lparr>ro_contacts := b\<rparr>) = waits_contact h s"
    "waits_contact h (s\<lparr>ro_contacts := b, ro_contactsLoaded := l\<rparr>) = waits_contact h s"
    "waits_contact h (s\<lparr>ro_settingsLoaded := l, ro_directoryEnabled := d\<rparr>) = waits_contact h s"
    "waits_contact h (s\<lparr>ro_directoryEnabled := d\<rparr>) = waits_contact h s" for a b l d
    by (simp_all add: waits_contact_def last_view_def cong: option.case_cong)
  show ?thesis
    using assms(2) u w waits_exclusive [of h s]
    by (cases e)
      (auto simp: loads_def wc waiting_def has_public_def unrouted_def intro!: settle_routed)
qed

lemma loads_run:
  "routed h s \<Longrightarrow> list_all loads es \<Longrightarrow> \<exists>s'. router_run tr es s = Returns s' \<and> routed h s'"
proof (induction es arbitrary: s)
  case (Cons e es)
  obtain s1 where "router_step tr e s = Returns s1" "routed h s1" using loads_routed [of h s e tr] Cons.prems by auto
  then show ?case using Cons by simp
qed simp

section \<open>Selecting, going back, reloading\<close>

lemma select_commits:
  assumes "ro_queued s = None" "conv_type c \<noteq> ConvTest \<or> ro_directoryEnabled s"
  shows "\<exists>s'. router_step tr (RSelect c) s = Returns s' \<and> ro_active s' = Some c \<and>
     commit tr [DepActive] ((set_active (Some c) (s\<lparr>ro_sidebarOpen := False\<rparr>))\<lparr>ro_active := Some c, ro_queued := None\<rparr>) = Returns s'"
  using settle_quiet [of "(set_active (Some c) (s\<lparr>ro_sidebarOpen := False\<rparr>))\<lparr>ro_active := Some c, ro_queued := None\<rparr>" c 3 tr "[DepActive]"]
    assms
  by (auto simp: render_def set_active_def queue_def)

lemma commit_active_history:
  assumes "ro_active s = Some c" "conv_type c \<noteq> ConvTest \<or> ro_directoryEnabled s" and "commit tr [DepActive] s = Returns s'"
  shows "\<exists>s4. url_effect s = Returns s4 \<and> ro_history s' = ro_history s4 \<and> ro_isHandlingPopstate s' = ro_isHandlingPopstate s4"
proof -
  have "phase1 tr s = Returns s" "community_off s = Returns s" "phase2 s = Returns s"
    using assms(1, 2) by (auto simp: phase1_def community_off_def phase2_def)
  moreover obtain s4 where s4: "url_effect s = Returns s4" using effects_return(2) by blast
  ultimately have "delete_fallback s4 = Returns s'" using assms(3) by (simp add: commit_def on_change_def)
  moreover have "ro_active s4 = Some c" using url_effect_queues [OF s4] assms(1) by (simp add: queues_def same_inputs_def)
  ultimately show ?thesis using s4 by (auto simp: delete_fallback_def split: if_splits)
qed

lemma find_lower:
  assumes "x \<in> set xs" "distinct (map (\<lambda>y. to_lower (f y)) xs)"
  shows "find (\<lambda>y. to_lower (f y) = to_lower (f x)) xs = Some x"
  using assms by (induction xs) (auto simp: rev_image_eqI)

lemma stored_fields:
  "field ''type'' (Some (conversation_json c)) = Some (JString (type_name (conv_type c)))"
  "field ''id'' (Some (conversation_json c)) = Some (JString (conv_id c))"
  "field ''name'' (Some (conversation_json c)) = Some (JString (conv_name c))"
  "field ''mapFocusKey'' (Some (conversation_json c)) = map_option JString (conv_mapFocusKey c)"
  "field ''locateKey'' (Some (conversation_json c)) = map_option JString (conv_locateKey c)"
  by (simp_all add: field_def conversation_json_def optional_string_def split: option.split)

lemma supported_type_name: "supported_type (Some (JString (type_name t))) = (if t \<in> set SUPPORTED_TYPES then Some t else None)"
  by (cases t) (simp_all add: supported_type_def type_name_def SUPPORTED_TYPES_def)

text \<open>
  On the phone layout, going back to the bare address while the list is already shown queues
  \<^verbatim>\<open>null\<close> over \<^verbatim>\<open>null\<close>: React does not render, the flag of the back button stays set, and the next
  conversation that is selected does not reach the address.
\<close>

lemma stale_popstate_flag:
  assumes "ro_narrow s" "ro_active s = None" "ro_queued s = None" and "conv_type c \<noteq> ConvTest"
  shows "\<exists>s1 s2. router_step tr (RPopstate \<lparr>hi_back = [], hi_hash = []\<rparr>) s = Returns s1 \<and> ro_isHandlingPopstate s1 \<and>
     router_step tr (RSelect c) s1 = Returns s2 \<and> ro_active s2 = Some c \<and> hi_hash (ro_history s2) = []"
proof -
  let ?s1 = "s\<lparr>ro_history := \<lparr>hi_back = [], hi_hash = []\<rparr>, ro_hashSyncEnabled := True, ro_isHandlingPopstate := True\<rparr>"
  have s1: "router_step tr (RPopstate \<lparr>hi_back = [], hi_hash = []\<rparr>) s = Returns ?s1"
    using assms
    by (simp add: handlePopstate_def parseHashSettingsSection_def parseHashSettingsTarget_def resolveConversationFromHash_def
        parseHashConversation_def starts_with_def render_def queue_def)
  obtain s2 where s2: "router_step tr (RSelect c) ?s1 = Returns s2" "ro_active s2 = Some c"
    "commit tr [DepActive] ((set_active (Some c) (?s1\<lparr>ro_sidebarOpen := False\<rparr>))\<lparr>ro_active := Some c, ro_queued := None\<rparr>) = Returns s2"
    using select_commits [of ?s1 c tr] assms by auto
  from commit_active_history [OF _ _ s2(3), of c] assms(4)
  have "hi_hash (ro_history s2) = []" by (auto simp: url_effect_def set_active_def queue_def Let_def split: if_splits)
  then show ?thesis using s1 s2 by auto
qed

section \<open>Properties\<close>

definition public_sample :: channel where
  "public_sample =
     \<lparr>ch_key = PUBLIC_CHANNEL_KEY, ch_name = ''Public'', ch_is_hashtag = False, ch_on_radio = True,
      ch_flood_scope_override = None, ch_path_hash_mode_override = None, ch_last_read_at = None, ch_favorite = False,
      ch_pinned = None, ch_muted = False, ch_muted_until = None, ch_membership = None\<rparr>"

definition empty_router :: router where
  "empty_router = \<lparr>ro_active = None, ro_queued = None, ro_activeRef = None,
     ro_hashSyncEnabled = False, ro_shouldPushHistory = False,
     ro_isHandlingPopstate = False, ro_hasSetDefault = False, ro_pendingDeleteFallback = False, ro_channels = [],
     ro_contacts = [], ro_contactsLoaded = False, ro_settingsLoaded = False, ro_directoryEnabled = False,
     ro_suspendHashSync = False, ro_narrow = False, ro_reopenLast = False, ro_stored = None,
     ro_history = \<lparr>hi_back = [], hi_hash = []\<rparr>, ro_toasts = [], ro_sidebarOpen = False\<rparr>"

text \<open>
  C18: Routing settles. After every event, whatever the page shows and has loaded, at most four renders
  leave no state queued: the effects do not keep triggering each other.
\<close>

theorem router_settles:
  assumes "ro_queued s = None" and "router_step tr e s = Returns s'"
  shows "ro_queued s' = None"
  using assms by (rule step_settles)

theorem router_settles_witness:
  "case router_step id RMount (empty_router\<lparr>ro_channels := [public_sample]\<rparr>) of
     Throws \<Rightarrow> False
   | Returns s' \<Rightarrow> map_option conv_name (ro_active s') = Some ''Public'' \<and> ro_queued s' = None"
proof -
  let ?s = "empty_router\<lparr>ro_channels := [public_sample]\<rparr>"
  have "case router_step id RMount ?s of Throws \<Rightarrow> False | Returns s' \<Rightarrow> map_option conv_name (ro_active s') = Some ''Public''"
    by code_simp
  then show ?thesis
    using router_settles [of ?s id RMount] by (auto simp: empty_router_def split: result.splits)
qed

text \<open>
  C17: The page always opens something. On the wide layout, whatever order channels, contacts and settings
  arrive in, and however often they change, no event fails when the address can be read, and once
  the Public channel, the contacts and the settings are there, a conversation is open.
\<close>

theorem initial_route_resolves:
  assumes "hash_conversation (hi_hash h) = Returns hc" and "router_init h stored reopen False = Returns s0"
    and "list_all loads es"
  shows "\<exists>s. router_run tr (RMount # es) s0 = Returns s \<and>
     (findPublicChannel (ro_channels s) \<noteq> None \<and> ro_contactsLoaded s \<and> ro_settingsLoaded s \<longrightarrow> ro_active s \<noteq> None)"
proof -
  have "routed hc s0" using assms(1, 2)
    by (auto simp: router_init_def bind_Returns routed_def unrouted_def waiting_def has_public_def
        resolvePublicFromChannels_def findPublicChannel_def)
  moreover have "list_all loads (RMount # es)" using assms(3) by (simp add: loads_def)
  ultimately obtain s where "router_run tr (RMount # es) s0 = Returns s" "routed hc s" using loads_run by blast
  then show ?thesis by (auto simp: routed_def waiting_def has_public_def resolvePublicFromChannels_def)
qed

theorem initial_route_resolves_witness:
  "\<exists>s. router_run id [RMount, RChannels [public_sample], RSettings True, RContactsLoaded []] empty_router = Returns s \<and>
     ro_active s \<noteq> None"
proof -
  let ?run = "router_run id [RMount, RChannels [public_sample], RSettings True, RContactsLoaded []] empty_router"
  have "hash_conversation [] = Returns None" by code_simp
  moreover have "router_init \<lparr>hi_back = [], hi_hash = []\<rparr> None False False = Returns empty_router"
    by (simp add: router_init_def empty_router_def parseHashSettingsSection_def parseHashSettingsTarget_def starts_with_def)
  moreover have "case ?run of Throws \<Rightarrow> False
      | Returns s \<Rightarrow> findPublicChannel (ro_channels s) \<noteq> None \<and> ro_contactsLoaded s \<and> ro_settingsLoaded s"
    by code_simp
  ultimately show ?thesis
    using initial_route_resolves [of "\<lparr>hi_back = [], hi_hash = []\<rparr>" None None False empty_router
        "[RChannels [public_sample], RSettings True, RContactsLoaded []]" id]
    by (auto simp: loads_def)
qed

text \<open>
  C19: The address brings the conversation back. For a listed channel or contact whose keys are unique up
  to case, resolving the address that was written for it gives the same conversation, so reloading
  the page and the back button reopen it.
\<close>

theorem address_reopens:
  assumes "distinct (map (\<lambda>c. to_lower (ch_key c)) channels)" and "distinct (map (\<lambda>c. to_lower (ct_public_key c)) contacts)"
    and "conv \<in> channel_conversation ` set channels \<union> contact_conversation ` set contacts"
    and "conv_id conv \<noteq> []" and "js_trim (conv_id conv) = conv_id conv"
  shows "resolveConversationFromHash tr (getConversationHash (Some conv)) channels contacts directoryEnabled =
     Returns (Some conv)"
proof -
  consider ch where "ch \<in> set channels" "conv = channel_conversation ch"
    | ct where "ct \<in> set contacts" "conv = contact_conversation ct" using assms(3) by auto
  then show ?thesis
  proof cases
    case 1
    then show ?thesis
      using assms(4, 5) find_lower [OF 1(1) assms(1)] parse_written_hash [OF assms(4)]
      by (simp add: resolveConversationFromHash_def resolveChannelFromHashToken_def written_hash_def plain_hash_def
          channel_conversation_def simple_conversation_def Let_def)
  next
    case 2
    then show ?thesis
      using assms(4, 5) find_lower [OF 2(1) assms(2)] parse_written_hash [OF assms(4)]
      by (simp add: resolveConversationFromHash_def resolveContactFromHashToken_def written_hash_def plain_hash_def
          contact_conversation_def simple_conversation_def Let_def)
  qed
qed

theorem address_reopens_witness:
  "resolveConversationFromHash id (getConversationHash (Some (contact_conversation (sample_contact ''ab12'')))) []
     [sample_contact ''cd34'', sample_contact ''ab12''] False = Returns (Some (contact_conversation (sample_contact ''ab12'')))"
proof -
  have "distinct (map (\<lambda>c. to_lower (ct_public_key c)) [sample_contact ''cd34'', sample_contact ''ab12''])" by code_simp
  moreover have "js_trim ''ab12'' = ''ab12''" by code_simp
  ultimately show ?thesis
    using address_reopens [of "[]" "[sample_contact ''cd34'', sample_contact ''ab12'']"
        "contact_conversation (sample_contact ''ab12'')" id False]
    by (simp add: contact_conversation_def simple_conversation_def sample_contact_def)
qed

text \<open>
  Selecting writes the address. With the address in sync, selecting a conversation opens it, makes its
  hash the current one and adds exactly one entry to the history, or none when the hash is already
  there.
\<close>

theorem select_pushes_address:
  assumes "ro_queued s = None" and "conv_type c \<noteq> ConvTest \<or> ro_directoryEnabled s"
    and "\<not> ro_suspendHashSync s" and "\<not> ro_isHandlingPopstate s"
  shows "case router_step tr (RSelect c) s of
       Throws \<Rightarrow> False
     | Returns s' \<Rightarrow>
         ro_active s' = Some c \<and> hi_hash (ro_history s') = getConversationHash (Some c) \<and>
         hi_back (ro_history s') =
           (if hi_hash (ro_history s) = getConversationHash (Some c) then hi_back (ro_history s)
            else hi_hash (ro_history s) # hi_back (ro_history s)) \<and>
         \<not> ro_suspendHashSync s'"
proof -
  let ?s = "(set_active (Some c) (s\<lparr>ro_sidebarOpen := False\<rparr>))\<lparr>ro_active := Some c, ro_queued := None\<rparr>"
  obtain s' where s': "router_step tr (RSelect c) s = Returns s'" "ro_active s' = Some c" "commit tr [DepActive] ?s = Returns s'"
    using select_commits [OF assms(1, 2), of tr] by blast
  have "ro_suspendHashSync s' = ro_suspendHashSync s"
    using commit_queues [OF s'(3)] by (simp add: queues_def same_inputs_def set_active_def queue_def)
  moreover obtain s4 where "url_effect ?s = Returns s4" "ro_history s' = ro_history s4"
    using commit_active_history [OF _ _ s'(3), of c] assms(2) by (auto simp: set_active_def queue_def)
  then have "ro_history s' = push_hash (getConversationHash (Some c)) (ro_history s)"
    using assms(3, 4) by (auto simp: url_effect_def set_active_def queue_def pushUrlHash_def Let_def split: if_splits)
  ultimately show ?thesis using s' assms(3) by (simp add: push_hash_def)
qed

theorem select_pushes_address_witness:
  "\<exists>s'. router_step id (RSelect (testConversation id)) (empty_router\<lparr>ro_directoryEnabled := True\<rparr>) = Returns s' \<and>
     hi_hash (ro_history s') = ''#test''"
  using select_pushes_address [of "empty_router\<lparr>ro_directoryEnabled := True\<rparr>" "testConversation id" id]
  by (auto simp: empty_router_def getConversationHash_def split: result.splits)

text \<open>
  A stored conversation is read back. What is saved as the last viewed conversation is restored with
  its type, id and name, and with its key for the map and the locate view; the search and the test
  page are not restored.
\<close>

theorem last_viewed_roundtrip:
  "getLastViewedConversation (saveLastViewedConversation c stored) =
     (if conv_type c \<in> {ConvSearch, ConvTest} then None
      else Some \<lparr>conv_type = conv_type c, conv_id = conv_id c, conv_name = conv_name c,
        conv_mapFocusKey = (if conv_type c = ConvMap then conv_mapFocusKey c else None),
        conv_locateKey = (if conv_type c = ConvLocate then conv_locateKey c else None)\<rparr>)"
proof -
  have "string_of (map_option JString v) = v" "string_of (Some (JString x)) = Some x" for v x
    by (cases v) (simp_all add: string_of_def)
  moreover have "readable (Some (conversation_json c))" by (simp add: readable_def conversation_json_def)
  moreover have "conv_type c \<in> set SUPPORTED_TYPES \<longleftrightarrow> conv_type c \<notin> {ConvSearch, ConvTest}"
    by (cases "conv_type c") (simp_all add: SUPPORTED_TYPES_def)
  ultimately show ?thesis
    by (simp add: getLastViewedConversation_def saveLastViewedConversation_def stored_fields supported_type_name)
qed

end
