(* ===== verification/HopResolve.thy ===== *)
theory HopResolve
  imports PathCodec
begin

text \<open>
  The geographic half of \<^verbatim>\<open>utils/pathUtils.ts\<close> and \<^verbatim>\<open>utils/observerHops.ts\<close>: the distance of two points,
  matching hops with contacts, what a hop may be called, and the resolution of a whole path. The
  functions of \<^verbatim>\<open>Math\<close> are those on the real numbers.
\<close>

section \<open>Locations\<close>

definition toRad :: "real \<Rightarrow> real" where
  "toRad deg = deg * pi / 180"

text \<open>\<^verbatim>\<open>Math.atan2\<close>.\<close>

definition atan2 :: "real \<Rightarrow> real \<Rightarrow> real" where
  "atan2 y x =
     (if 0 < x then arctan (y / x)
      else if x < 0 then (if 0 \<le> y then arctan (y / x) + pi else arctan (y / x) - pi)
      else if 0 < y then pi / 2 else if y < 0 then - pi / 2 else 0)"

definition haversine :: "real \<Rightarrow> real \<Rightarrow> real \<Rightarrow> real \<Rightarrow> real" where
  "haversine lat1 lon1 lat2 lon2 =
     (let dLat = toRad (lat2 - lat1); dLon = toRad (lon2 - lon1) in
      sin (dLat / 2) * sin (dLat / 2) + cos (toRad lat1) * cos (toRad lat2) * sin (dLon / 2) * sin (dLon / 2))"

definition calculateDistance :: "real option \<Rightarrow> real option \<Rightarrow> real option \<Rightarrow> real option \<Rightarrow> real option" where
  "calculateDistance lat1 lon1 lat2 lon2 =
     (case (lat1, lon1, lat2, lon2) of
        (Some la1, Some lo1, Some la2, Some lo2) \<Rightarrow>
          let a = haversine la1 lo1 la2 lo2; c = 2 * atan2 (sqrt a) (sqrt (1 - a)) in Some (6371 * c)
      | _ \<Rightarrow> None)"

definition isValidLocation :: "real option \<Rightarrow> real option \<Rightarrow> bool" where
  "isValidLocation lat lon =
     (case (lat, lon) of
        (Some la, Some lo) \<Rightarrow>
          if la < - 90 \<or> 90 < la \<or> lo < - 180 \<or> 180 < lo then False
          else if la = 0 \<and> lo = 0 then False
          else True
      | _ \<Rightarrow> False)"

section \<open>Hops and contacts\<close>

record path_hop =
  hop_prefix :: string
  hop_matches :: "contact list"
  hop_distanceFromPrev :: "real option"

definition MIN_NAMED_HOP_HEX_CHARS :: nat where
  "MIN_NAMED_HOP_HEX_CHARS = 4"

datatype hop_display =
    HexOnly
  | UnknownHop
  | AmbiguousHop "contact list"
  | KnownHop contact
  | DirectoryHop string string

definition resolveLocalHopDisplay :: "path_hop \<Rightarrow> hop_display" where
  "resolveLocalHopDisplay hop =
     (if length (hop_prefix hop) < MIN_NAMED_HOP_HEX_CHARS then HexOnly
      else if length (hop_matches hop) = 0 then UnknownHop
      else if 1 < length (hop_matches hop) then AmbiguousHop (hop_matches hop)
      else
        let contact = hop_matches hop ! 0 in
        if ct_type contact \<noteq> CONTACT_TYPE_REPEATER then UnknownHop else KnownHop contact)"

record directory_hit =
  dh_name :: string
  dh_source :: string
  dh_public_key :: "string option"
  dh_lat :: "real option"
  dh_lon :: "real option"

definition resolveHopDisplay :: "path_hop \<Rightarrow> directory_hit option \<Rightarrow> hop_display" where
  "resolveHopDisplay hop directory =
     (case resolveLocalHopDisplay hop of
        UnknownHop \<Rightarrow>
          (case directory of
             Some d \<Rightarrow>
               if dh_source d = ''corescope'' \<and> dh_name d \<noteq> [] \<and> MIN_NAMED_HOP_HEX_CHARS \<le> length (hop_prefix hop)
               then DirectoryHop (dh_name d) (dh_source d)
               else UnknownHop
           | None \<Rightarrow> UnknownHop)
      | shown \<Rightarrow> shown)"

definition is_directory :: "hop_display \<Rightarrow> bool" where
  "is_directory d = (case d of DirectoryHop _ _ \<Rightarrow> True | _ \<Rightarrow> False)"

definition directoryHopLocation :: "path_hop \<Rightarrow> directory_hit option \<Rightarrow> (real \<times> real \<times> string) option" where
  "directoryHopLocation hop directory =
     (case directory of
        None \<Rightarrow> None
      | Some d \<Rightarrow>
          if \<not> is_directory (resolveHopDisplay hop directory) then None
          else if \<not> isValidLocation (dh_lat d) (dh_lon d) then None
          else Some (the (dh_lat d), the (dh_lon d), dh_name d))"

definition findContactsByPrefix :: "string \<Rightarrow> contact list \<Rightarrow> bool \<Rightarrow> contact list" where
  "findContactsByPrefix prfx contacts repeatersOnly =
     (let normalizedPrefix = to_upper prfx in
      filter (\<lambda>c. if repeatersOnly \<and> ct_type c \<noteq> CONTACT_TYPE_REPEATER then False
                   else starts_with (to_upper (ct_public_key c)) normalizedPrefix) contacts)"

definition compare_distance :: "real \<Rightarrow> real \<Rightarrow> contact \<Rightarrow> contact \<Rightarrow> real" where
  "compare_distance fromLat fromLon a b =
     (case (calculateDistance (Some fromLat) (Some fromLon) (ct_lat a) (ct_lon a),
            calculateDistance (Some fromLat) (Some fromLon) (ct_lat b) (ct_lon b)) of
        (None, None) \<Rightarrow> 0
      | (None, Some _) \<Rightarrow> 1
      | (Some _, None) \<Rightarrow> - 1
      | (Some distA, Some distB) \<Rightarrow> distA - distB)"

definition sortContactsByDistance :: "contact list \<Rightarrow> real option \<Rightarrow> real option \<Rightarrow> contact list" where
  "sortContactsByDistance contacts fromLat fromLon =
     (case (fromLat, fromLon) of
        (Some la, Some lo) \<Rightarrow> js_sort (compare_distance la lo) contacts
      | _ \<Rightarrow> contacts)"

text \<open>\<^verbatim>\<open>utils/observerHops.ts\<close>. A name that is empty gives way to the prefix.\<close>

definition toPathHop :: "string \<Rightarrow> contact list \<Rightarrow> path_hop" where
  "toPathHop prfx contacts =
     (let normalized = to_upper prfx in
      \<lparr>hop_prefix = normalized, hop_matches = findContactsByPrefix normalized contacts True, hop_distanceFromPrev = None\<rparr>)"

definition located :: "contact \<Rightarrow> bool" where
  "located c = isValidLocation (ct_lat c) (ct_lon c)"

definition hopNeedsDirectoryGps :: "path_hop \<Rightarrow> bool" where
  "hopNeedsDirectoryGps hop =
     (case resolveLocalHopDisplay hop of
        UnknownHop \<Rightarrow> True
      | KnownHop c \<Rightarrow> \<not> located c
      | _ \<Rightarrow> False)"

definition directory_place :: "string \<Rightarrow> directory_hit option \<Rightarrow> (real \<times> real \<times> string) option" where
  "directory_place name directory =
     (case directory of
        None \<Rightarrow> None
      | Some d \<Rightarrow>
          if isValidLocation (dh_lat d) (dh_lon d) then Some (the (dh_lat d), the (dh_lon d), name) else None)"

definition hopMapLocation :: "path_hop \<Rightarrow> directory_hit option \<Rightarrow> (real \<times> real \<times> string) option" where
  "hopMapLocation hop directory =
     (case resolveLocalHopDisplay hop of
        KnownHop c \<Rightarrow>
          let name = coalesce (or_null (ct_name c)) (hop_prefix hop) in
          if located c then Some (the (ct_lat c), the (ct_lon c), name) else directory_place name directory
      | HexOnly \<Rightarrow> None
      | AmbiguousHop _ \<Rightarrow> None
      | _ \<Rightarrow> directory_place (coalesce (or_null (map_option dh_name directory)) (hop_prefix hop)) directory)"

definition hopDisplayName :: "path_hop \<Rightarrow> directory_hit option \<Rightarrow> string option" where
  "hopDisplayName hop directory =
     (case resolveHopDisplay hop directory of
        KnownHop c \<Rightarrow> Some (coalesce (or_null (ct_name c)) (hop_prefix hop))
      | DirectoryHop name _ \<Rightarrow> Some name
      | _ \<Rightarrow> None)"

section \<open>Resolving a path\<close>

record sender_info =
  si_name :: string
  si_publicKeyOrPrefix :: string
  si_lat :: "real option"
  si_lon :: "real option"
  si_pathHashMode :: "int option"

record path_end =
  pe_name :: string
  pe_prefix :: string
  pe_lat :: "real option"
  pe_lon :: "real option"
  pe_publicKey :: "string option"

record resolved_path =
  rv_sender :: path_end
  rv_hops :: "path_hop list"
  rv_receiver :: path_end
  rv_totalDistances :: "real list option"
  rv_hasGaps :: bool

text \<open>One hop: its matches, its distance from the previous one, and what the next hop measures from.\<close>

definition resolve_path_hop ::
    "contact list \<Rightarrow> string \<Rightarrow> real option \<times> real option \<times> bool \<Rightarrow> path_hop \<times> real option \<times> real option \<times> bool" where
  "resolve_path_hop contacts prfx prev =
     (case prev of (prevLat, prevLon, prevHopUncertain) \<Rightarrow>
        let sortedMatches = sortContactsByDistance (findContactsByPrefix prfx contacts True) prevLat prevLon;
            currentHasValidLocation = (length sortedMatches = 1 \<and> located (sortedMatches ! 0));
            distanceFromPrev =
              (if \<not> prevHopUncertain \<and> currentHasValidLocation
               then calculateDistance prevLat prevLon (ct_lat (sortedMatches ! 0)) (ct_lon (sortedMatches ! 0))
               else None);
            hop = \<lparr>hop_prefix = prfx, hop_matches = sortedMatches, hop_distanceFromPrev = distanceFromPrev\<rparr>
        in if length sortedMatches = 0 then (hop, None, None, True)
           else if 1 < length sortedMatches then
             if located (sortedMatches ! 0) then (hop, ct_lat (sortedMatches ! 0), ct_lon (sortedMatches ! 0), True)
             else (hop, None, None, True)
           else if located (sortedMatches ! 0) then (hop, ct_lat (sortedMatches ! 0), ct_lon (sortedMatches ! 0), False)
           else (hop, None, None, True))"

fun resolve_path_hops :: "contact list \<Rightarrow> string list \<Rightarrow> real option \<times> real option \<times> bool \<Rightarrow> path_hop list" where
  "resolve_path_hops contacts [] prev = []"
| "resolve_path_hops contacts (p # ps) prev =
     (let (hop, next) = resolve_path_hop contacts p prev in hop # resolve_path_hops contacts ps next)"

text \<open>The place of a hop that is neither unknown nor ambiguous.\<close>

definition unambiguous :: "path_hop \<Rightarrow> bool" where
  "unambiguous hop \<longleftrightarrow> length (hop_matches hop) = 1 \<and> located (hop_matches hop ! 0)"

definition hop_place :: "path_hop \<Rightarrow> real option \<times> real option" where
  "hop_place hop = (ct_lat (hop_matches hop ! 0), ct_lon (hop_matches hop ! 0))"

definition leg :: "real option \<times> real option \<Rightarrow> real option \<times> real option \<Rightarrow> real option" where
  "leg p q = calculateDistance (fst p) (snd p) (fst q) (snd q)"

text \<open>
  The loop over the hops: the previous place, the distance so far (\<open>None\<close> before the first leg) and
  whether the hop before the current index was unambiguous.
\<close>

definition add_leg :: "real option \<Rightarrow> real option \<Rightarrow> real option" where
  "add_leg acc d =
     (case d of None \<Rightarrow> acc | Some x \<Rightarrow> (case acc of None \<Rightarrow> Some (0 + x) | Some t \<Rightarrow> Some (t + x)))"

fun sum_hops ::
    "path_hop list \<Rightarrow> real option \<times> real option \<Rightarrow> real option \<Rightarrow> bool \<Rightarrow> (real option \<times> real option) \<times> real option \<times> bool" where
  "sum_hops [] prev acc lastUnambiguous = (prev, acc, lastUnambiguous)"
| "sum_hops (hop # hops) prev acc lastUnambiguous =
     (if \<not> unambiguous hop then sum_hops hops (None, None) acc False
      else
        sum_hops hops (hop_place hop)
          (if fst prev \<noteq> None \<and> snd prev \<noteq> None then add_leg acc (leg prev (hop_place hop)) else acc) True)"

text \<open>The first unambiguous hop and the hops behind it.\<close>

fun first_located :: "path_hop list \<Rightarrow> (path_hop \<times> path_hop list) option" where
  "first_located [] = None"
| "first_located (hop # hops) = (if unambiguous hop then Some (hop, hops) else first_located hops)"

definition final_leg ::
    "real option \<times> real option \<Rightarrow> (real option \<times> real option) \<times> real option \<times> bool \<Rightarrow> real option" where
  "final_leg receiver summed =
     (case summed of (prev, acc, lastUnambiguous) \<Rightarrow>
        if lastUnambiguous \<and> fst prev \<noteq> None \<and> snd prev \<noteq> None \<and> isValidLocation (fst receiver) (snd receiver)
        then add_leg acc (leg prev receiver) else acc)"

definition calculateTotalDistances ::
    "real option \<times> real option \<Rightarrow> path_hop list \<Rightarrow> real option \<times> real option \<Rightarrow> real list option" where
  "calculateTotalDistances sender hops receiver =
     (if hops = [] then
        if \<not> isValidLocation (fst sender) (snd sender) \<or> \<not> isValidLocation (fst receiver) (snd receiver) then None
        else map_option (\<lambda>d. [d]) (leg sender receiver)
      else
        case (if isValidLocation (fst sender) (snd sender) then Some (sender, hops)
              else map_option (\<lambda>(hop, rest). (hop_place hop, rest)) (first_located hops)) of
          None \<Rightarrow> None
        | Some (start, rest) \<Rightarrow>
            map_option (\<lambda>d. [d]) (final_leg receiver (sum_hops rest start None False)))"

definition resolvePath ::
    "string option \<Rightarrow> sender_info \<Rightarrow> contact list \<Rightarrow> radio_config option \<Rightarrow> int option \<Rightarrow> resolved_path" where
  "resolvePath path sender contacts config hopCount =
     (let hopPrefixes = parsePathHops path hopCount;
          inferredPathHashMode = inferPathHashMode path hopCount;
          mode_or = (\<lambda>m. case normalizePathHashMode m of Some x \<Rightarrow> Some x | None \<Rightarrow> inferredPathHashMode);
          resolvedSender =
            \<lparr>pe_name = si_name sender,
             pe_prefix = formatEndpointPrefix (Some (si_publicKeyOrPrefix sender)) (mode_or (si_pathHashMode sender)),
             pe_lat = si_lat sender, pe_lon = si_lon sender, pe_publicKey = None\<rparr>;
          resolvedReceiver =
            \<lparr>pe_name = coalesce (or_null (map_option rc_name config)) ''Unknown'',
             pe_prefix = formatEndpointPrefix (map_option rc_public_key config) (mode_or (map_option rc_path_hash_mode config)),
             pe_lat = map_option rc_lat config, pe_lon = map_option rc_lon config,
             pe_publicKey = map_option rc_public_key config\<rparr>;
          hops = resolve_path_hops contacts hopPrefixes
            (si_lat sender, si_lon sender, \<not> isValidLocation (si_lat sender) (si_lon sender))
      in \<lparr>rv_sender = resolvedSender, rv_hops = hops, rv_receiver = resolvedReceiver,
          rv_totalDistances =
            calculateTotalDistances (pe_lat resolvedSender, pe_lon resolvedSender) hops
              (pe_lat resolvedReceiver, pe_lon resolvedReceiver),
          rv_hasGaps =
            (\<not> isValidLocation (pe_lat resolvedSender) (pe_lon resolvedSender) \<or>
             \<not> isValidLocation (pe_lat resolvedReceiver) (pe_lon resolvedReceiver) \<or>
             list_ex (\<lambda>hop. \<not> unambiguous hop) hops)\<rparr>)"

section \<open>Distances\<close>

definition central_cosine :: "real \<Rightarrow> real \<Rightarrow> real \<Rightarrow> real \<Rightarrow> real" where
  "central_cosine lat1 lon1 lat2 lon2 =
     sin (toRad lat1) * sin (toRad lat2) + cos (toRad lat1) * cos (toRad lat2) * cos (toRad lon2 - toRad lon1)"

lemma half_angle: "sin (x / 2) * sin (x / 2) = (1 - cos x) / 2" for x :: real
  using cos_double_sin [of "x / 2"] by (simp add: power2_eq_square)

lemma toRad_diff: "toRad (y - x) = toRad y - toRad x"
  by (simp add: toRad_def diff_divide_distrib left_diff_distrib)

lemma haversine_cosine: "haversine lat1 lon1 lat2 lon2 = (1 - central_cosine lat1 lon1 lat2 lon2) / 2"
  by (simp add: haversine_def central_cosine_def Let_def mult.assoc half_angle toRad_diff cos_diff field_simps)

lemma central_cosine_bound: "\<bar>central_cosine lat1 lon1 lat2 lon2\<bar> \<le> 1"
proof -
  let ?a = "toRad lat1" and ?b = "toRad lat2" and ?t = "cos (toRad lon2 - toRad lon1)"
  have prod: "2 * \<bar>x * y\<bar> \<le> x\<^sup>2 + y\<^sup>2" for x y :: real
    using zero_le_power2 [of "\<bar>x\<bar> - \<bar>y\<bar>"] by (simp add: power2_diff abs_mult)
  have "\<bar>cos ?a * cos ?b * ?t\<bar> \<le> \<bar>cos ?a * cos ?b\<bar>" by (simp add: abs_mult mult_left_le)
  then have "\<bar>central_cosine lat1 lon1 lat2 lon2\<bar> \<le> \<bar>sin ?a * sin ?b\<bar> + \<bar>cos ?a * cos ?b\<bar>"
    unfolding central_cosine_def by linarith
  also have "\<dots> \<le> 1"
  proof -
    have "s + c \<le> 1" if "2 * s \<le> p + q" "2 * c \<le> p' + q'" "p + p' = 1" "q + q' = 1" for s c p q p' q' :: real
      using that by linarith
    then show ?thesis using prod sin_cos_squared_add by blast
  qed
  finally show ?thesis .
qed

lemma half_angle_arccos:
  assumes "0 \<le> a" and "a \<le> 1"
  shows "2 * atan2 (sqrt a) (sqrt (1 - a)) = arccos (1 - 2 * a)"
proof (cases "a = 1")
  case True
  then show ?thesis by (simp add: atan2_def)
next
  case False
  then have less: "a < 1" using assms by simp
  let ?t = "sqrt a / sqrt (1 - a)"
  have t2: "1 + ?t\<^sup>2 = 1 / (1 - a)" using less assms by (simp add: power_divide field_simps)
  have "cos (2 * arctan ?t) = 2 * (cos (arctan ?t))\<^sup>2 - 1" by (rule cos_double_cos)
  also have "(cos (arctan ?t))\<^sup>2 = 1 - a" using t2 less by (simp add: cos_arctan power_divide)
  finally have "cos (2 * arctan ?t) = 1 - 2 * a" by simp
  moreover have "0 \<le> arctan ?t" "arctan ?t < pi / 2" using assms arctan_ubound [of ?t] by simp_all
  then have "arccos (cos (2 * arctan ?t)) = 2 * arctan ?t" by (intro arccos_cos) simp_all
  ultimately show ?thesis using less by (simp add: atan2_def)
qed

lemma distance_arccos:
  "calculateDistance (Some lat1) (Some lon1) (Some lat2) (Some lon2) =
     Some (6371 * arccos (central_cosine lat1 lon1 lat2 lon2))"
proof -
  let ?c = "central_cosine lat1 lon1 lat2 lon2"
  have "0 \<le> (1 - ?c) / 2" "(1 - ?c) / 2 \<le> 1" using central_cosine_bound [of lat1 lon1 lat2 lon2] by auto
  from half_angle_arccos [OF this] have "2 * atan2 (sqrt ((1 - ?c) / 2)) (sqrt (1 - (1 - ?c) / 2)) = arccos ?c"
    by (simp add: field_simps)
  then show ?thesis by (simp add: calculateDistance_def haversine_cosine Let_def)
qed

lemma central_cosine_sym: "central_cosine lat1 lon1 lat2 lon2 = central_cosine lat2 lon2 lat1 lon1"
  by (simp add: central_cosine_def cos_diff mult.commute)

section \<open>The hops of a path\<close>

text \<open>The place of a hop, when it is certain.\<close>

definition certain :: "path_hop \<Rightarrow> (real \<times> real) option" where
  "certain hop =
     (if unambiguous hop then Some (the (ct_lat (hop_matches hop ! 0)), the (ct_lon (hop_matches hop ! 0))) else None)"

definition valid_place :: "real option \<Rightarrow> real option \<Rightarrow> (real \<times> real) option" where
  "valid_place lat lon = (if isValidLocation lat lon then Some (the lat, the lon) else None)"

definition distance :: "real \<times> real \<Rightarrow> real \<times> real \<Rightarrow> real" where
  "distance p q = 6371 * arccos (central_cosine (fst p) (snd p) (fst q) (snd q))"

definition step_distance :: "(real \<times> real) option \<Rightarrow> (real \<times> real) option \<Rightarrow> real option" where
  "step_distance p q = (case (p, q) of (Some a, Some b) \<Rightarrow> Some (distance a b) | _ \<Rightarrow> None)"

lemma valid_Some: "isValidLocation lat lon \<Longrightarrow> lat = Some (the lat) \<and> lon = Some (the lon)"
  by (auto simp: isValidLocation_def split: option.splits)

lemma valid_distance:
  "isValidLocation la lo \<Longrightarrow> isValidLocation la' lo' \<Longrightarrow>
   calculateDistance la lo la' lo' = step_distance (valid_place la lo) (valid_place la' lo')"
  using distance_arccos valid_Some by (simp add: step_distance_def valid_place_def distance_def) metis

text \<open>What the next hop measures from stands for a certain place exactly when it is not uncertain.\<close>

definition stands_for :: "real option \<times> real option \<times> bool \<Rightarrow> (real \<times> real) option \<Rightarrow> bool" where
  "stands_for prev p \<longleftrightarrow>
     (case prev of (lat, lon, uncertain) \<Rightarrow>
        (if uncertain then p = None else isValidLocation lat lon \<and> p = valid_place lat lon))"

lemma resolve_hop_step:
  assumes "resolve_path_hop contacts prfx prev = (hop, rest)" and "stands_for prev p"
  shows "hop_distanceFromPrev hop = step_distance p (certain hop)" and "stands_for rest (certain hop)"
proof -
  obtain lat lon u where prev: "prev = (lat, lon, u)" by (cases prev)
  define sm where "sm = sortContactsByDistance (findContactsByPrefix prfx contacts True) lat lon"
  have "length sm = Suc 0" if "sm \<noteq> []" "\<not> Suc 0 < length sm" using that by (cases sm) auto
  then show "hop_distanceFromPrev hop = step_distance p (certain hop)" and "stands_for rest (certain hop)"
    using assms
    by (auto simp: resolve_path_hop_def prev Let_def sm_def [symmetric] stands_for_def certain_def unambiguous_def located_def
        valid_place_def step_distance_def valid_distance split: if_splits option.split)
qed

lemma resolve_hops_distances:
  "stands_for prev p \<Longrightarrow> hops = resolve_path_hops contacts ps prev \<Longrightarrow>
   map hop_distanceFromPrev hops = map2 step_distance (p # map certain hops) (map certain hops)"
proof (induction ps arbitrary: prev p hops)
  case (Cons a ps)
  obtain hop rest where r: "resolve_path_hop contacts a prev = (hop, rest)" by (cases "resolve_path_hop contacts a prev")
  show ?case using resolve_hop_step [OF r Cons.prems(1)] Cons.IH Cons.prems(2) r by simp
qed simp

lemma mset_sortContacts [simp]: "mset (sortContactsByDistance cs lat lon) = mset cs"
  by (simp add: sortContactsByDistance_def split: option.split)

lemma resolve_hop_matches:
  assumes "resolve_path_hop contacts prfx prev = (hop, rest)"
  shows "hop_prefix hop = prfx \<and> mset (hop_matches hop) = mset (findContactsByPrefix prfx contacts True)"
proof -
  obtain lat lon u where prev: "prev = (lat, lon, u)" by (cases prev)
  define sm where "sm = sortContactsByDistance (findContactsByPrefix prfx contacts True) lat lon"
  have "hop_prefix hop = prfx \<and> hop_matches hop = sm"
    using assms by (auto simp: resolve_path_hop_def prev Let_def sm_def [symmetric] split: if_splits)
  then show ?thesis by (simp add: sm_def)
qed

lemma resolve_hops_matches:
  "map hop_prefix (resolve_path_hops contacts ps prev) = ps \<and>
   (\<forall>hop \<in> set (resolve_path_hops contacts ps prev).
      mset (hop_matches hop) = mset (findContactsByPrefix (hop_prefix hop) contacts True))"
proof (induction ps arbitrary: prev)
  case (Cons a ps)
  obtain hop rest where r: "resolve_path_hop contacts a prev = (hop, rest)" by (cases "resolve_path_hop contacts a prev")
  show ?case using resolve_hop_matches [OF r] Cons.IH [of rest] r by auto
qed simp

section \<open>The total\<close>

definition the_sum :: "real list \<Rightarrow> real option" where
  "the_sum ds = (if ds = [] then None else Some (sum_list ds))"

text \<open>The legs between neighbours that both are certain.\<close>

fun legs :: "(real \<times> real) option list \<Rightarrow> real list" where
  "legs (Some a # Some b # ps) = distance a b # legs (Some b # ps)"
| "legs (_ # ps) = legs ps"
| "legs [] = []"

lemma add_leg_sum: "add_leg (the_sum ds) (Some d) = the_sum (ds @ [d])"
  by (simp add: add_leg_def the_sum_def)

lemma hop_place_certain:
  "unambiguous hop \<Longrightarrow> isValidLocation (fst (hop_place hop)) (snd (hop_place hop)) \<and>
     certain hop = valid_place (fst (hop_place hop)) (snd (hop_place hop))"
  by (simp add: unambiguous_def hop_place_def certain_def valid_place_def located_def)
lemma legs_Cons: "legs (p # q # ps) = (case step_distance p q of None \<Rightarrow> [] | Some d \<Rightarrow> [d]) @ legs (q # ps)"
  by (cases p; cases q) (simp_all add: step_distance_def)

lemma legs_single [simp]: "legs [p] = []"
  by (cases p) simp_all

lemma legs_snoc:
  "xs \<noteq> [] \<Longrightarrow> legs (xs @ [q]) = legs xs @ (case step_distance (last xs) q of None \<Rightarrow> [] | Some d \<Rightarrow> [d])"
proof (induction xs rule: induct_list012)
  case (3 x y zs)
  then show ?case by (simp add: legs_Cons)
qed (simp_all add: legs_Cons)

text \<open>The previous place of the summing loop stands for a certain place, or is missing.\<close>

definition place_of :: "real option \<times> real option \<Rightarrow> (real \<times> real) option \<Rightarrow> bool" where
  "place_of prev p \<longleftrightarrow>
     (if fst prev \<noteq> None \<and> snd prev \<noteq> None
      then isValidLocation (fst prev) (snd prev) \<and> p = valid_place (fst prev) (snd prev)
      else p = None)"

lemma place_of_valid: "isValidLocation (fst q) (snd q) \<Longrightarrow> place_of q (valid_place (fst q) (snd q))"
  using valid_Some by (auto simp: place_of_def valid_place_def isValidLocation_def split: option.splits)

lemma add_leg_place:
  assumes "place_of prev p" and "isValidLocation (fst q) (snd q)"
  shows "(if fst prev \<noteq> None \<and> snd prev \<noteq> None then add_leg (the_sum ds) (leg prev q) else the_sum ds) =
     the_sum (ds @ (case step_distance p (valid_place (fst q) (snd q)) of None \<Rightarrow> [] | Some d \<Rightarrow> [d]))"
proof (cases "fst prev \<noteq> None \<and> snd prev \<noteq> None")
  case True
  then have prev: "isValidLocation (fst prev) (snd prev)" "p = valid_place (fst prev) (snd prev)"
    using assms(1) by (simp_all add: place_of_def)
  have "leg prev q = step_distance p (valid_place (fst q) (snd q))"
    using valid_distance [OF prev(1) assms(2)] prev(2) by (simp add: leg_def)
  moreover have "step_distance p (valid_place (fst q) (snd q)) \<noteq> None"
    using prev assms(2) by (simp add: step_distance_def valid_place_def)
  ultimately show ?thesis using True add_leg_sum by auto
next
  case False
  then show ?thesis using assms(1) by (auto simp: place_of_def step_distance_def)
qed

lemma sum_hops_legs:
  "place_of prev p \<Longrightarrow>
   \<exists>prev'. sum_hops hops prev (the_sum ds) flag =
     (prev', the_sum (ds @ legs (p # map certain hops)), if hops = [] then flag else certain (last hops) \<noteq> None) \<and>
   place_of prev' (last (p # map certain hops))"
proof (induction hops arbitrary: prev p ds flag)
  case (Cons hop hops)
  show ?case
  proof (cases "unambiguous hop")
    case True
    note q = hop_place_certain [OF True]
    let ?ds = "ds @ (case step_distance p (certain hop) of None \<Rightarrow> [] | Some d \<Rightarrow> [d])"
    have "certain hop \<noteq> None" using True by (simp add: certain_def)
    moreover have "place_of (hop_place hop) (certain hop)" using q place_of_valid by metis
    from Cons.IH [OF this, of ?ds True] calculation show ?thesis
      using True q add_leg_place [OF Cons.prems, of "hop_place hop" ds] by (auto simp: legs_Cons)
  next
    case False
    then have "certain hop = None" by (simp add: certain_def)
    moreover have "place_of (None, None) None" by (simp add: place_of_def)
    from Cons.IH [OF this, of ds False] False calculation show ?thesis
      by (auto simp: legs_Cons step_distance_def split: option.splits)
  qed
qed simp

lemma sum_to_receiver:
  assumes "place_of start p" and "rest \<noteq> []"
  shows "final_leg r (sum_hops rest start None False) =
    the_sum (legs (p # map certain rest @ [valid_place (fst r) (snd r)]))"
proof -
  let ?r = "valid_place (fst r) (snd r)" and ?ds = "legs (p # map certain rest)"
  have last: "last (p # map certain rest) = certain (last rest)" using assms(2) by (simp add: last_map)
  obtain prev where s: "sum_hops rest start None False = (prev, the_sum ?ds, certain (last rest) \<noteq> None)"
    and prev: "place_of prev (certain (last rest))"
    using sum_hops_legs [OF assms(1), of rest "[]" False] assms(2) last by (auto simp: the_sum_def)
  have legs: "legs ((p # map certain rest) @ [?r]) =
      ?ds @ (case step_distance (certain (last rest)) ?r of None \<Rightarrow> [] | Some d \<Rightarrow> [d])"
    using legs_snoc [of "p # map certain rest" ?r] last by simp
  show ?thesis
  proof (cases "certain (last rest) \<noteq> None \<and> isValidLocation (fst r) (snd r)")
    case True
    then show ?thesis using add_leg_place [OF prev, of r ?ds] s prev legs
      by (auto simp: final_leg_def place_of_def split: if_splits)
  next
    case False
    then have "step_distance (certain (last rest)) ?r = None"
      by (auto simp: step_distance_def valid_place_def split: option.splits)
    then show ?thesis using False s legs by (auto simp: final_leg_def)
  qed
qed

lemma first_located_legs:
  "case first_located hops of
     None \<Rightarrow> list_all (\<lambda>hop. certain hop = None) hops
   | Some (hop, rest) \<Rightarrow>
       unambiguous hop \<and> (\<exists>skipped. hops = skipped @ hop # rest \<and> list_all (\<lambda>h. \<not> unambiguous h) skipped) \<and>
       legs (None # map certain hops @ ps) = legs (certain hop # map certain rest @ ps)"
proof (induction hops)
  case (Cons h hops)
  show ?case
  proof (cases "unambiguous h")
    case False
    then have "certain h = None" by (simp add: certain_def)
    then show ?thesis using Cons False
      by (auto split: option.splits intro: exI [where x = "h # _"])
  qed (auto simp: certain_def)
qed simp

lemma legs_none: "list_all (\<lambda>hop. certain hop = None) hops \<Longrightarrow> legs (None # map certain hops @ [r]) = []"
  by (induction hops) (cases r; simp)+

lemma total_legs:
  assumes "isValidLocation (fst s) (snd s) \<or> list_ex unambiguous (butlast hops) \<or> \<not> list_ex unambiguous hops"
  shows "calculateTotalDistances s hops r =
     map_option (\<lambda>d. [d]) (the_sum (legs (valid_place (fst s) (snd s) # map certain hops @ [valid_place (fst r) (snd r)])))"
proof (cases "hops = []")
  case True
  then show ?thesis
    using valid_distance [of "fst s" "snd s" "fst r" "snd r"]
    by (auto simp: calculateTotalDistances_def leg_def legs_Cons the_sum_def step_distance_def valid_place_def)
next
  case hops: False
  show ?thesis
  proof (cases "isValidLocation (fst s) (snd s)")
    case True
    then show ?thesis using hops sum_to_receiver [OF place_of_valid [OF True] hops, of r]
      by (simp add: calculateTotalDistances_def)
  next
    case invalid: False
    show ?thesis
    proof (cases "first_located hops")
      case None
      then show ?thesis using invalid hops first_located_legs [of hops] legs_none [of hops]
        by (simp add: calculateTotalDistances_def valid_place_def the_sum_def)
    next
      case (Some f)
      obtain hop rest where f: "f = (hop, rest)" by (cases f)
      have first: "unambiguous hop" "legs (None # map certain hops @ ps) = legs (certain hop # map certain rest @ ps)"
        "\<exists>skipped. hops = skipped @ hop # rest \<and> list_all (\<lambda>h. \<not> unambiguous h) skipped" for ps
        using first_located_legs [of hops ps] Some f by auto
      then have "rest \<noteq> []" using assms invalid by (auto simp: list_all_iff list_ex_iff)
      moreover have "place_of (hop_place hop) (certain hop)"
        using hop_place_certain [OF first(1)] place_of_valid by metis
      ultimately show ?thesis
        using sum_to_receiver [of "hop_place hop" "certain hop" rest r] first(2) [of "[valid_place (fst r) (snd r)]"]
          invalid hops Some f
        by (simp add: calculateTotalDistances_def valid_place_def)
    qed
  qed
qed
section \<open>Properties\<close>

text \<open>
  C30: The distance is the great-circle distance. For any two points the haversine formula with
  \<^verbatim>\<open>atan2\<close> gives the radius of the Earth times the angle of the spherical law of cosines; it lies
  between zero and half the circumference, does not depend on the direction, and is zero from a
  point to itself.
\<close>

theorem distance_is_great_circle:
  "\<exists>d. calculateDistance (Some lat1) (Some lon1) (Some lat2) (Some lon2) = Some d \<and>
     calculateDistance (Some lat2) (Some lon2) (Some lat1) (Some lon1) = Some d \<and>
     d = 6371 * arccos (sin (toRad lat1) * sin (toRad lat2) +
           cos (toRad lat1) * cos (toRad lat2) * cos (toRad lon2 - toRad lon1)) \<and>
     0 \<le> d \<and> d \<le> 6371 * pi \<and>
     calculateDistance (Some lat1) (Some lon1) (Some lat1) (Some lon1) = Some 0"
proof -
  let ?c = "central_cosine lat1 lon1 lat2 lon2"
  have "- 1 \<le> ?c" "?c \<le> 1" using central_cosine_bound [of lat1 lon1 lat2 lon2] by auto
  then have "0 \<le> arccos ?c" "arccos ?c \<le> pi" by (simp_all add: arccos_lbound arccos_ubound)
  moreover have "central_cosine lat1 lon1 lat1 lon1 = 1"
    using sin_cos_squared_add [of "toRad lat1"] by (simp add: central_cosine_def power2_eq_square)
  ultimately show ?thesis
    unfolding distance_arccos central_cosine_sym [of lat2 lon2 lat1 lon1] central_cosine_def [symmetric] by simp
qed

text \<open>
  A resolved path shows only what is certain. Its hops are the hops of the path in order, each
  with exactly the repeaters whose key starts with it; a hop carries a distance exactly when it and
  its predecessor (the sender for the first one) each stand for one located node, and then the
  distance of the two; and the path is marked incomplete exactly when some point of it is not certain.
\<close>

theorem resolved_path_exact:
  "let path_of = resolvePath path sender contacts config hopCount; hops = rv_hops path_of;
       points = valid_place (si_lat sender) (si_lon sender) # map certain hops in
     map hop_prefix hops = parsePathHops path hopCount \<and>
     list_all (\<lambda>hop. mset (hop_matches hop) =
       mset (filter (\<lambda>c. ct_type c = 2 \<and> take (length (hop_prefix hop)) (to_upper (ct_public_key c)) = to_upper (hop_prefix hop))
         contacts)) hops \<and>
     map hop_distanceFromPrev hops = map2 step_distance points (map certain hops) \<and>
     (rv_hasGaps path_of \<longleftrightarrow>
        None \<in> set (points @ [valid_place (map_option rc_lat config) (map_option rc_lon config)]))"
proof -
  let ?start = "(si_lat sender, si_lon sender, \<not> isValidLocation (si_lat sender) (si_lon sender))"
  let ?hops = "resolve_path_hops contacts (parsePathHops path hopCount) ?start"
  have "stands_for ?start (valid_place (si_lat sender) (si_lon sender))"
    by (simp add: stands_for_def valid_place_def)
  from resolve_hops_distances [OF this, of ?hops contacts] have
    "map hop_distanceFromPrev ?hops =
       map2 step_distance (valid_place (si_lat sender) (si_lon sender) # map certain ?hops) (map certain ?hops)" by simp
  moreover have "findContactsByPrefix p contacts True =
      filter (\<lambda>c. ct_type c = 2 \<and> take (length p) (to_upper (ct_public_key c)) = to_upper p) contacts" for p
    by (auto simp: findContactsByPrefix_def Let_def starts_with_def CONTACT_TYPE_REPEATER_def to_upper_def
        intro: filter_cong)
  moreover have "list_ex (\<lambda>hop. \<not> unambiguous hop) ?hops \<longleftrightarrow> None \<in> set (map certain ?hops)"
    by (auto simp: list_ex_iff certain_def split: if_splits)
  ultimately show ?thesis
    using resolve_hops_matches [of contacts "parsePathHops path hopCount" ?start]
    by (auto simp: resolvePath_def Let_def list_all_iff valid_place_def)
qed

text \<open>
  The total is the sum of the certain legs. When the sender is located, or some hop before the last
  one is, or none at all, the total of a resolved path is the sum of the distances between
  neighbouring points (sender, hops, receiver) that are both certain, and absent when there are none.
\<close>

theorem total_distance_is_leg_sum:
  assumes "isValidLocation (si_lat sender) (si_lon sender) \<or>
     list_ex unambiguous (butlast (rv_hops (resolvePath path sender contacts config hopCount))) \<or>
     \<not> list_ex unambiguous (rv_hops (resolvePath path sender contacts config hopCount))"
  shows "rv_totalDistances (resolvePath path sender contacts config hopCount) =
     (let ds = legs (valid_place (si_lat sender) (si_lon sender) #
                 map certain (rv_hops (resolvePath path sender contacts config hopCount)) @
                 [valid_place (map_option rc_lat config) (map_option rc_lon config)])
      in if ds = [] then None else Some [sum_list ds])"
  using total_legs [of "(si_lat sender, si_lon sender)" "rv_hops (resolvePath path sender contacts config hopCount)"
      "(map_option rc_lat config, map_option rc_lon config)"] assms
  by (simp add: resolvePath_def Let_def the_sum_def)

definition sample_sender :: "real option \<Rightarrow> real option \<Rightarrow> sender_info" where
  "sample_sender lat lon =
     \<lparr>si_name = ''A'', si_publicKeyOrPrefix = ''aa'', si_lat = lat, si_lon = lon, si_pathHashMode = None\<rparr>"

definition sample_config :: radio_config where
  "sample_config =
     \<lparr>rc_public_key = ''bb'', rc_name = ''B'', rc_lat = 48, rc_lon = 2, rc_path_hash_mode = 0\<rparr>"

theorem total_distance_is_leg_sum_witness:
  "rv_totalDistances (resolvePath None (sample_sender (Some 45) (Some 5)) [] (Some sample_config) None) =
     Some [distance (45, 5) (48, 2)]"
proof -
  have "isValidLocation (Some 45) (Some 5)" "isValidLocation (Some 48) (Some 2)" by (simp_all add: isValidLocation_def)
  moreover have "parsePathHops None None = []" by code_simp
  ultimately show ?thesis
    using total_distance_is_leg_sum [of "sample_sender (Some 45) (Some 5)" None "[]" "Some sample_config" None]
    by (simp add: sample_sender_def sample_config_def resolvePath_def valid_place_def legs_Cons step_distance_def Let_def)
qed

text \<open>
  Without a located sender the leg from the last hop is lost: one hop and the receiver are both
  located, and yet there is no total.
\<close>

lemma last_leg_lost:
  assumes "unambiguous hop" and "isValidLocation (fst r) (snd r)"
  shows "calculateTotalDistances (None, None) [hop] r = None" and
    "legs [None, certain hop, valid_place (fst r) (snd r)] \<noteq> []"
  using assms
  by (simp_all add: calculateTotalDistances_def isValidLocation_def final_leg_def legs_Cons step_distance_def certain_def
      valid_place_def)

text \<open>A hop is named only from two bytes on, after its only match or after the directory.\<close>

lemma hop_name_sound:
  assumes "hopDisplayName hop directory = Some name"
  shows "4 \<le> length (hop_prefix hop)" and
    "(\<exists>c. hop_matches hop = [c] \<and> ct_type c = CONTACT_TYPE_REPEATER \<and> name = coalesce (or_null (ct_name c)) (hop_prefix hop)) \<or>
     (\<exists>d. directory = Some d \<and> name = dh_name d \<and> length (hop_matches hop) \<le> 1)"
  using assms
  by (cases "hop_matches hop" rule: remdups_adj.cases;
      auto simp: hopDisplayName_def resolveHopDisplay_def resolveLocalHopDisplay_def MIN_NAMED_HOP_HEX_CHARS_def Let_def
        split: if_splits option.splits)+

end
