(* ===== verification/LivePackets.thy ===== *)
theory LivePackets
  imports HopResolve Json Visualizer
begin

text \<open>
  \<^verbatim>\<open>utils/livePackets.ts\<close>: packets of the live map. Frames of the community feed are checked, packets of
  the own radio decoded, and both become observations with waypoints on the map; the origin of a packet
  is looked up among the pins, and the rays from it are planned.

  A frame is the value \<^verbatim>\<open>JSON.parse\<close> makes. The positions of a frame are the rational numbers of the
  text; those on the map are real numbers. \<open>show_num\<close> prints a number, \<open>code\<close> is the number the decoder
  package gives to a payload type.
\<close>

definition LIVE_DIM_AFTER_MS :: int where
  "LIVE_DIM_AFTER_MS = 5 * 60 * 1000"

definition LIVE_ORIGIN_ANCHOR_KM :: real where
  "LIVE_ORIGIN_ANCHOR_KM = 20"

definition LIVE_COMMUNITY_SCHEMA :: rat where
  "LIVE_COMMUNITY_SCHEMA = 2"

section \<open>The saved camera\<close>

record map_camera =
  mc_lat :: rat
  mc_lon :: rat
  mc_zoom :: rat

definition number_of :: "json option \<Rightarrow> rat option" where
  "number_of v = (case v of Some (JNumber x) \<Rightarrow> Some x | _ \<Rightarrow> None)"

definition text_of :: "json option \<Rightarrow> string option" where
  "text_of v = (case v of Some (JString s) \<Rightarrow> Some s | _ \<Rightarrow> None)"

definition readSavedMapCamera :: "json option \<Rightarrow> map_camera option" where
  "readSavedMapCamera stored =
     (case (number_of (field ''lat'' stored), number_of (field ''lon'' stored), number_of (field ''zoom'' stored)) of
        (Some lat, Some lon, Some zoom) \<Rightarrow> Some \<lparr>mc_lat = lat, mc_lon = lon, mc_zoom = zoom\<rparr>
      | _ \<Rightarrow> None)"

definition writeSavedMapCamera :: "map_camera \<Rightarrow> json option" where
  "writeSavedMapCamera c =
     Some (JObject [(''lat'', JNumber (mc_lat c)), (''lon'', JNumber (mc_lon c)), (''zoom'', JNumber (mc_zoom c))])"

section \<open>Observations\<close>

datatype live_source = LocalFeed | CommunityFeed
datatype hop_confidence = Exact | Probable | Unresolved
datatype route_kind = FloodKind | DirectKind | UnknownKind
datatype point_kind = HopPoint | EarPoint | OriginPoint
datatype ear_source = EarAdvert | EarIata | EarLocal

record live_waypoint =
  wp_lat :: real
  wp_lon :: real
  wp_token :: string
  wp_kind :: point_kind
  wp_confidence :: hop_confidence
  wp_reason :: "string option"
  wp_label :: "string option"
  wp_pubkey :: "string option"

record live_ear =
  ear_lat :: real
  ear_lon :: real
  ear_source :: ear_source

record live_observation =
  lo_id :: string
  lo_hash8 :: string
  lo_packetHash :: "string option"
  lo_source :: live_source
  lo_type :: string
  lo_snr :: "real option"
  lo_iata :: "string option"
  lo_t :: real
  lo_earId :: string
  lo_ear :: "live_ear option"
  lo_waypoints :: "live_waypoint list"
  lo_routeKind :: route_kind
  lo_advertPubkey :: "string option"
  lo_srcHash :: "string option"
  lo_originGps :: "(real \<times> real \<times> string option) option"

definition lower_letter :: "char \<Rightarrow> bool" where
  "lower_letter c = (let n = of_char c :: nat in 97 \<le> n \<and> n \<le> 122)"

definition digit :: "char \<Rightarrow> bool" where
  "digit c = (let n = of_char c :: nat in 48 \<le> n \<and> n \<le> 57)"

definition isCommunityPacketType :: "string \<Rightarrow> bool" where
  "isCommunityPacketType s =
     (case s of
        [] \<Rightarrow> False
      | c # cs \<Rightarrow> lower_letter c \<and> list_all (\<lambda>d. lower_letter d \<or> digit d \<or> d = CHR ''_'') cs)"

definition read_confidence :: "json option \<Rightarrow> hop_confidence option" where
  "read_confidence v =
     (case text_of v of
        Some s \<Rightarrow>
          if s = ''exact'' then Some Exact else if s = ''probable'' then Some Probable
          else if s = ''unresolved'' then Some Unresolved else None
      | None \<Rightarrow> None)"

definition snrWeight :: "real option \<Rightarrow> real" where
  "snrWeight snr = (case snr of None \<Rightarrow> 0.65 | Some x \<Rightarrow> min 1 (max 0.35 ((x + 20) / 30)))"

definition liveOpacity :: "live_source \<Rightarrow> real option \<Rightarrow> bool \<Rightarrow> real" where
  "liveOpacity source snr hasLocalTwin =
     (let weight = snrWeight snr in
      case source of
        LocalFeed \<Rightarrow> min 1 ((if hasLocalTwin then 0.98 else 0.9) * weight)
      | CommunityFeed \<Rightarrow> (if hasLocalTwin then 0.32 else 0.5) * weight)"

definition hopTokenHexLength :: "string \<Rightarrow> nat" where
  "hopTokenHexLength token = length (filter (\<lambda>c. \<not> js_space c) (js_trim token))"

definition isOneByteHopToken :: "string \<Rightarrow> bool" where
  "isOneByteHopToken token \<longleftrightarrow> hopTokenHexLength token < MIN_NAMED_HOP_HEX_CHARS"

definition uniqueGpsContact :: "string \<Rightarrow> (string, contact list) jsmap \<Rightarrow> contact option" where
  "uniqueGpsContact token prefixIndex =
     (if isOneByteHopToken token then None
      else
        case jm_get prefixIndex (to_lower (js_trim token)) of
          Some [c] \<Rightarrow> if located c then Some c else None
        | _ \<Rightarrow> None)"

definition index_prefix :: "contact \<Rightarrow> nat \<Rightarrow> (string, contact list) jsmap \<Rightarrow> (string, contact list) jsmap" where
  "index_prefix c len index =
     (let key = to_lower (ct_public_key c) in
      if length key < len then index
      else
        let prfx = js_slice 0 len key in
        jm_set prfx (case jm_get index prfx of Some bucket \<Rightarrow> bucket @ [c] | None \<Rightarrow> [c]) index)"

definition buildPrefixIndex :: "contact list \<Rightarrow> (string, contact list) jsmap" where
  "buildPrefixIndex contacts = fold (\<lambda>c. fold (index_prefix c) [4, 6, 8, 12]) contacts []"

definition packetTypeFromRaw :: "int \<Rightarrow> string" where
  "packetTypeFromRaw payloadType =
     coalesce (map_of [(0, ''req''), (1, ''response''), (2, ''text''), (3, ''ack''), (4, ''advert''), (5, ''grp_txt''),
       (6, ''grp_data''), (7, ''anon_req''), (8, ''path''), (9, ''trace''), (10, ''multipart''), (11, ''control''),
       (15, ''raw_custom'')] payloadType) ''other''"

definition lower_hex :: "char \<Rightarrow> bool" where
  "lower_hex c = (let n = of_char c :: nat in 48 \<le> n \<and> n \<le> 57 \<or> 97 \<le> n \<and> n \<le> 102)"

definition normalizePacketHash16 :: "json option \<Rightarrow> string option" where
  "normalizePacketHash16 v =
     (case text_of v of
        None \<Rightarrow> None
      | Some s \<Rightarrow>
          let hex = to_lower (js_trim s) in
          if \<not> (16 \<le> length hex \<and> list_all lower_hex hex) then None
          else
            let sliced = js_slice 0 16 hex in
            if sliced = replicate 16 CHR ''0'' then None else Some sliced)"

definition packetHashFromRaw :: "raw_packet \<Rightarrow> string option" where
  "packetHashFromRaw packet = normalizePacketHash16 (map_option JString (rp_packet_hash packet))"

definition firstHopWaypoint :: "live_observation \<Rightarrow> live_waypoint option" where
  "firstHopWaypoint obs =
     find (\<lambda>p. wp_kind p = HopPoint \<and> wp_confidence p \<noteq> Unresolved \<and> isValidLocation (Some (wp_lat p)) (Some (wp_lon p)))
       (lo_waypoints obs)"

definition observationBucketKey :: "live_observation \<Rightarrow> string" where
  "observationBucketKey obs = coalesce (lo_packetHash obs) (lo_hash8 obs)"

definition observationCoalesceKey :: "live_observation \<Rightarrow> string" where
  "observationCoalesceKey obs =
     (let hopToken = (case firstHopWaypoint obs of Some p \<Rightarrow> to_lower (js_trim (wp_token p)) | None \<Rightarrow> []) in
      observationBucketKey obs @ '':'' @ hopToken @ '':'' @ lo_earId obs)"

definition observationHasLocalTwin :: "live_observation \<Rightarrow> string list \<Rightarrow> bool" where
  "observationHasLocalTwin obs localKeys =
     (case or_null (lo_packetHash obs) of
        Some h \<Rightarrow> h \<in> set localKeys
      | None \<Rightarrow> lo_hash8 obs \<in> set localKeys)"

definition hash8FromRaw :: "decoder \<Rightarrow> raw_packet \<Rightarrow> string" where
  "hash8FromRaw dec packet =
     (let firmware = map_option js_trim (rp_packet_hash packet);
          decoded = (case parsePacket dec (rp_data packet) of Some p \<Rightarrow> pp_messageHash p | None \<Rightarrow> None);
          fallback = to_lower (js_slice 0 8 (coalesce (or_null decoded) ''00000000''))
      in case or_null firmware of
           Some f \<Rightarrow>
             if 8 \<le> length f \<and> list_all is_hex_char f \<and> f \<noteq> replicate (length f) CHR ''0''
             then to_lower (js_slice 0 8 f) else fallback
         | None \<Rightarrow> fallback)"

definition routeKindFromRawHex :: "string \<Rightarrow> route_kind" where
  "routeKindFromRawHex data =
     (let hex = js_trim data in
      if length hex < 2 then UnknownKind
      else
        case parse_int16 (js_slice 0 2 hex) of
          None \<Rightarrow> UnknownKind
        | Some header \<Rightarrow>
            let routeType = and (word_of_int header) (3 :: 32 word) in
            if routeType = 0 \<or> routeType = 1 then FloodKind
            else if routeType = 2 \<or> routeType = 3 then DirectKind
            else UnknownKind)"

definition mergeRouteKind :: "route_kind \<Rightarrow> route_kind \<Rightarrow> route_kind" where
  "mergeRouteKind a b =
     (if a = b then a else if a = UnknownKind then b else if b = UnknownKind then a else UnknownKind)"

definition inferFloodForAdvert :: "live_observation \<Rightarrow> route_kind" where
  "inferFloodForAdvert obs = (if lo_type obs = ''advert'' then FloodKind else lo_routeKind obs)"

section \<open>Pins and the origin\<close>

record origin_pin =
  pin_public_key :: string
  pin_lat :: real
  pin_lon :: real

definition pinKey :: "string \<Rightarrow> string" where
  "pinKey public_key = to_lower (js_trim public_key)"

definition sameLocation :: "real \<times> real \<Rightarrow> real \<times> real \<Rightarrow> bool" where
  "sameLocation a b \<longleftrightarrow> fst a = fst b \<and> snd a = snd b"

definition add_pin :: "origin_pin \<Rightarrow> origin_pin list \<Rightarrow> origin_pin list" where
  "add_pin node pins =
     (if \<not> isValidLocation (Some (pin_lat node)) (Some (pin_lon node)) then pins
      else
        let key = pinKey (pin_public_key node) in
        if key = [] \<or> key \<in> pin_public_key ` set pins then pins
        else pins @ [\<lparr>pin_public_key = key, pin_lat = pin_lat node, pin_lon = pin_lon node\<rparr>])"

definition pinsIncludingLocalRadio :: "origin_pin list \<Rightarrow> radio_config option \<Rightarrow> origin_pin list" where
  "pinsIncludingLocalRadio nodes config =
     (let pins = fold add_pin nodes [] in
      case config of
        None \<Rightarrow> pins
      | Some c \<Rightarrow>
          if isValidLocation (Some (rc_lat c)) (Some (rc_lon c)) \<and> rc_public_key c \<noteq> [] then
            add_pin \<lparr>pin_public_key = rc_public_key c, pin_lat = rc_lat c, pin_lon = rc_lon c\<rparr> pins
          else pins)"

definition findPinByKey :: "string option \<Rightarrow> origin_pin list \<Rightarrow> origin_pin option" where
  "findPinByKey key pins =
     (case or_null key of
        None \<Rightarrow> None
      | Some k \<Rightarrow>
          let needle = to_lower (js_trim k) in
          if needle = [] then None
          else if 16 \<le> length needle then find (\<lambda>pin. pinKey (pin_public_key pin) = needle) pins
          else
            (case filter (\<lambda>pin. pinKey (pin_public_key pin) = needle \<or> starts_with (pinKey (pin_public_key pin)) needle) pins of
               [pin] \<Rightarrow> Some pin
             | _ \<Rightarrow> None))"

definition firstHopAnchor :: "live_observation \<Rightarrow> (real \<times> real) option" where
  "firstHopAnchor obs =
     (case find (\<lambda>p. wp_kind p = HopPoint \<and> isValidLocation (Some (wp_lat p)) (Some (wp_lon p))) (lo_waypoints obs) of
        Some p \<Rightarrow> Some (wp_lat p, wp_lon p)
      | None \<Rightarrow>
          (case lo_ear obs of
             Some e \<Rightarrow> if isValidLocation (Some (ear_lat e)) (Some (ear_lon e)) then Some (ear_lat e, ear_lon e) else None
           | None \<Rightarrow> None))"

definition near_anchor :: "string \<Rightarrow> real \<times> real \<Rightarrow> origin_pin \<Rightarrow> bool" where
  "near_anchor src anchor pin =
     (if \<not> starts_with (pinKey (pin_public_key pin)) src then False
      else
        case calculateDistance (Some (fst anchor)) (Some (snd anchor)) (Some (pin_lat pin)) (Some (pin_lon pin)) of
          Some km \<Rightarrow> km \<le> LIVE_ORIGIN_ANCHOR_KM
        | None \<Rightarrow> False)"

definition origin_by_source :: "live_observation \<Rightarrow> origin_pin list \<Rightarrow> origin_pin option" where
  "origin_by_source obs pins =
     (let src = (case lo_srcHash obs of Some s \<Rightarrow> to_lower (js_trim s) | None \<Rightarrow> []) in
      if length src \<noteq> 2 then None
      else
        case firstHopAnchor obs of
          None \<Rightarrow> None
        | Some anchor \<Rightarrow> (case filter (near_anchor src anchor) pins of [pin] \<Rightarrow> Some pin | _ \<Rightarrow> None))"

definition resolveOriginPin :: "live_observation \<Rightarrow> origin_pin list \<Rightarrow> origin_pin option" where
  "resolveOriginPin obs pins =
     (case findPinByKey (or_null (lo_advertPubkey obs)) pins of
        Some advert \<Rightarrow> Some advert
      | None \<Rightarrow> origin_by_source obs pins)"

definition pin_place :: "origin_pin \<Rightarrow> real \<times> real" where
  "pin_place pin = (pin_lat pin, pin_lon pin)"

definition point_place :: "live_waypoint \<Rightarrow> real \<times> real" where
  "point_place p = (wp_lat p, wp_lon p)"

definition prependOrigin :: "live_observation \<Rightarrow> origin_pin list \<Rightarrow> live_waypoint list" where
  "prependOrigin obs pins =
     (case resolveOriginPin obs pins of
        None \<Rightarrow> lo_waypoints obs
      | Some origin \<Rightarrow>
          \<lparr>wp_lat = pin_lat origin, wp_lon = pin_lon origin, wp_token = js_slice 0 8 (pin_public_key origin),
           wp_kind = OriginPoint, wp_confidence = Exact, wp_reason = None, wp_label = None,
           wp_pubkey = Some (pin_public_key origin)\<rparr> #
          filter (\<lambda>p. \<not> sameLocation (point_place p) (pin_place origin)) (lo_waypoints obs))"

section \<open>Rays from the origin\<close>

definition hopIdentity :: "(real \<Rightarrow> string) \<Rightarrow> live_waypoint \<Rightarrow> string" where
  "hopIdentity show_num hop =
     (case or_null (map_option (\<lambda>k. to_lower (js_trim k)) (wp_pubkey hop)) of
        Some pubkey \<Rightarrow> pubkey
      | None \<Rightarrow> to_lower (js_trim (wp_token hop)) @ ''@'' @ show_num (wp_lat hop) @ '','' @ show_num (wp_lon hop))"

record fanout_hop =
  fh_key :: string
  fh_lat :: real
  fh_lon :: real
  fh_token :: string
  fh_pubkey :: "string option"
  fh_label :: "string option"
  fh_kind :: point_kind
  fh_confidence :: hop_confidence

record fanout_laser =
  fl_key :: string
  fl_origin :: origin_pin
  fl_hop :: fanout_hop
  fl_obs :: live_observation

text \<open>Of \<^verbatim>\<open>FanoutPlan\<close>, the flashes are always empty.\<close>

record fanout_plan =
  fp_origin :: "origin_pin option"
  fp_lasers :: "fanout_laser list"

definition asFanoutHop :: "(real \<Rightarrow> string) \<Rightarrow> live_waypoint \<Rightarrow> fanout_hop" where
  "asFanoutHop show_num p =
     \<lparr>fh_key = hopIdentity show_num p, fh_lat = wp_lat p, fh_lon = wp_lon p, fh_token = wp_token p,
      fh_pubkey = wp_pubkey p, fh_label = wp_label p, fh_kind = HopPoint,
      fh_confidence = (if wp_confidence p = Probable then Probable else Exact)\<rparr>"

definition hop_at :: "fanout_hop \<Rightarrow> real \<times> real" where
  "hop_at hop = (fh_lat hop, fh_lon hop)"

definition primaryPolylineCoversOriginHop ::
    "live_observation \<Rightarrow> origin_pin \<Rightarrow> fanout_hop \<Rightarrow> origin_pin list \<Rightarrow> bool" where
  "primaryPolylineCoversOriginHop obs origin hop pins =
     (let waypoints = prependOrigin obs pins;
          hasOrigin = list_ex (\<lambda>p. wp_kind p = OriginPoint \<and> sameLocation (point_place p) (pin_place origin)) waypoints;
          hasHop = list_ex (\<lambda>p. wp_kind p = HopPoint \<and> sameLocation (point_place p) (hop_at hop)) waypoints
      in hasOrigin \<and> hasHop)"

fun first_origin :: "live_observation list \<Rightarrow> origin_pin list \<Rightarrow> origin_pin option" where
  "first_origin [] pins = None"
| "first_origin (obs # rest) pins =
     (case resolveOriginPin obs pins of Some origin \<Rightarrow> Some origin | None \<Rightarrow> first_origin rest pins)"

definition add_fanout_hop ::
    "(real \<Rightarrow> string) \<Rightarrow> origin_pin option \<Rightarrow> string list \<Rightarrow> live_observation \<Rightarrow>
     (string, fanout_hop \<times> live_observation) jsmap \<Rightarrow> (string, fanout_hop \<times> live_observation) jsmap" where
  "add_fanout_hop show_num origin spawned obs hopByKey =
     (case firstHopWaypoint obs of
        None \<Rightarrow> hopByKey
      | Some first \<Rightarrow>
          let hop = asFanoutHop show_num first in
          if fh_key hop \<in> set spawned \<or> jm_has hopByKey (fh_key hop) then hopByKey
          else if (case origin of Some o' \<Rightarrow> sameLocation (pin_place o') (hop_at hop) | None \<Rightarrow> False) then hopByKey
          else jm_set (fh_key hop) (hop, obs) hopByKey)"

definition fanoutFromOrigin ::
    "(real \<Rightarrow> string) \<Rightarrow> live_observation list \<Rightarrow> origin_pin list \<Rightarrow> string list \<Rightarrow> fanout_plan" where
  "fanoutFromOrigin show_num observations pins spawned =
     (let origin = first_origin observations pins;
          hopByKey = fold (add_fanout_hop show_num origin spawned) observations []
      in \<lparr>fp_origin = origin,
          fp_lasers =
            (case origin of
               None \<Rightarrow> []
             | Some o' \<Rightarrow>
                 map (\<lambda>(_, hop, obs). \<lparr>fl_key = fh_key hop, fl_origin = o', fl_hop = hop, fl_obs = obs\<rparr>)
                   (filter (\<lambda>(_, hop, obs). \<not> primaryPolylineCoversOriginHop obs o' hop pins) hopByKey))\<rparr>)"

section \<open>Frames of the community feed\<close>

record packet_hop =
  hp_token :: string
  hp_confidence :: hop_confidence
  hp_lat :: "rat option"
  hp_lon :: "rat option"
  hp_reason :: "string option"
  hp_pubkey :: "string option"
  hp_name :: "string option"

record community_packet =
  cp_event_id :: string
  cp_hash8 :: string
  cp_packet_hash :: "string option"
  cp_type :: string
  cp_path :: "string list"
  cp_hops :: "packet_hop list"
  cp_ear :: "(rat \<times> rat \<times> ear_source) option"
  cp_origin :: "packet_hop option"
  cp_route_kind :: "route_kind option"
  cp_snr :: "rat option"
  cp_iata :: string
  cp_t :: rat
  cp_ear_id :: string

definition valid_rat :: "rat option \<Rightarrow> rat option \<Rightarrow> bool" where
  "valid_rat lat lon = isValidLocation (map_option of_rat lat) (map_option of_rat lon)"

text \<open>\<open>Inl ()\<close> is \<^verbatim>\<open>undefined\<close>: the frame is refused.\<close>

definition readEar :: "json option \<Rightarrow> unit + (rat \<times> rat \<times> ear_source) option" where
  "readEar v =
     (if v = None \<or> v = Some JNull then Inr None
      else if \<not> isRecord v then Inl ()
      else
        case (number_of (field ''lat'' v), number_of (field ''lon'' v)) of
          (Some lat, Some lon) \<Rightarrow>
            if \<not> valid_rat (Some lat) (Some lon) then Inl ()
            else if text_of (field ''source'' v) = Some ''advert'' then Inr (Some (lat, lon, EarAdvert))
            else if text_of (field ''source'' v) = Some ''iata'' then Inr (Some (lat, lon, EarIata))
            else Inl ()
        | _ \<Rightarrow> Inl ())"

definition readHop :: "json option \<Rightarrow> packet_hop option" where
  "readHop v =
     (if \<not> isRecord v then None
      else
        case (text_of (field ''token'' v), read_confidence (field ''confidence'' v)) of
          (Some token, Some confidence) \<Rightarrow>
            if js_trim token = [] then None
            else
              let hop = \<lparr>hp_token = js_trim token, hp_confidence = confidence, hp_lat = None, hp_lon = None,
                         hp_reason = or_null (text_of (field ''reason'' v)),
                         hp_pubkey = or_null (text_of (field ''pubkey'' v)),
                         hp_name = or_null (text_of (field ''name'' v))\<rparr>
              in if confidence = Unresolved then Some hop
                 else
                   (case (number_of (field ''lat'' v), number_of (field ''lon'' v)) of
                      (Some lat, Some lon) \<Rightarrow>
                        if \<not> valid_rat (Some lat) (Some lon) then None
                        else Some (hop\<lparr>hp_lat := Some lat, hp_lon := Some lon\<rparr>)
                    | _ \<Rightarrow> None)
        | _ \<Rightarrow> None)"

definition pubkey64 :: "string \<Rightarrow> bool" where
  "pubkey64 s \<longleftrightarrow> length s = 64 \<and> list_all is_hex_char s"

definition readOrigin :: "json option \<Rightarrow> packet_hop option" where
  "readOrigin v =
     (case readHop v of
        None \<Rightarrow> None
      | Some hop \<Rightarrow>
          (case text_of (field ''pubkey'' v) of
             Some pubkey \<Rightarrow>
               if pubkey64 pubkey then Some (hop\<lparr>hp_pubkey := Some (to_lower pubkey)\<rparr>)
               else if hp_confidence hop = Unresolved then None else Some hop
           | None \<Rightarrow> if hp_confidence hop = Unresolved then None else Some hop))"

fun read_hops :: "json list \<Rightarrow> packet_hop list option" where
  "read_hops [] = Some []"
| "read_hops (v # vs) =
     (case readHop (Some v) of
        None \<Rightarrow> None
      | Some hop \<Rightarrow> map_option (\<lambda>hops. hop # hops) (read_hops vs))"

definition read_path :: "json option \<Rightarrow> packet_hop list \<Rightarrow> string list option" where
  "read_path v hops =
     (case v of
        None \<Rightarrow> Some (map hp_token hops)
      | Some (JArray items) \<Rightarrow>
          if length items = length hops \<and> list_all (\<lambda>i. is_string (Some i)) items
          then Some (map (\<lambda>i. the (text_of (Some i))) items) else None
      | _ \<Rightarrow> None)"

definition hash8_text :: "string \<Rightarrow> string option" where
  "hash8_text s =
     (let hash8 = js_slice 0 8 (to_lower (js_trim s)) in
      if length hash8 = 8 \<and> list_all lower_hex hash8 then Some hash8 else None)"

definition read_route_kind :: "json option \<Rightarrow> route_kind option" where
  "read_route_kind v =
     (case text_of v of
        Some s \<Rightarrow>
          if s = ''flood'' then Some FloodKind else if s = ''direct'' then Some DirectKind
          else if s = ''unknown'' then Some UnknownKind else None
      | None \<Rightarrow> None)"

definition community_frame :: "json option \<Rightarrow> string \<Rightarrow> string \<Rightarrow> string \<Rightarrow> packet_hop list \<Rightarrow> string list \<Rightarrow>
    (rat \<times> rat \<times> ear_source) option \<Rightarrow> rat \<Rightarrow> string \<Rightarrow> community_packet" where
  "community_frame v event_id hash8 type hops path ear t ear_id =
     \<lparr>cp_event_id = event_id, cp_hash8 = hash8,
      cp_packet_hash =
        (case normalizePacketHash16 (field ''packet_hash'' v) of
           Some h \<Rightarrow> if js_slice 0 8 h = hash8 then Some h else None
         | None \<Rightarrow> None),
      cp_type = type, cp_path = path, cp_hops = hops, cp_ear = ear,
      cp_origin = (if field ''origin'' v = None then None else readOrigin (field ''origin'' v)),
      cp_route_kind = read_route_kind (field ''route_kind'' v), cp_snr = number_of (field ''snr'' v),
      cp_iata = coalesce (text_of (field ''iata'' v)) [], cp_t = t, cp_ear_id = ear_id\<rparr>"

definition asCommunityPacket :: "json option \<Rightarrow> community_packet option" where
  "asCommunityPacket v =
     (if \<not> isRecord v then None
      else if field ''v'' v \<noteq> Some (JNumber LIVE_COMMUNITY_SCHEMA) then None
      else
        case (or_null (text_of (field ''event_id'' v)), text_of (field ''hash8'' v), text_of (field ''type'' v), field ''hops'' v) of
          (Some event_id, Some rawHash8, Some type, Some (JArray items)) \<Rightarrow>
            (case hash8_text rawHash8 of
               None \<Rightarrow> None
             | Some hash8 \<Rightarrow>
                 if \<not> isCommunityPacketType type then None
                 else
                   (case read_hops items of
                      None \<Rightarrow> None
                    | Some hops \<Rightarrow>
                        (case read_path (field ''path'' v) hops of
                           None \<Rightarrow> None
                         | Some path \<Rightarrow>
                             if field ''hop_count'' v \<notin> {None, Some (JNumber (of_nat (length hops)))} then None
                             else
                               (case (or_null (text_of (field ''ear_id'' v)), number_of (field ''t'' v), readEar (field ''ear'' v)) of
                                  (Some ear_id, Some t, Inr ear) \<Rightarrow>
                                    if field ''iata'' v \<noteq> None \<and> text_of (field ''iata'' v) = None then None
                                    else Some (community_frame v event_id hash8 type hops path ear t ear_id)
                                | _ \<Rightarrow> None))))
        | _ \<Rightarrow> None)"

section \<open>Waypoints\<close>

definition hopHasCoords :: "packet_hop \<Rightarrow> bool" where
  "hopHasCoords hop \<longleftrightarrow> (hp_confidence hop = Exact \<or> hp_confidence hop = Probable) \<and> valid_rat (hp_lat hop) (hp_lon hop)"

definition arrivalConfidence :: "hop_confidence \<Rightarrow> bool \<Rightarrow> hop_confidence" where
  "arrivalConfidence hopConfidence skippedUnresolved =
     (if \<not> skippedUnresolved then hopConfidence
      else if hopConfidence = Exact then Probable else hopConfidence)"

definition appendEarWaypoint :: "live_waypoint list \<Rightarrow> live_ear \<Rightarrow> string \<Rightarrow> bool \<Rightarrow> live_waypoint list" where
  "appendEarWaypoint waypoints ear earId skippedUnresolved =
     (let point = \<lparr>wp_lat = ear_lat ear, wp_lon = ear_lon ear, wp_token = earId, wp_kind = EarPoint,
                   wp_confidence = (if skippedUnresolved then Probable else Exact),
                   wp_reason = (if skippedUnresolved then Some ''skipped_unresolved'' else None),
                   wp_label = None, wp_pubkey = None\<rparr>
      in if waypoints = [] then [point]
         else if wp_lat (last waypoints) = ear_lat ear \<and> wp_lon (last waypoints) = ear_lon ear then waypoints
         else waypoints @ [point])"

fun community_hops :: "packet_hop list \<Rightarrow> bool \<Rightarrow> live_waypoint list \<times> bool" where
  "community_hops [] skipped = ([], skipped)"
| "community_hops (hop # hops) skipped =
     (if \<not> hopHasCoords hop then community_hops hops True
      else
        let (rest, skipped') = community_hops hops False in
        (\<lparr>wp_lat = of_rat (the (hp_lat hop)), wp_lon = of_rat (the (hp_lon hop)), wp_token = hp_token hop,
          wp_kind = HopPoint, wp_confidence = arrivalConfidence (hp_confidence hop) skipped,
          wp_reason =
            (case hp_reason hop of
               Some r \<Rightarrow> Some r
             | None \<Rightarrow> if skipped \<and> hp_confidence hop = Exact then Some ''skipped_unresolved'' else None),
          wp_label = hp_name hop, wp_pubkey = or_null (hp_pubkey hop)\<rparr> # rest, skipped'))"

definition ear_of :: "rat \<times> rat \<times> ear_source \<Rightarrow> live_ear" where
  "ear_of e = (case e of (lat, lon, source) \<Rightarrow> \<lparr>ear_lat = of_rat lat, ear_lon = of_rat lon, ear_source = source\<rparr>)"

definition waypointsFromCommunity :: "community_packet \<Rightarrow> live_waypoint list" where
  "waypointsFromCommunity packet =
     (let (waypoints, skipped) = community_hops (cp_hops packet) False in
      case cp_ear packet of
        Some e \<Rightarrow> appendEarWaypoint waypoints (ear_of e) (cp_ear_id packet) skipped
      | None \<Rightarrow> waypoints)"

fun raw_hops :: "(string, contact list) jsmap \<Rightarrow> string list \<Rightarrow> bool \<Rightarrow> live_waypoint list \<times> bool" where
  "raw_hops index [] skipped = ([], skipped)"
| "raw_hops index (token # tokens) skipped =
     (case uniqueGpsContact token index of
        None \<Rightarrow> raw_hops index tokens True
      | Some c \<Rightarrow>
          let (rest, skipped') = raw_hops index tokens False in
          (\<lparr>wp_lat = the (ct_lat c), wp_lon = the (ct_lon c), wp_token = token, wp_kind = HopPoint,
            wp_confidence = arrivalConfidence Exact skipped,
            wp_reason = (if skipped then Some ''skipped_unresolved'' else None),
            wp_label = ct_name c, wp_pubkey = Some (ct_public_key c)\<rparr> # rest, skipped'))"

definition waypointsFromRaw ::
    "decoder \<Rightarrow> raw_packet \<Rightarrow> (string, contact list) jsmap \<Rightarrow> live_ear option \<Rightarrow> string \<Rightarrow> live_waypoint list" where
  "waypointsFromRaw dec packet prefixIndex ear earId =
     (case parsePacket dec (rp_data packet) of
        None \<Rightarrow> []
      | Some parsed \<Rightarrow>
          (let (waypoints, skipped) = raw_hops prefixIndex (pp_pathBytes parsed) False in
           case ear of
             Some e \<Rightarrow> appendEarWaypoint waypoints e earId skipped
           | None \<Rightarrow> waypoints))"

definition exactOriginGps :: "packet_hop option \<Rightarrow> (real \<times> real \<times> string option) option" where
  "exactOriginGps origin =
     (case origin of
        None \<Rightarrow> None
      | Some hop \<Rightarrow>
          if hp_confidence hop \<noteq> Exact \<or> \<not> hopHasCoords hop then None
          else Some (of_rat (the (hp_lat hop)), of_rat (the (hp_lon hop)), or_null (hp_name hop)))"

definition observationFromCommunity :: "json option \<Rightarrow> live_observation option" where
  "observationFromCommunity packet =
     (case asCommunityPacket packet of
        None \<Rightarrow> None
      | Some frame \<Rightarrow>
          Some \<lparr>lo_id = cp_event_id frame, lo_hash8 = cp_hash8 frame, lo_packetHash = cp_packet_hash frame,
            lo_source = CommunityFeed, lo_type = cp_type frame, lo_snr = map_option of_rat (cp_snr frame),
            lo_iata = map_option to_upper (or_null (Some (js_trim (cp_iata frame)))), lo_t = of_rat (cp_t frame),
            lo_earId = cp_ear_id frame, lo_ear = map_option ear_of (cp_ear frame),
            lo_waypoints = waypointsFromCommunity frame, lo_routeKind = coalesce (cp_route_kind frame) UnknownKind,
            lo_advertPubkey = (case cp_origin frame of Some hop \<Rightarrow> hp_pubkey hop | None \<Rightarrow> None), lo_srcHash = None,
            lo_originGps = exactOriginGps (cp_origin frame)\<rparr>)"

definition observationFromRaw ::
    "decoder \<Rightarrow> (payload_type \<Rightarrow> int) \<Rightarrow> raw_packet \<Rightarrow> (string, contact list) jsmap \<Rightarrow> radio_config option \<Rightarrow>
     live_observation option" where
  "observationFromRaw dec code packet prefixIndex config =
     (case parsePacket dec (rp_data packet) of
        None \<Rightarrow> None
      | Some parsed \<Rightarrow>
          let ear = (case config of
                 Some c \<Rightarrow>
                   if isValidLocation (Some (rc_lat c)) (Some (rc_lon c))
                   then Some \<lparr>ear_lat = rc_lat c, ear_lon = rc_lon c, ear_source = EarLocal\<rparr> else None
               | None \<Rightarrow> None);
              earId = js_slice 0 16 (coalesce (or_null (map_option rc_public_key config)) ''local-ear'');
              t = (case rp_received_at_ms packet of
                 Some ms \<Rightarrow> ms
               | None \<Rightarrow> if 1000000000000 < rp_timestamp packet then rp_timestamp packet else rp_timestamp packet * 1000)
          in Some \<lparr>lo_id = ''local:'' @ int_to_string (coalesce (rp_observation_id packet) (rp_id packet)),
               lo_hash8 = hash8FromRaw dec packet, lo_packetHash = packetHashFromRaw packet, lo_source = LocalFeed,
               lo_type = packetTypeFromRaw (code (pp_payloadType parsed)), lo_snr = rp_snr packet, lo_iata = None,
               lo_t = of_int t, lo_earId = earId, lo_ear = ear,
               lo_waypoints = waypointsFromRaw dec packet prefixIndex ear earId,
               lo_routeKind = routeKindFromRawHex (rp_data packet), lo_advertPubkey = pp_advertPubkey parsed,
               lo_srcHash = pp_srcHash parsed, lo_originGps = None\<rparr>)"

definition isStaleLiveTime :: "real \<Rightarrow> int \<Rightarrow> bool" where
  "isStaleLiveTime t now \<longleftrightarrow> of_int LIVE_DIM_AFTER_MS \<le> of_int now - t"

section \<open>Checked frames\<close>

definition opt_field :: "string \<Rightarrow> json option \<Rightarrow> (string \<times> json) list" where
  "opt_field name v = (case v of None \<Rightarrow> [] | Some j \<Rightarrow> [(name, j)])"

definition confidence_text :: "hop_confidence \<Rightarrow> string" where
  "confidence_text c = (case c of Exact \<Rightarrow> ''exact'' | Probable \<Rightarrow> ''probable'' | Unresolved \<Rightarrow> ''unresolved'')"

definition hop_json :: "packet_hop \<Rightarrow> json" where
  "hop_json h =
     JObject ([(''token'', JString (hp_token h)), (''confidence'', JString (confidence_text (hp_confidence h)))] @
       opt_field ''reason'' (map_option JString (hp_reason h)) @ opt_field ''pubkey'' (map_option JString (hp_pubkey h)) @
       opt_field ''name'' (map_option JString (hp_name h)) @ opt_field ''lat'' (map_option JNumber (hp_lat h)) @
       opt_field ''lon'' (map_option JNumber (hp_lon h)))"

definition ear_json :: "(rat \<times> rat \<times> ear_source) option \<Rightarrow> json" where
  "ear_json e =
     (case e of
        None \<Rightarrow> JNull
      | Some (lat, lon, source) \<Rightarrow>
          JObject [(''lat'', JNumber lat), (''lon'', JNumber lon),
            (''source'', JString (if source = EarAdvert then ''advert'' else ''iata''))])"

definition kind_text :: "route_kind \<Rightarrow> string" where
  "kind_text k = (case k of FloodKind \<Rightarrow> ''flood'' | DirectKind \<Rightarrow> ''direct'' | UnknownKind \<Rightarrow> ''unknown'')"

text \<open>The checked frame as an object, the way \<open>asCommunityPacket\<close> builds it.\<close>

definition packet_json :: "community_packet \<Rightarrow> json" where
  "packet_json p =
     JObject ([(''v'', JNumber LIVE_COMMUNITY_SCHEMA), (''event_id'', JString (cp_event_id p)), (''hash8'', JString (cp_hash8 p)),
        (''type'', JString (cp_type p)), (''path'', JArray (map JString (cp_path p))),
        (''hop_count'', JNumber (of_nat (length (cp_hops p)))), (''hops'', JArray (map hop_json (cp_hops p))),
        (''ear'', ear_json (cp_ear p)), (''iata'', JString (cp_iata p)), (''t'', JNumber (cp_t p)),
        (''ear_id'', JString (cp_ear_id p))] @
       opt_field ''snr'' (map_option JNumber (cp_snr p)) @ opt_field ''packet_hash'' (map_option JString (cp_packet_hash p)) @
       opt_field ''origin'' (map_option hop_json (cp_origin p)) @
       opt_field ''route_kind'' (map_option (\<lambda>k. JString (kind_text k)) (cp_route_kind p)))"

definition hop_ok :: "packet_hop \<Rightarrow> bool" where
  "hop_ok h \<longleftrightarrow>
     hp_token h \<noteq> [] \<and> js_trim (hp_token h) = hp_token h \<and>
     hp_reason h \<noteq> Some [] \<and> hp_pubkey h \<noteq> Some [] \<and> hp_name h \<noteq> Some [] \<and>
     (if hp_confidence h = Unresolved then hp_lat h = None \<and> hp_lon h = None
      else hp_lat h \<noteq> None \<and> hp_lon h \<noteq> None \<and> valid_rat (hp_lat h) (hp_lon h))"

definition origin_ok :: "packet_hop \<Rightarrow> bool" where
  "origin_ok h \<longleftrightarrow> hop_ok h \<and>
     (case hp_pubkey h of
        None \<Rightarrow> hp_confidence h \<noteq> Unresolved
      | Some k \<Rightarrow> if pubkey64 k then to_lower k = k else hp_confidence h \<noteq> Unresolved)"

definition frame_ok :: "community_packet \<Rightarrow> bool" where
  "frame_ok p \<longleftrightarrow>
     cp_event_id p \<noteq> [] \<and> cp_ear_id p \<noteq> [] \<and> isCommunityPacketType (cp_type p) \<and>
     length (cp_hash8 p) = 8 \<and> list_all lower_hex (cp_hash8 p) \<and>
     length (cp_path p) = length (cp_hops p) \<and> list_all hop_ok (cp_hops p) \<and>
     (case cp_packet_hash p of
        None \<Rightarrow> True
      | Some h \<Rightarrow> length h = 16 \<and> list_all lower_hex h \<and> h \<noteq> replicate 16 CHR ''0'' \<and> take 8 h = cp_hash8 p) \<and>
     (case cp_ear p of None \<Rightarrow> True | Some (lat, lon, source) \<Rightarrow> valid_rat (Some lat) (Some lon) \<and> source \<noteq> EarLocal) \<and>
     (case cp_origin p of None \<Rightarrow> True | Some h \<Rightarrow> origin_ok h)"

lemma field_object: "field name (Some (JObject fs)) = map_of fs name"
  by (simp add: field_def)

lemma map_of_opt_field:
  "map_of (opt_field name v @ rest) k = (if k = name \<and> v \<noteq> None then v else map_of rest k)"
  "map_of (opt_field name v) k = (if k = name then v else None)"
  by (cases v; simp add: opt_field_def)+

lemma text_of_option: "text_of (map_option JString v) = v" and number_of_option: "number_of (map_option JNumber w) = w"
  by (cases v; simp add: text_of_def) (cases w; simp add: number_of_def)

lemma of_None [simp]: "text_of None = None" "number_of None = None"
  and of_Some [simp]: "text_of (Some (JString s)) = Some s" "number_of (Some (JNumber x)) = Some x"
  by (simp_all add: text_of_def number_of_def)

lemmas frame_fields = field_object map_of_opt_field isRecord_def

lemma js_trim_idem [simp]: "js_trim (js_trim s) = js_trim s"
proof -
  have "dropWhile js_space (rev (dropWhile js_space (rev t))) = rev (dropWhile js_space (rev t))"
    if "t = dropWhile js_space s" for t
  proof (cases "rev (dropWhile js_space (rev t))")
    case (Cons c cs)
    have "t = rev (dropWhile js_space (rev t)) @ rev (takeWhile js_space (rev t))"
      by (metis rev_append rev_rev_ident takeWhile_dropWhile_id)
    then have "hd t = c" "t \<noteq> []" using Cons by (metis append_Cons list.sel(1), force)
    then have "\<not> js_space c" using that hd_dropWhile by metis
    then show ?thesis using Cons by simp
  qed (simp only: dropWhile.simps)
  then show ?thesis unfolding js_trim_def by (simp add: dropWhile_dropWhile1)
qed

lemma lower_hex_plain: "lower_hex c \<Longrightarrow> \<not> js_space c \<and> lower_char c = c"
  by (auto simp: lower_hex_def js_space_def lower_char_def Let_def)

lemma lower_hex_text:
  assumes "list_all lower_hex s"
  shows "js_trim s = s" and "to_lower s = s"
proof -
  have sp: "\<not> js_space c" and lo: "lower_char c = c" if "c \<in> set s" for c
    using assms that lower_hex_plain by (auto simp: list_all_iff)
  show "to_lower s = s" using lo by (simp add: to_lower_def map_idI)
  have "dropWhile js_space s = s" using sp by (cases s) auto
  moreover have "dropWhile js_space (rev s) = rev s" using sp by (cases "rev s") (auto dest: arg_cong [of _ _ set])
  ultimately show "js_trim s = s" by (simp add: js_trim_def)
qed

lemma or_null_not_empty: "or_null v \<noteq> Some []" "v \<noteq> Some [] \<Longrightarrow> or_null v = v" "or_null v = Some s \<Longrightarrow> v = Some s \<and> s \<noteq> []"
  by (auto simp: or_null_def split: option.splits if_splits)

lemma read_confidence_text: "read_confidence (Some (JString (confidence_text c))) = Some c"
  by (cases c) (simp_all add: read_confidence_def confidence_text_def text_of_def)

text \<open>A hop before its position is looked at.\<close>

definition bare_hop :: "json option \<Rightarrow> string \<Rightarrow> hop_confidence \<Rightarrow> packet_hop" where
  "bare_hop v token confidence =
     \<lparr>hp_token = js_trim token, hp_confidence = confidence, hp_lat = None, hp_lon = None,
      hp_reason = or_null (text_of (field ''reason'' v)), hp_pubkey = or_null (text_of (field ''pubkey'' v)),
      hp_name = or_null (text_of (field ''name'' v))\<rparr>"

lemma readHop_iff:
  "readHop v = Some h \<longleftrightarrow> isRecord v \<and>
     (\<exists>token confidence. text_of (field ''token'' v) = Some token \<and> js_trim token \<noteq> [] \<and>
        read_confidence (field ''confidence'' v) = Some confidence \<and>
        (if confidence = Unresolved then h = bare_hop v token confidence
         else \<exists>lat lon. number_of (field ''lat'' v) = Some lat \<and> number_of (field ''lon'' v) = Some lon \<and>
           valid_rat (Some lat) (Some lon) \<and> h = (bare_hop v token confidence)\<lparr>hp_lat := Some lat, hp_lon := Some lon\<rparr>))"
proof (cases "text_of (field ''token'' v)")
  case token: (Some token)
  show ?thesis
  proof (cases "read_confidence (field ''confidence'' v)")
    case (Some confidence)
    then show ?thesis using token
      by (cases "number_of (field ''lat'' v)"; cases "number_of (field ''lon'' v)")
        (auto simp: readHop_def bare_hop_def Let_def)
  qed (simp add: readHop_def token)
qed (simp add: readHop_def)

lemma readHop_ok:
  assumes "readHop v = Some h"
  shows "hop_ok h"
proof -
  have "hop_ok (bare_hop v token confidence)" if "js_trim token \<noteq> []" "confidence = Unresolved" for token confidence
    using that by (simp add: hop_ok_def bare_hop_def or_null_not_empty)
  moreover have "hop_ok ((bare_hop v token confidence)\<lparr>hp_lat := Some lat, hp_lon := Some lon\<rparr>)"
    if "js_trim token \<noteq> []" "confidence \<noteq> Unresolved" "valid_rat (Some lat) (Some lon)" for token confidence lat lon
    using that by (simp add: hop_ok_def bare_hop_def or_null_not_empty)
  ultimately show ?thesis using assms unfolding readHop_iff by (auto split: if_splits)
qed

lemma hop_json_fields:
  "field ''token'' (Some (hop_json h)) = Some (JString (hp_token h))"
  "field ''confidence'' (Some (hop_json h)) = Some (JString (confidence_text (hp_confidence h)))"
  "text_of (field ''reason'' (Some (hop_json h))) = hp_reason h"
  "text_of (field ''pubkey'' (Some (hop_json h))) = hp_pubkey h"
  "text_of (field ''name'' (Some (hop_json h))) = hp_name h"
  "number_of (field ''lat'' (Some (hop_json h))) = hp_lat h"
  "number_of (field ''lon'' (Some (hop_json h))) = hp_lon h"
  by (simp_all add: hop_json_def frame_fields text_of_option number_of_option del: map_of_append)

lemma readHop_json:
  assumes "hop_ok h"
  shows "readHop (Some (hop_json h)) = Some h"
proof -
  have "bare_hop (Some (hop_json h)) (hp_token h) (hp_confidence h) = h\<lparr>hp_lat := None, hp_lon := None\<rparr>"
    using assms by (simp add: bare_hop_def hop_json_fields hop_ok_def or_null_not_empty)
  moreover have "isRecord (Some (hop_json h))" by (simp add: hop_json_def isRecord_def)
  moreover have "h\<lparr>hp_lat := Some lat, hp_lon := Some lon\<rparr> = h" if "hp_lat h = Some lat" "hp_lon h = Some lon" for lat lon
    using that by (cases h) simp
  moreover have "h\<lparr>hp_lat := None, hp_lon := None\<rparr> = h" if "hp_lat h = None" "hp_lon h = None"
    using that by (cases h) simp
  ultimately show ?thesis
    using assms unfolding readHop_iff hop_json_fields
    by (auto simp: hop_ok_def read_confidence_text text_of_def)
qed

lemma hop_json_record: "isRecord (Some (hop_json h))"
  by (simp add: hop_json_def isRecord_def)

lemma to_lower_idem [simp]: "to_lower (to_lower s) = to_lower s"
  by (auto simp: to_lower_def lower_char_def Let_def)

lemma lower_char_hex: "is_hex_char (lower_char c) = is_hex_char c"
  by (auto simp: is_hex_char_def hex_value_def lower_char_def Let_def)

lemma pubkey64_lower [simp]: "pubkey64 (to_lower k) = pubkey64 k"
  by (simp add: pubkey64_def to_lower_def list_all_iff lower_char_hex)
lemma readOrigin_ok:
  assumes "readOrigin v = Some h"
  shows "origin_ok h"
proof -
  obtain hop where hop: "readHop v = Some hop" using assms by (auto simp: readOrigin_def split: option.splits)
  then have "hop_ok hop" and pk: "hp_pubkey hop = or_null (text_of (field ''pubkey'' v))"
    using readHop_ok by (auto simp: readHop_iff bare_hop_def split: if_splits)
  moreover have "hop_ok (hop\<lparr>hp_pubkey := Some (to_lower k)\<rparr>)" if "pubkey64 k" for k
  proof -
    have "to_lower k \<noteq> []" using that by (auto simp: pubkey64_def to_lower_def)
    then show ?thesis using \<open>hop_ok hop\<close> by (simp add: hop_ok_def)
  qed
  ultimately show ?thesis using assms hop
    by (auto simp: readOrigin_def origin_ok_def or_null_def split: option.splits if_splits)
qed

lemma readOrigin_json:
  assumes "origin_ok h"
  shows "readOrigin (Some (hop_json h)) = Some h"
proof -
  have "h\<lparr>hp_pubkey := Some k\<rparr> = h" if "hp_pubkey h = Some k" for k using that by (cases h) simp
  then show ?thesis
    using assms by (auto simp: readOrigin_def origin_ok_def readHop_json hop_json_fields split: option.splits if_splits)
qed

lemma read_hops_ok: "read_hops vs = Some hops \<Longrightarrow> list_all hop_ok hops \<and> length hops = length vs"
  by (induction vs arbitrary: hops) (auto dest: readHop_ok split: option.splits)

lemma read_hops_json: "list_all hop_ok hops \<Longrightarrow> read_hops (map hop_json hops) = Some hops"
  by (induction hops) (simp_all add: readHop_json)

lemma readEar_ok: "readEar v = Inr ear \<Longrightarrow>
   case ear of None \<Rightarrow> True | Some (lat, lon, source) \<Rightarrow> valid_rat (Some lat) (Some lon) \<and> source \<noteq> EarLocal"
  by (auto simp: readEar_def split: if_splits option.splits)

lemma readEar_json:
  "(case ear of None \<Rightarrow> True | Some (lat, lon, source) \<Rightarrow> valid_rat (Some lat) (Some lon) \<and> source \<noteq> EarLocal) \<Longrightarrow>
   readEar (Some (ear_json ear)) = Inr ear"
  by (cases ear) (auto simp: readEar_def ear_json_def frame_fields intro: ear_source.exhaust)

lemma hash8_ok: "hash8_text s = Some h \<Longrightarrow> length h = 8 \<and> list_all lower_hex h"
  by (auto simp: hash8_text_def Let_def split: if_splits)

lemma hash8_json: "length h = 8 \<Longrightarrow> list_all lower_hex h \<Longrightarrow> hash8_text h = Some h"
  by (simp add: hash8_text_def lower_hex_text js_slice_def)

lemma hash16_ok:
  "normalizePacketHash16 v = Some h \<Longrightarrow> length h = 16 \<and> list_all lower_hex h \<and> h \<noteq> replicate 16 CHR ''0''"
  by (auto simp: normalizePacketHash16_def Let_def js_slice_def list_all_iff split: if_splits option.splits dest: in_set_takeD)

lemma hash16_json:
  "length h = 16 \<Longrightarrow> list_all lower_hex h \<Longrightarrow> h \<noteq> replicate 16 CHR ''0'' \<Longrightarrow>
   normalizePacketHash16 (Some (JString h)) = Some h"
  by (simp add: normalizePacketHash16_def lower_hex_text js_slice_def Let_def)

lemma read_path_ok: "read_path v hops = Some path \<Longrightarrow> length path = length hops"
  by (auto simp: read_path_def split: option.splits json.splits if_splits)

lemma read_path_json:
  assumes "length path = length hops"
  shows "read_path (Some (JArray (map JString path))) hops = Some path"
  using assms by (simp add: read_path_def list_all_iff is_string_def comp_def)

lemma kind_json: "read_route_kind (Some (JString (kind_text k))) = Some k" "read_route_kind None = None"
  by (cases k) (simp_all add: read_route_kind_def kind_text_def)
lemma asCommunityPacket_parts:
  assumes "asCommunityPacket v = Some p"
  obtains event_id rawHash8 type items hash8 hops path ear_id t ear where
    "or_null (text_of (field ''event_id'' v)) = Some event_id" "text_of (field ''hash8'' v) = Some rawHash8"
    "text_of (field ''type'' v) = Some type" "field ''hops'' v = Some (JArray items)" "hash8_text rawHash8 = Some hash8"
    "isCommunityPacketType type" "read_hops items = Some hops" "read_path (field ''path'' v) hops = Some path"
    "or_null (text_of (field ''ear_id'' v)) = Some ear_id" "number_of (field ''t'' v) = Some t"
    "readEar (field ''ear'' v) = Inr ear" "p = community_frame v event_id hash8 type hops path ear t ear_id"
proof -
  obtain event_id where e: "or_null (text_of (field ''event_id'' v)) = Some event_id"
    using assms by (auto simp: asCommunityPacket_def split: option.splits if_splits)
  obtain rawHash8 where r: "text_of (field ''hash8'' v) = Some rawHash8"
    using assms by (auto simp: asCommunityPacket_def e split: option.splits if_splits)
  obtain type where ty: "text_of (field ''type'' v) = Some type"
    using assms by (auto simp: asCommunityPacket_def e r split: option.splits if_splits)
  obtain items where i: "field ''hops'' v = Some (JArray items)"
    using assms by (auto simp: asCommunityPacket_def e r ty split: option.splits if_splits json.splits)
  obtain hash8 where h: "hash8_text rawHash8 = Some hash8"
    using assms by (auto simp: asCommunityPacket_def e r ty i split: option.splits if_splits)
  obtain hops where hs: "read_hops items = Some hops" "isCommunityPacketType type"
    using assms by (auto simp: asCommunityPacket_def e r ty i h split: option.splits if_splits)
  obtain path where pa: "read_path (field ''path'' v) hops = Some path"
    using assms by (auto simp: asCommunityPacket_def e r ty i h hs split: option.splits if_splits)
  obtain ear_id t ear where rest: "or_null (text_of (field ''ear_id'' v)) = Some ear_id" "number_of (field ''t'' v) = Some t"
      "readEar (field ''ear'' v) = Inr ear"
    using assms by (auto simp: asCommunityPacket_def e r ty i h hs pa split: option.splits if_splits sum.splits)
  moreover have "p = community_frame v event_id hash8 type hops path ear t ear_id"
    using assms by (auto simp: asCommunityPacket_def e r ty i h hs pa rest split: if_splits)
  ultimately show ?thesis using that e r ty i h hs pa by blast
qed

lemma community_frame_ok:
  assumes "asCommunityPacket v = Some p"
  shows "frame_ok p"
proof -
  from asCommunityPacket_parts [OF assms] obtain event_id rawHash8 type items hash8 hops path ear_id t ear where
    p: "or_null (text_of (field ''event_id'' v)) = Some event_id" "hash8_text rawHash8 = Some hash8"
    "isCommunityPacketType type" "read_hops items = Some hops" "read_path (field ''path'' v) hops = Some path"
    "or_null (text_of (field ''ear_id'' v)) = Some ear_id" "readEar (field ''ear'' v) = Inr ear"
    "p = community_frame v event_id hash8 type hops path ear t ear_id" by metis
  have "case cp_packet_hash p of None \<Rightarrow> True
      | Some h \<Rightarrow> length h = 16 \<and> list_all lower_hex h \<and> h \<noteq> replicate 16 CHR ''0'' \<and> take 8 h = cp_hash8 p"
    using hash16_ok [of "field ''packet_hash'' v"] by (auto simp: p(8) community_frame_def js_slice_def split: option.split)
  moreover have "case cp_origin p of None \<Rightarrow> True | Some h \<Rightarrow> origin_ok h"
    by (auto simp: p(8) community_frame_def dest: readOrigin_ok split: option.split)
  moreover have "event_id \<noteq> []" "ear_id \<noteq> []" using p(1, 6) or_null_not_empty(3) by blast+
  moreover have "cp_event_id p = event_id" "cp_ear_id p = ear_id" "cp_type p = type" "cp_hash8 p = hash8" "cp_hops p = hops"
    "cp_path p = path" "cp_ear p = ear" by (simp_all add: p(8) community_frame_def)
  ultimately show ?thesis
    using hash8_ok [OF p(2)] read_hops_ok [OF p(4)] read_path_ok [OF p(5)] readEar_ok [OF p(7)] p(3)
    by (simp add: frame_ok_def)
qed

lemma packet_json_fields:
  "field ''v'' (Some (packet_json p)) = Some (JNumber LIVE_COMMUNITY_SCHEMA)"
  "field ''event_id'' (Some (packet_json p)) = Some (JString (cp_event_id p))"
  "field ''hash8'' (Some (packet_json p)) = Some (JString (cp_hash8 p))"
  "field ''type'' (Some (packet_json p)) = Some (JString (cp_type p))"
  "field ''path'' (Some (packet_json p)) = Some (JArray (map JString (cp_path p)))"
  "field ''hop_count'' (Some (packet_json p)) = Some (JNumber (of_nat (length (cp_hops p))))"
  "field ''hops'' (Some (packet_json p)) = Some (JArray (map hop_json (cp_hops p)))"
  "field ''ear'' (Some (packet_json p)) = Some (ear_json (cp_ear p))"
  "field ''iata'' (Some (packet_json p)) = Some (JString (cp_iata p))"
  "field ''t'' (Some (packet_json p)) = Some (JNumber (cp_t p))"
  "field ''ear_id'' (Some (packet_json p)) = Some (JString (cp_ear_id p))"
  by (simp_all add: packet_json_def field_object)

lemma packet_json_options:
  "field ''snr'' (Some (packet_json p)) = map_option JNumber (cp_snr p)"
  "field ''packet_hash'' (Some (packet_json p)) = map_option JString (cp_packet_hash p)"
  "field ''origin'' (Some (packet_json p)) = map_option hop_json (cp_origin p)"
  "field ''route_kind'' (Some (packet_json p)) = map_option (\<lambda>k. JString (kind_text k)) (cp_route_kind p)"
  by (simp_all add: packet_json_def field_object map_of_opt_field del: map_of_append)

lemma packet_json_frame:
  assumes "frame_ok p"
  shows "community_frame (Some (packet_json p)) (cp_event_id p) (cp_hash8 p) (cp_type p) (cp_hops p) (cp_path p) (cp_ear p)
      (cp_t p) (cp_ear_id p) = p"
proof -
  let ?v = "Some (packet_json p)"
  have "(case normalizePacketHash16 (field ''packet_hash'' ?v) of
      Some h \<Rightarrow> if js_slice 0 8 h = cp_hash8 p then Some h else None | None \<Rightarrow> None) = cp_packet_hash p"
    using assms hash16_json
    by (cases "cp_packet_hash p") (auto simp: frame_ok_def packet_json_options js_slice_def normalizePacketHash16_def)
  moreover have "(if field ''origin'' ?v = None then None else readOrigin (field ''origin'' ?v)) = cp_origin p"
    using assms by (cases "cp_origin p") (auto simp: frame_ok_def packet_json_options readOrigin_json)
  moreover have "read_route_kind (field ''route_kind'' ?v) = cp_route_kind p"
    by (cases "cp_route_kind p") (simp_all add: packet_json_options kind_json)
  ultimately show ?thesis
    by (simp add: community_frame_def packet_json_options packet_json_fields number_of_option coalesce_def)
qed

lemma packet_json_read:
  assumes "frame_ok p"
  shows "asCommunityPacket (Some (packet_json p)) = Some p"
proof -
  have "isRecord (Some (packet_json p))" by (simp add: packet_json_def isRecord_def)
  moreover have "hash8_text (cp_hash8 p) = Some (cp_hash8 p)" "read_hops (map hop_json (cp_hops p)) = Some (cp_hops p)"
    "read_path (Some (JArray (map JString (cp_path p)))) (cp_hops p) = Some (cp_path p)"
    "readEar (Some (ear_json (cp_ear p))) = Inr (cp_ear p)"
    using assms by (auto simp: frame_ok_def hash8_json read_hops_json read_path_json intro: readEar_json)
  moreover have "or_null (Some (cp_event_id p)) = Some (cp_event_id p)" "or_null (Some (cp_ear_id p)) = Some (cp_ear_id p)"
    "isCommunityPacketType (cp_type p)" using assms by (simp_all add: frame_ok_def or_null_def)
  ultimately show ?thesis
    using packet_json_frame [OF assms] by (simp add: asCommunityPacket_def packet_json_fields)
qed

section \<open>Waypoints on the map\<close>

definition point_ok :: "live_waypoint \<Rightarrow> bool" where
  "point_ok p \<longleftrightarrow>
     isValidLocation (Some (wp_lat p)) (Some (wp_lon p)) \<and> wp_confidence p \<noteq> Unresolved \<and> wp_kind p \<noteq> OriginPoint"

text \<open>The hop points a list of hops stands for: a hop behind a gap is at most probable.\<close>

definition expected_hops :: "bool \<Rightarrow> packet_hop list \<Rightarrow> (string \<times> hop_confidence) list" where
  "expected_hops first hops =
     map (\<lambda>(before, h). (hp_token h, if before then hp_confidence h else Probable))
       (filter (\<lambda>(before, h). hp_confidence h \<noteq> Unresolved) (zip (first # map (\<lambda>h. hp_confidence h \<noteq> Unresolved) hops) hops))"

lemma hop_ok_coords: "hop_ok h \<Longrightarrow> hopHasCoords h \<longleftrightarrow> hp_confidence h \<noteq> Unresolved"
  by (cases "hp_confidence h") (auto simp: hop_ok_def hopHasCoords_def)

lemma coords_valid:
  "hopHasCoords h \<Longrightarrow> isValidLocation (Some (of_rat (the (hp_lat h)))) (Some (of_rat (the (hp_lon h))))"
  by (auto simp: hopHasCoords_def valid_rat_def isValidLocation_def split: option.splits)

lemma arrival_confidence:
  "arrivalConfidence c skipped = Unresolved \<longleftrightarrow> c = Unresolved"
  "c \<noteq> Unresolved \<Longrightarrow> arrivalConfidence c skipped = (if skipped then Probable else c)"
  by (cases c; simp add: arrivalConfidence_def)+

lemma expected_hops_Cons:
  "expected_hops first (h # hops) =
     (if hp_confidence h \<noteq> Unresolved then (hp_token h, if first then hp_confidence h else Probable) # expected_hops True hops
      else expected_hops False hops)"
  by (simp add: expected_hops_def)

lemma community_hops_points:
  "list_all hop_ok hops \<Longrightarrow>
   list_all (\<lambda>p. point_ok p \<and> wp_kind p = HopPoint) (fst (community_hops hops skipped)) \<and>
   map (\<lambda>p. (wp_token p, wp_confidence p)) (fst (community_hops hops skipped)) = expected_hops (\<not> skipped) hops \<and>
   snd (community_hops hops skipped) = (if hops = [] then skipped else hp_confidence (last hops) = Unresolved)"
proof (induction hops arbitrary: skipped)
  case Nil
  then show ?case by (simp add: expected_hops_def)
next
  case (Cons h hops)
  have ok: "hop_ok h" and hops: "list_all hop_ok hops" using Cons.prems by simp_all
  obtain ws s where r: "community_hops hops False = (ws, s)" by (cases "community_hops hops False")
  show ?case
  proof (cases "hopHasCoords h")
    case True
    then show ?thesis using Cons.IH [OF hops, of False] ok r
      by (simp add: hop_ok_coords expected_hops_Cons point_ok_def arrival_confidence coords_valid)
  next
    case False
    then show ?thesis using Cons.IH [OF hops, of True] ok by (simp add: hop_ok_coords expected_hops_Cons)
  qed
qed

lemma append_ear_points:
  assumes "list_all (\<lambda>p. point_ok p \<and> wp_kind p = HopPoint) ws" and "isValidLocation (Some (ear_lat ear)) (Some (ear_lon ear))"
  shows "list_all point_ok (appendEarWaypoint ws ear earId skipped)" and
    "filter (\<lambda>p. wp_kind p = HopPoint) (appendEarWaypoint ws ear earId skipped) = ws" and
    "appendEarWaypoint ws ear earId skipped \<noteq> []" and
    "point_place (last (appendEarWaypoint ws ear earId skipped)) = (ear_lat ear, ear_lon ear)"
  using assms by (auto simp: appendEarWaypoint_def point_ok_def point_place_def Let_def list_all_iff filter_id_conv)

lemma raw_hops_points:
  "list_all (\<lambda>p. point_ok p \<and> wp_kind p = HopPoint) (fst (raw_hops index tokens skipped))"
proof (induction tokens arbitrary: skipped)
  case (Cons token tokens)
  have "isValidLocation (Some (the (ct_lat c))) (Some (the (ct_lon c)))" if "uniqueGpsContact token index = Some c" for c
    using that by (auto simp: uniqueGpsContact_def located_def isValidLocation_def split: if_splits option.splits list.splits)
  moreover obtain ws s where "raw_hops index tokens False = (ws, s)" by (cases "raw_hops index tokens False")
  ultimately show ?case using Cons [of False] Cons [of True]
    by (auto simp: point_ok_def arrivalConfidence_def split: option.split)
qed simp

lemma waypoints_community:
  assumes "frame_ok p"
  shows "list_all point_ok (waypointsFromCommunity p)" and
    "map (\<lambda>w. (wp_token w, wp_confidence w)) (filter (\<lambda>w. wp_kind w = HopPoint) (waypointsFromCommunity p)) =
       expected_hops True (cp_hops p)" and
    "cp_ear p = Some e \<Longrightarrow> waypointsFromCommunity p \<noteq> [] \<and>
       point_place (last (waypointsFromCommunity p)) = (ear_lat (ear_of e), ear_lon (ear_of e))"
proof -
  obtain ws skipped where h: "community_hops (cp_hops p) False = (ws, skipped)" by (cases "community_hops (cp_hops p) False")
  have ws: "list_all (\<lambda>p. point_ok p \<and> wp_kind p = HopPoint) ws"
    "map (\<lambda>w. (wp_token w, wp_confidence w)) ws = expected_hops True (cp_hops p)"
    using community_hops_points [of "cp_hops p" False] assms h by (simp_all add: frame_ok_def)
  have ear: "isValidLocation (Some (ear_lat (ear_of e))) (Some (ear_lon (ear_of e)))" if "cp_ear p = Some e" for e
    using assms that by (cases e) (simp add: frame_ok_def ear_of_def valid_rat_def)
  show "list_all point_ok (waypointsFromCommunity p)"
    using ws append_ear_points(1) [OF ws(1) ear] h
    by (auto simp: waypointsFromCommunity_def list_all_iff split: option.split)
  show "map (\<lambda>w. (wp_token w, wp_confidence w)) (filter (\<lambda>w. wp_kind w = HopPoint) (waypointsFromCommunity p)) =
      expected_hops True (cp_hops p)"
  proof (cases "cp_ear p")
    case None
    have "filter (\<lambda>w. wp_kind w = HopPoint) ws = ws" using ws(1) by (simp add: list_all_iff filter_id_conv)
    then show ?thesis using None ws(2) h by (simp add: waypointsFromCommunity_def)
  next
    case (Some e)
    then show ?thesis using append_ear_points(2) [OF ws(1) ear [OF Some]] ws(2) h by (simp add: waypointsFromCommunity_def)
  qed
  show "waypointsFromCommunity p \<noteq> [] \<and> point_place (last (waypointsFromCommunity p)) = (ear_lat (ear_of e), ear_lon (ear_of e))"
    if "cp_ear p = Some e"
    using append_ear_points(3, 4) [OF ws(1) ear [OF that]] that h by (simp add: waypointsFromCommunity_def)
qed

section \<open>The prefix index\<close>

lemma index_prefix_get:
  "jm_get (index_prefix c len index) p =
     (if length p = len \<and> take len (to_lower (ct_public_key c)) = p then Some (coalesce (jm_get index p) [] @ [c])
      else jm_get index p)"
proof -
  have "length (take len k) = len \<longleftrightarrow> len \<le> length k" for k :: string by auto
  then show ?thesis
    by (auto simp: index_prefix_def Let_def jm_get_set js_slice_def coalesce_def split: option.split)
qed

lemma index_contact_get:
  "jm_get (fold (index_prefix c) [4, 6, 8, 12] index) p =
     (if length p \<in> {4, 6, 8, 12} \<and> take (length p) (to_lower (ct_public_key c)) = p
      then Some (coalesce (jm_get index p) [] @ [c]) else jm_get index p)"
  by (auto simp: index_prefix_get)

lemma prefix_index_get:
  "coalesce (jm_get (buildPrefixIndex contacts) p) [] =
     (if length p \<in> {4, 6, 8, 12}
      then filter (\<lambda>c. take (length p) (to_lower (ct_public_key c)) = p) contacts else [])"
proof -
  have "coalesce (jm_get (fold (\<lambda>c. fold (index_prefix c) [4, 6, 8, 12]) contacts index) p) [] =
      coalesce (jm_get index p) [] @ (if length p \<in> {4, 6, 8, 12}
        then filter (\<lambda>c. take (length p) (to_lower (ct_public_key c)) = p) contacts else [])" for index
  proof (induction contacts arbitrary: index)
    case (Cons c cs)
    have "fold (\<lambda>c. fold (index_prefix c) [4, 6, 8, 12]) (c # cs) index =
        fold (\<lambda>c. fold (index_prefix c) [4, 6, 8, 12]) cs (fold (index_prefix c) [4, 6, 8, 12] index)" by simp
    then show ?case
      by (simp only: Cons.IH index_contact_get) (auto simp: coalesce_def)
  qed (simp add: coalesce_def)
  from this [of "[]"] show ?thesis by (simp add: buildPrefixIndex_def coalesce_def)
qed

lemma filter_single: "filter P xs = [x] \<Longrightarrow> x \<in> set xs \<and> P x"
  by (metis list.set_intros(1) mem_Collect_eq set_filter)

lemma only_located: "(case cs of [c] \<Rightarrow> if located c then Some c else None | _ \<Rightarrow> None) = Some x \<longleftrightarrow> cs = [x] \<and> located x"
  by (auto split: list.split)

lemma unique_contact:
  "uniqueGpsContact token index =
     (if isOneByteHopToken token then None
      else case coalesce (jm_get index (to_lower (js_trim token))) [] of [c] \<Rightarrow> if located c then Some c else None | _ \<Rightarrow> None)"
  by (auto simp: uniqueGpsContact_def coalesce_def split: option.split)

section \<open>Rays\<close>

definition ray_ok ::
    "(real \<Rightarrow> string) \<Rightarrow> origin_pin option \<Rightarrow> string list \<Rightarrow> live_observation list \<Rightarrow> string \<Rightarrow>
     fanout_hop \<times> live_observation \<Rightarrow> bool" where
  "ray_ok show_num origin spawned observations k ray \<longleftrightarrow>
     (case ray of (hop, obs) \<Rightarrow>
        obs \<in> set observations \<and> k = fh_key hop \<and> k \<notin> set spawned \<and>
        map_option (asFanoutHop show_num) (firstHopWaypoint obs) = Some hop \<and>
        (\<forall>o'. origin = Some o' \<longrightarrow> pin_place o' \<noteq> hop_at hop))"

lemma add_fanout_hop_ok:
  assumes "jm_wf m" and "jm_all (ray_ok show_num origin spawned all) m" and "obs \<in> set all"
  shows "jm_wf (add_fanout_hop show_num origin spawned obs m)" and
    "jm_all (ray_ok show_num origin spawned all) (add_fanout_hop show_num origin spawned obs m)"
proof -
  show "jm_wf (add_fanout_hop show_num origin spawned obs m)"
    using assms(1) by (auto simp: add_fanout_hop_def Let_def intro: jm_wf_set split: option.split)
  have "ray_ok show_num origin spawned all (fh_key hop) (hop, obs)"
    if "firstHopWaypoint obs = Some p" "hop = asFanoutHop show_num p" "fh_key hop \<notin> set spawned"
      "\<not> (case origin of Some o' \<Rightarrow> sameLocation (pin_place o') (hop_at hop) | None \<Rightarrow> False)" for p hop
    using that assms(3) by (auto simp: ray_ok_def sameLocation_def prod_eq_iff)
  then show "jm_all (ray_ok show_num origin spawned all) (add_fanout_hop show_num origin spawned obs m)"
    using assms(2) by (auto simp: add_fanout_hop_def Let_def intro: jm_all_set split: option.split)
qed

lemma fanout_hops_ok:
  assumes "set obs \<subseteq> set all"
  shows "jm_wf m \<Longrightarrow> jm_all (ray_ok show_num origin spawned all) m \<Longrightarrow>
     jm_wf (fold (add_fanout_hop show_num origin spawned) obs m) \<and>
     jm_all (ray_ok show_num origin spawned all) (fold (add_fanout_hop show_num origin spawned) obs m)"
  using assms by (induction obs arbitrary: m) (simp_all add: add_fanout_hop_ok)

text \<open>A key once found stays, and a first hop that may be drawn gets its key in.\<close>

lemma add_fanout_hop_keeps: "jm_has m k \<Longrightarrow> jm_has (add_fanout_hop show_num origin spawned obs m) k"
  by (auto simp: add_fanout_hop_def Let_def jm_has_iff jm_get_set split: option.split)

lemma fanout_keeps: "jm_has m k \<Longrightarrow> jm_has (fold (add_fanout_hop show_num origin spawned) obs m) k"
  by (induction obs arbitrary: m) (simp_all add: add_fanout_hop_keeps)

lemma fanout_complete:
  assumes "ob \<in> set obs" and "firstHopWaypoint ob = Some p" and "hopIdentity show_num p \<notin> set spawned"
    and "\<And>o'. origin = Some o' \<Longrightarrow> pin_place o' \<noteq> point_place p"
  shows "jm_has (fold (add_fanout_hop show_num origin spawned) obs m) (hopIdentity show_num p)"
  using assms(1)
proof (induction obs arbitrary: m)
  case (Cons a obs)
  have "jm_has (add_fanout_hop show_num origin spawned ob m) (hopIdentity show_num p)"
    using assms(2, 3, 4)
    by (auto simp: add_fanout_hop_def Let_def asFanoutHop_def hop_at_def point_place_def sameLocation_def prod_eq_iff
        jm_has_iff jm_get_set split: option.splits)
  then show ?case using Cons by (auto intro: fanout_keeps)
qed simp

lemma first_origin_in: "first_origin obs pins = Some o' \<Longrightarrow> \<exists>ob \<in> set obs. resolveOriginPin ob pins = Some o'"
  by (induction obs) (auto split: option.splits)

lemma find_pin:
  assumes "findPinByKey key pins = Some pin"
  shows "pin \<in> set pins \<and> (\<exists>k. key = Some k \<and> starts_with (pinKey (pin_public_key pin)) (to_lower (js_trim k)) \<and>
    (length (to_lower (js_trim k)) < 16 \<longrightarrow>
       filter (\<lambda>q. starts_with (pinKey (pin_public_key q)) (to_lower (js_trim k))) pins = [pin]))"
proof -
  obtain k where k: "key = Some k" and not_empty: "or_null key = Some k"
    using assms by (auto simp: findPinByKey_def or_null_def split: option.splits if_splits)
  let ?n = "to_lower (js_trim k)"
  have same: "(pinKey x = ?n \<or> starts_with (pinKey x) ?n) = starts_with (pinKey x) ?n" for x
    by (auto simp: starts_with_def)
  show ?thesis
  proof (cases "16 \<le> length ?n")
    case True
    then have "find (\<lambda>pin. pinKey (pin_public_key pin) = ?n) pins = Some pin"
      using assms by (simp add: findPinByKey_def not_empty Let_def split: if_splits)
    then show ?thesis using True k by (auto simp: find_Some_iff starts_with_def)
  next
    case False
    then have f: "filter (\<lambda>q. starts_with (pinKey (pin_public_key q)) ?n) pins = [pin]"
      using assms by (simp add: findPinByKey_def not_empty Let_def same split: if_splits list.splits)
    then have "pin \<in> set pins \<and> starts_with (pinKey (pin_public_key pin)) ?n" using filter_single [OF f] by simp
    then show ?thesis using f k by auto
  qed
qed

lemma source_origin:
  assumes "origin_by_source obs pins = Some pin"
  shows "\<exists>anchor src. firstHopAnchor obs = Some anchor \<and> map_option (\<lambda>s. to_lower (js_trim s)) (lo_srcHash obs) = Some src \<and>
     length src = 2 \<and> filter (near_anchor src anchor) pins = [pin]"
  using assms by (auto simp: origin_by_source_def Let_def split: option.splits if_splits list.splits)

section \<open>Properties\<close>

text \<open>
  C21: A checked frame is stable. A frame the check lets through is well formed (hashes, path and hops
  of one length, every resolved hop and the ear at a valid place), and checking it again, as the
  store and the map do with frames they receive, gives the same frame.
\<close>

theorem community_frame_stable:
  assumes "asCommunityPacket v = Some p"
  shows "frame_ok p \<and> asCommunityPacket (Some (packet_json p)) = Some p"
  using community_frame_ok [OF assms] packet_json_read by blast

definition sample_frame :: json where
  "sample_frame =
     JObject [(''v'', JNumber 2), (''event_id'', JString ''e1''), (''hash8'', JString '' ABCDEF01 ''), (''type'', JString ''grp_txt''),
       (''hops'', JArray [
          JObject [(''token'', JString ''a1b2''), (''confidence'', JString ''unresolved'')],
          JObject [(''token'', JString ''c3d4''), (''confidence'', JString ''exact''), (''lat'', JNumber 48), (''lon'', JNumber 2)]]),
       (''ear_id'', JString ''x''), (''t'', JNumber 7)]"

definition sample_hops :: "packet_hop list" where
  "sample_hops =
     [\<lparr>hp_token = ''a1b2'', hp_confidence = Unresolved, hp_lat = None, hp_lon = None, hp_reason = None, hp_pubkey = None,
       hp_name = None\<rparr>,
      \<lparr>hp_token = ''c3d4'', hp_confidence = Exact, hp_lat = Some 48, hp_lon = Some 2, hp_reason = None, hp_pubkey = None,
       hp_name = None\<rparr>]"

lemma valid_sample: "valid_rat (Some 48) (Some 2)"
  by (simp add: valid_rat_def isValidLocation_def)

lemma sample_frame_hops: "read_hops
    [JObject [(''token'', JString ''a1b2''), (''confidence'', JString ''unresolved'')],
     JObject [(''token'', JString ''c3d4''), (''confidence'', JString ''exact''), (''lat'', JNumber 48), (''lon'', JNumber 2)]] =
   Some sample_hops"
proof -
  have "js_trim ''a1b2'' = ''a1b2''" "js_trim ''c3d4'' = ''c3d4''" by code_simp+
  then show ?thesis
    by (simp add: readHop_def sample_hops_def field_object isRecord_def read_confidence_def valid_sample or_null_def)
qed

lemma sample_frame_checked: "\<exists>p. asCommunityPacket (Some sample_frame) = Some p \<and> cp_hops p = sample_hops \<and> cp_ear p = None"
proof -
  have "hash8_text '' ABCDEF01 '' = Some ''abcdef01''" "isCommunityPacketType ''grp_txt''" by code_simp+
  then show ?thesis
    using sample_frame_hops
    by (simp add: asCommunityPacket_def sample_frame_def field_object isRecord_def LIVE_COMMUNITY_SCHEMA_def or_null_def
        read_path_def readEar_def community_frame_def)
qed

theorem community_frame_stable_witness:
  "\<exists>p. asCommunityPacket (Some sample_frame) = Some p \<and> frame_ok p \<and> asCommunityPacket (Some (packet_json p)) = Some p"
  using sample_frame_checked community_frame_stable [of "Some sample_frame"] by blast

text \<open>
  C22: What the map draws of a community frame. All waypoints are valid places and none is unresolved;
  the hop points are exactly the resolved hops in their order, and one that follows an unresolved
  hop is at most probable; with a known ear the line ends there.
\<close>

theorem community_waypoints_sound:
  assumes "asCommunityPacket v = Some p" and "observationFromCommunity v = Some obs"
  shows "list_all point_ok (lo_waypoints obs) \<and>
     map (\<lambda>w. (wp_token w, wp_confidence w)) (filter (\<lambda>w. wp_kind w = HopPoint) (lo_waypoints obs)) =
       expected_hops True (cp_hops p) \<and>
     (case lo_ear obs of
        None \<Rightarrow> True
      | Some ear \<Rightarrow> lo_waypoints obs \<noteq> [] \<and> point_place (last (lo_waypoints obs)) = (ear_lat ear, ear_lon ear))"
proof -
  have "lo_waypoints obs = waypointsFromCommunity p" "lo_ear obs = map_option ear_of (cp_ear p)"
    using assms by (auto simp: observationFromCommunity_def)
  then show ?thesis
    using waypoints_community [OF community_frame_ok [OF assms(1)]] by (auto split: option.split)
qed

theorem community_waypoints_sound_witness:
  "\<exists>obs. observationFromCommunity (Some sample_frame) = Some obs \<and>
     map (\<lambda>w. (wp_token w, wp_confidence w)) (filter (\<lambda>w. wp_kind w = HopPoint) (lo_waypoints obs)) = [(''c3d4'', Probable)]"
proof -
  obtain p where p: "asCommunityPacket (Some sample_frame) = Some p" "cp_hops p = sample_hops"
    using sample_frame_checked by blast
  obtain obs where obs: "observationFromCommunity (Some sample_frame) = Some obs"
    using p(1) by (simp add: observationFromCommunity_def)
  have "expected_hops True sample_hops = [(''c3d4'', Probable)]" by (simp add: expected_hops_def sample_hops_def)
  then show ?thesis using community_waypoints_sound [OF p(1) obs] p(2) obs by auto
qed

text \<open>
  A hop of an own packet is placed at a contact exactly when the hop has at least two bytes and a
  width of the index, one contact alone has a key that starts with it, and this contact is located.
\<close>

theorem raw_hop_placed_exactly:
  "uniqueGpsContact token (buildPrefixIndex contacts) = Some c \<longleftrightarrow>
     (let p = to_lower (js_trim token) in
      4 \<le> hopTokenHexLength token \<and> length p \<in> {4, 6, 8, 12} \<and>
      filter (\<lambda>c. take (length p) (to_lower (ct_public_key c)) = p) contacts = [c] \<and> located c)"
  by (cases "length (to_lower (js_trim token)) \<in> {4, 6, 8, 12}")
    (simp_all add: unique_contact prefix_index_get only_located isOneByteHopToken_def MIN_NAMED_HOP_HEX_CHARS_def not_less Let_def)

text \<open>
  The origin is never guessed. A packet gets an origin only from the pin with the advertised key, from
  the only pin that key prefix fits, or from the only pin within 20 km of the first located hop (of
  the ear when there is none) whose key starts with the source byte.
\<close>

theorem origin_never_guessed:
  assumes "resolveOriginPin obs pins = Some pin"
  shows "pin \<in> set pins \<and>
    ((\<exists>k. lo_advertPubkey obs = Some k \<and> starts_with (pinKey (pin_public_key pin)) (to_lower (js_trim k)) \<and>
        (16 \<le> length (to_lower (js_trim k)) \<or>
         filter (\<lambda>q. starts_with (pinKey (pin_public_key q)) (to_lower (js_trim k))) pins = [pin])) \<or>
     (\<exists>anchor src. firstHopAnchor obs = Some anchor \<and> length src = 2 \<and>
        map_option (\<lambda>s. to_lower (js_trim s)) (lo_srcHash obs) = Some src \<and> filter (near_anchor src anchor) pins = [pin]))"
proof (cases "findPinByKey (or_null (lo_advertPubkey obs)) pins")
  case None
  then have "origin_by_source obs pins = Some pin" using assms by (simp add: resolveOriginPin_def)
  from source_origin [OF this] obtain anchor src where o: "firstHopAnchor obs = Some anchor" "length src = 2"
    "map_option (\<lambda>s. to_lower (js_trim s)) (lo_srcHash obs) = Some src" "filter (near_anchor src anchor) pins = [pin]" by blast
  have "pin \<in> set pins" using filter_single [OF o(4)] by simp
  then show ?thesis using o by blast
next
  case (Some a)
  then have "findPinByKey (or_null (lo_advertPubkey obs)) pins = Some pin" using assms by (simp add: resolveOriginPin_def)
  from find_pin [OF this] show ?thesis using or_null_not_empty(3) [of "lo_advertPubkey obs"] by (auto simp: not_less)
qed

definition sample_observation :: live_observation where
  "sample_observation =
     \<lparr>lo_id = ''1'', lo_hash8 = ''abcdef01'', lo_packetHash = None, lo_source = LocalFeed, lo_type = ''advert'', lo_snr = None,
      lo_iata = None, lo_t = 0, lo_earId = ''x'', lo_ear = None, lo_waypoints = [], lo_routeKind = FloodKind,
      lo_advertPubkey = Some ''AB'', lo_srcHash = None, lo_originGps = None\<rparr>"

definition sample_pins :: "origin_pin list" where
  "sample_pins = [\<lparr>pin_public_key = ''cd34'', pin_lat = 48, pin_lon = 2\<rparr>, \<lparr>pin_public_key = ''ab12'', pin_lat = 45, pin_lon = 5\<rparr>]"

lemma sample_origin: "resolveOriginPin sample_observation sample_pins = Some (sample_pins ! 1)"
proof -
  have "to_lower (js_trim ''AB'') = ''ab''" "pinKey ''cd34'' = ''cd34''" "pinKey ''ab12'' = ''ab12''" by code_simp+
  then show ?thesis
    by (simp add: resolveOriginPin_def findPinByKey_def sample_observation_def sample_pins_def or_null_def Let_def starts_with_def)
qed

theorem origin_never_guessed_witness: "sample_pins ! 1 \<in> set sample_pins"
  using origin_never_guessed [OF sample_origin] by blast

text \<open>What a ray has to be, and when the first hop of an observation needs none.\<close>

definition laser_ok ::
    "(real \<Rightarrow> string) \<Rightarrow> live_observation list \<Rightarrow> origin_pin list \<Rightarrow> string list \<Rightarrow> origin_pin \<Rightarrow> fanout_laser \<Rightarrow> bool" where
  "laser_ok show_num observations pins spawned origin l \<longleftrightarrow>
     fl_origin l = origin \<and> fl_obs l \<in> set observations \<and>
     map_option (asFanoutHop show_num) (firstHopWaypoint (fl_obs l)) = Some (fl_hop l) \<and> fl_key l = fh_key (fl_hop l) \<and>
     fl_key l \<notin> set spawned \<and> pin_place origin \<noteq> hop_at (fl_hop l) \<and>
     \<not> primaryPolylineCoversOriginHop (fl_obs l) origin (fl_hop l) pins"

definition no_ray_needed ::
    "(real \<Rightarrow> string) \<Rightarrow> live_observation list \<Rightarrow> origin_pin list \<Rightarrow> string list \<Rightarrow> origin_pin \<Rightarrow> live_waypoint \<Rightarrow> bool" where
  "no_ray_needed show_num observations pins spawned origin p \<longleftrightarrow>
     hopIdentity show_num p \<in> set spawned \<or> pin_place origin = point_place p \<or>
     list_ex (\<lambda>obs. case firstHopWaypoint obs of
         Some q \<Rightarrow> hopIdentity show_num q = hopIdentity show_num p \<and>
           primaryPolylineCoversOriginHop obs origin (asFanoutHop show_num q) pins
       | None \<Rightarrow> False) observations"

lemma fanout_key [simp]: "fh_key (asFanoutHop show_num q) = hopIdentity show_num q"
  by (simp add: asFanoutHop_def)

lemma fanout_lasers:
  assumes "first_origin observations pins = Some o'"
  shows "distinct (map fl_key (fp_lasers (fanoutFromOrigin show_num observations pins spawned)))" and
    "list_all (laser_ok show_num observations pins spawned o') (fp_lasers (fanoutFromOrigin show_num observations pins spawned))" and
    "ob \<in> set observations \<Longrightarrow> firstHopWaypoint ob = Some p \<Longrightarrow>
       no_ray_needed show_num observations pins spawned o' p \<or>
       list_ex (\<lambda>l. fl_key l = hopIdentity show_num p) (fp_lasers (fanoutFromOrigin show_num observations pins spawned))"
proof -
  define m where "m = fold (add_fanout_hop show_num (Some o') spawned) observations []"
  let ?draw = "filter (\<lambda>(_, hop, obs). \<not> primaryPolylineCoversOriginHop obs o' hop pins) m"
  have m: "jm_wf m" "jm_all (ray_ok show_num (Some o') spawned observations) m"
    using fanout_hops_ok [of observations observations "[]"] by (simp_all add: m_def)
  have lasers: "fp_lasers (fanoutFromOrigin show_num observations pins spawned) =
      map (\<lambda>(_, hop, obs). \<lparr>fl_key = fh_key hop, fl_origin = o', fl_hop = hop, fl_obs = obs\<rparr>) ?draw"
    using assms by (simp add: fanoutFromOrigin_def Let_def m_def)
  have key: "k = fh_key hop \<and> ray_ok show_num (Some o') spawned observations k (hop, obs)" if "(k, hop, obs) \<in> set m" for k hop obs
    using m(2) that by (auto simp: jm_all_def ray_ok_def)
  have "map fl_key (fp_lasers (fanoutFromOrigin show_num observations pins spawned)) = jm_keys ?draw"
    unfolding lasers jm_keys_def by (auto dest: key)
  then show "distinct (map fl_key (fp_lasers (fanoutFromOrigin show_num observations pins spawned)))"
    using jm_wf_filter [OF m(1)] by (simp add: jm_wf_def)
  show "list_all (laser_ok show_num observations pins spawned o') (fp_lasers (fanoutFromOrigin show_num observations pins spawned))"
    using key by (auto simp: lasers list_all_iff ray_ok_def laser_ok_def)
  show "no_ray_needed show_num observations pins spawned o' p \<or>
      list_ex (\<lambda>l. fl_key l = hopIdentity show_num p) (fp_lasers (fanoutFromOrigin show_num observations pins spawned))"
    if ob: "ob \<in> set observations" "firstHopWaypoint ob = Some p"
  proof (cases "no_ray_needed show_num observations pins spawned o' p")
    case needed: False
    then have "jm_has m (hopIdentity show_num p)"
      unfolding m_def no_ray_needed_def by (intro fanout_complete [OF ob]) auto
    then obtain hop obs where e: "(hopIdentity show_num p, hop, obs) \<in> set m"
      by (auto simp: jm_has_iff dest: jm_get_in_set)
    then obtain q where "firstHopWaypoint obs = Some q" "hop = asFanoutHop show_num q" "obs \<in> set observations"
      "hopIdentity show_num q = hopIdentity show_num p"
      using key [OF e] by (auto simp: ray_ok_def)
    then have "\<not> primaryPolylineCoversOriginHop obs o' hop pins"
      using needed by (auto simp: no_ray_needed_def list_ex_iff)
    then have "list_ex (\<lambda>l. fl_key l = hopIdentity show_num p) (fp_lasers (fanoutFromOrigin show_num observations pins spawned))"
      using e key [OF e] unfolding lasers list_ex_iff by force
    then show ?thesis ..
  qed simp
qed

text \<open>
  The rays of a packet. They all leave the one origin of the packet, each towards the first located
  hop of one of its observations, under different keys none of which was drawn before, and to another
  place than the origin; every first hop has its ray, unless it was drawn before, lies at the origin, or
  the line of an observation with the same key already joins the origin and the hop.
\<close>

theorem fanout_exact:
  "let plan = fanoutFromOrigin show_num observations pins spawned in
     case fp_origin plan of
       None \<Rightarrow> fp_lasers plan = [] \<and> list_all (\<lambda>obs. resolveOriginPin obs pins = None) observations
     | Some o' \<Rightarrow>
         list_ex (\<lambda>obs. resolveOriginPin obs pins = Some o') observations \<and>
         distinct (map fl_key (fp_lasers plan)) \<and>
         list_all (laser_ok show_num observations pins spawned o') (fp_lasers plan) \<and>
         list_all (\<lambda>obs. case firstHopWaypoint obs of
             None \<Rightarrow> True
           | Some p \<Rightarrow>
               no_ray_needed show_num observations pins spawned o' p \<or>
               list_ex (\<lambda>l. fl_key l = hopIdentity show_num p) (fp_lasers plan)) observations"
proof (cases "first_origin observations pins")
  case None
  then have "list_all (\<lambda>obs. resolveOriginPin obs pins = None) observations"
    by (induction observations) (auto split: option.splits)
  then show ?thesis using None by (simp add: fanoutFromOrigin_def Let_def)
next
  case (Some o')
  have "fp_origin (fanoutFromOrigin show_num observations pins spawned) = Some o'"
    using Some by (simp add: fanoutFromOrigin_def Let_def)
  moreover have "list_all (\<lambda>obs. case firstHopWaypoint obs of
      None \<Rightarrow> True
    | Some p \<Rightarrow>
        no_ray_needed show_num observations pins spawned o' p \<or>
        list_ex (\<lambda>l. fl_key l = hopIdentity show_num p) (fp_lasers (fanoutFromOrigin show_num observations pins spawned)))
      observations"
    unfolding list_all_iff using fanout_lasers(3) [OF Some] by (auto split: option.split)
  moreover have "list_ex (\<lambda>obs. resolveOriginPin obs pins = Some o') observations"
    using first_origin_in [OF Some] by (simp add: list_ex_iff)
  ultimately show ?thesis using fanout_lasers(1, 2) [OF Some] by (simp add: Let_def)
qed

end
