(* ===== verification/LiveStore.thy ===== *)
theory LiveStore
  imports LivePackets
begin

text \<open>
  \<^verbatim>\<open>stores/livePacketStore.ts\<close>: the recent frames of the community feed and the state of its relay, as the
  live view shows it. Notifications of the subscribers are counted. A packet or a status is the value
  the socket delivered.
\<close>

definition MAX_LIVE_COMMUNITY_PACKETS :: nat where
  "MAX_LIVE_COMMUNITY_PACKETS = 200"

datatype live_banner_kind = OptOutBanner | AuthRejectedBanner | BannedBanner
datatype live_auth_error = ClockSkew | TokenRejected

record live_connection =
  lc_optOut :: bool
  lc_authError :: "live_auth_error option"
  lc_clockSkewS :: "int option"
  lc_paused :: bool
  lc_banned :: bool
  lc_banner :: "live_banner_kind option"

definition INITIAL_CONNECTION :: live_connection where
  "INITIAL_CONNECTION =
     \<lparr>lc_optOut = False, lc_authError = None, lc_clockSkewS = None, lc_paused = False, lc_banned = False, lc_banner = None\<rparr>"

record live_store =
  ls_packets :: "community_packet list"
  ls_connection :: live_connection
  ls_notified :: nat

definition live_init :: live_store where
  "live_init = \<lparr>ls_packets = [], ls_connection = INITIAL_CONNECTION, ls_notified = 0\<rparr>"

definition emit_live :: "live_store \<Rightarrow> live_store" where
  "emit_live s = s\<lparr>ls_notified := ls_notified s + 1\<rparr>"

definition liveBanner :: "bool \<Rightarrow> bool \<Rightarrow> live_auth_error option \<Rightarrow> live_banner_kind option" where
  "liveBanner optOut banned authError =
     (if optOut then Some OptOutBanner
      else if banned then Some BannedBanner
      else if authError \<noteq> None then Some AuthRejectedBanner
      else None)"

definition normalizeAuthError :: "json option \<Rightarrow> live_auth_error option" where
  "normalizeAuthError v =
     (if v = Some (JString ''clock_skew'') then Some ClockSkew
      else if v = Some (JString ''token_rejected'') then Some TokenRejected
      else None)"

definition setConnection :: "live_connection \<Rightarrow> live_store \<Rightarrow> live_store" where
  "setConnection c s = (if ls_connection s = c then s else emit_live (s\<lparr>ls_connection := c\<rparr>))"

definition liveBannerI18nKey :: "live_connection \<Rightarrow> string option" where
  "liveBannerI18nKey c =
     (case lc_banner c of
        Some OptOutBanner \<Rightarrow> Some ''live.bannerOptOut''
      | Some BannedBanner \<Rightarrow> Some ''live.bannerBanned''
      | Some AuthRejectedBanner \<Rightarrow>
          Some (if lc_authError c = Some ClockSkew then ''live.bannerClockSkew'' else ''live.bannerTokenRejected'')
      | None \<Rightarrow> None)"

text \<open>A frame that passed the check is added, unless its event is already there.\<close>

definition add_frame :: "community_packet \<Rightarrow> live_store \<Rightarrow> live_store" where
  "add_frame frame s =
     (if cp_event_id frame \<in> cp_event_id ` set (ls_packets s) then s
      else
        let next = ls_packets s @ [frame] in
        emit_live (s\<lparr>ls_packets := (if MAX_LIVE_COMMUNITY_PACKETS < length next
          then drop (length next - MAX_LIVE_COMMUNITY_PACKETS) next else next)\<rparr>))"

definition recordCommunityPacket :: "json option \<Rightarrow> live_store \<Rightarrow> live_store" where
  "recordCommunityPacket packet s =
     (case asCommunityPacket packet of None \<Rightarrow> s | Some frame \<Rightarrow> add_frame frame s)"

text \<open>\<^verbatim>\<open>Math.round\<close>.\<close>

definition math_round :: "rat \<Rightarrow> int" where
  "math_round x = \<lfloor>x + 1 / 2\<rfloor>"

definition applyLiveStatus :: "json option \<Rightarrow> live_store \<Rightarrow> live_store" where
  "applyLiveStatus status s =
     (let state = field ''state'' status;
          optOut = (field ''opted_out'' status = Some (JBool True));
          banned = (\<not> optOut \<and> state = Some (JString ''banned''));
          authError =
            (if optOut \<or> banned then None
             else case normalizeAuthError (field ''auth_error'' status) of
               Some e \<Rightarrow> Some e
             | None \<Rightarrow> if state = Some (JString ''auth_rejected'') then Some TokenRejected else None);
          clockSkewS = (if authError \<noteq> None then map_option math_round (number_of (field ''clock_skew_s'' status)) else None);
          paused = (\<not> optOut \<and> \<not> banned \<and> authError = None \<and> state = Some (JString ''paused''))
      in setConnection
           \<lparr>lc_optOut = optOut, lc_authError = authError, lc_clockSkewS = clockSkewS, lc_paused = paused,
            lc_banned = banned, lc_banner = liveBanner optOut banned authError\<rparr> s)"

definition resetLivePacketStore :: "live_store \<Rightarrow> live_store" where
  "resetLivePacketStore s = emit_live (s\<lparr>ls_packets := [], ls_connection := INITIAL_CONNECTION\<rparr>)"

datatype live_event = LivePacket "json option" | LiveStatus "json option" | LiveReset

fun live_step :: "live_event \<Rightarrow> live_store \<Rightarrow> live_store" where
  "live_step (LivePacket v) s = recordCommunityPacket v s"
| "live_step (LiveStatus v) s = applyLiveStatus v s"
| "live_step LiveReset s = resetLivePacketStore s"

section \<open>The buffer of frames\<close>

lemma add_frame_packets:
  "ls_packets (add_frame f s) =
     (if cp_event_id f \<in> cp_event_id ` set (ls_packets s) then ls_packets s
      else drop (length (ls_packets s) + 1 - MAX_LIVE_COMMUNITY_PACKETS) (ls_packets s @ [f]))"
  by (auto simp: add_frame_def emit_live_def Let_def)

interpretation live_buffer: dedup_buffer MAX_LIVE_COMMUNITY_PACKETS id cp_event_id add_frame ls_packets "\<lambda>s. True"
  by unfold_locales (simp_all add: add_frame_packets)

definition connection_ok :: "live_connection \<Rightarrow> bool" where
  "connection_ok c \<longleftrightarrow>
     lc_banner c = liveBanner (lc_optOut c) (lc_banned c) (lc_authError c) \<and>
     (lc_optOut c \<longrightarrow> \<not> lc_banned c \<and> lc_authError c = None \<and> \<not> lc_paused c) \<and>
     (lc_banned c \<longrightarrow> lc_authError c = None \<and> \<not> lc_paused c) \<and>
     (lc_authError c \<noteq> None \<longrightarrow> \<not> lc_paused c) \<and> (lc_clockSkewS c \<noteq> None \<longrightarrow> lc_authError c \<noteq> None)"

definition live_ok :: "live_store \<Rightarrow> bool" where
  "live_ok s \<longleftrightarrow>
     length (ls_packets s) \<le> MAX_LIVE_COMMUNITY_PACKETS \<and> distinct (map cp_event_id (ls_packets s)) \<and>
     list_all frame_ok (ls_packets s) \<and> connection_ok (ls_connection s)"

lemma add_frame_ok: "live_ok s \<Longrightarrow> frame_ok f \<Longrightarrow> live_ok (add_frame f s)"
proof -
  assume s: "live_ok s" and f: "frame_ok f"
  have "set (ls_packets (add_frame f s)) \<subseteq> insert f (set (ls_packets s))"
    by (auto simp: add_frame_packets dest: in_set_dropD)
  moreover have "ls_connection (add_frame f s) = ls_connection s" by (simp add: add_frame_def emit_live_def Let_def)
  ultimately show ?thesis
    using s f live_buffer.buffer_distinct [of s f] live_buffer.buffer_bounded [of s f]
    by (auto simp: live_ok_def list_all_iff)
qed

lemma status_connection_ok: "connection_ok (ls_connection s) \<Longrightarrow> connection_ok (ls_connection (applyLiveStatus v s))"
  by (auto simp: applyLiveStatus_def setConnection_def emit_live_def connection_ok_def Let_def split: option.split)

lemma status_packets [simp]: "ls_packets (applyLiveStatus v s) = ls_packets s"
  by (simp add: applyLiveStatus_def setConnection_def emit_live_def Let_def)

lemma initial_connection_ok: "connection_ok INITIAL_CONNECTION"
  by (simp add: connection_ok_def INITIAL_CONNECTION_def liveBanner_def)

interpretation live_machine: event_machine live_step live_ok "\<lambda>e. True"
proof unfold_locales
  fix s e assume s: "live_ok s"
  show "live_ok (live_step e s)"
  proof (cases e)
    case (LivePacket v)
    then show ?thesis using s by (auto simp: recordCommunityPacket_def intro: add_frame_ok community_frame_ok split: option.split)
  next
    case (LiveStatus v)
    then show ?thesis using s by (simp add: live_ok_def status_connection_ok)
  next
    case LiveReset
    then show ?thesis by (simp add: resetLivePacketStore_def emit_live_def live_ok_def initial_connection_ok)
  qed
qed

section \<open>Properties\<close>

text \<open>
  After any frames, status messages and resets the live store holds at most 200 frames, all checked and
  no event twice, and its banner is the one of the reported state: opt-out before a ban before a
  refused token, never together with a pause, and a clock difference only with a refused token.
\<close>

theorem live_store_sound: "live_ok (fold live_step es live_init)"
proof -
  have "live_ok live_init" by (simp add: live_init_def live_ok_def initial_connection_ok)
  then show ?thesis by (rule live_machine.run_inv) (simp add: list_all_iff)
qed

text \<open>A frame that is delivered again notifies nobody and changes nothing.\<close>

lemma frame_again: "recordCommunityPacket v (recordCommunityPacket v s) = recordCommunityPacket v s"
proof (cases "asCommunityPacket v")
  case (Some f)
  have "cp_event_id f \<in> cp_event_id ` set (ls_packets (add_frame f s))"
  proof (cases "cp_event_id f \<in> cp_event_id ` set (ls_packets s)")
    case False
    then have "last (ls_packets (add_frame f s)) = f \<and> ls_packets (add_frame f s) \<noteq> []"
      using live_buffer.buffer_latest [of f s] by (simp add: MAX_LIVE_COMMUNITY_PACKETS_def)
    then show ?thesis by (metis image_eqI last_in_set)
  qed (simp add: add_frame_packets)
  then show ?thesis using Some by (simp add: recordCommunityPacket_def add_frame_def [of f "add_frame f s"])
qed (simp add: recordCommunityPacket_def)

end
