(* ===== verification/ObserverReach.thy ===== *)
theory ObserverReach
  imports LivePackets
begin

text \<open>
  How many observers heard a message (\<^verbatim>\<open>hooks/useVisibleObserverReach.ts\<close>, \<^verbatim>\<open>utils/observerReach.ts\<close>): the
  counts of the visible messages are polled in batches while they are young, kept in a cache of the
  module, and raised by the packets of the community feed in between.

  The record \<open>reach\<close> holds the variables of the module, which outlive the hook, the state and refs of the
  hook, and its polling effect: \<open>ob_effect\<close> numbers the runs of the effect, so that a request of an earlier
  run is a cancelled one. Time is in milliseconds; \<open>offsetSec\<close> is what \<open>getServerClockOffsetSec\<close> returns.
\<close>

section \<open>Ages\<close>

definition OUTGOING_REACH_DELAY_MS :: int where
  "OUTGOING_REACH_DELAY_MS = 0"

definition YOUNG_REACH_MS :: int where
  "YOUNG_REACH_MS = 60000"

definition MID_REACH_MS :: int where
  "MID_REACH_MS = 10 * 60000"

definition YOUNG_POLL_MS :: int where
  "YOUNG_POLL_MS = 2000"

definition MID_POLL_MS :: int where
  "MID_POLL_MS = 60000"

definition packet_hash_of :: "message \<Rightarrow> string option" where
  "packet_hash_of msg = (case msg_packet_hash msg of Some (Some h) \<Rightarrow> Some h | _ \<Rightarrow> None)"

definition isObserverReachEligible :: "message \<Rightarrow> bool" where
  "isObserverReachEligible msg \<longleftrightarrow>
     or_null (packet_hash_of msg) \<noteq> None \<and> msg_observer_reach_eligible msg \<noteq> Some (Some False)"

definition messageAgeMs :: "message \<Rightarrow> int \<Rightarrow> int \<Rightarrow> int" where
  "messageAgeMs msg nowMs offsetSec = nowMs - (msg_received_at msg + offsetSec) * 1000"

definition isOutgoingReachReady :: "message \<Rightarrow> int \<Rightarrow> int \<Rightarrow> bool" where
  "isOutgoingReachReady msg nowMs offsetSec \<longleftrightarrow>
     \<not> msg_outgoing msg \<or> OUTGOING_REACH_DELAY_MS \<le> messageAgeMs msg nowMs offsetSec"

definition observerReachPollIntervalMs :: "int \<Rightarrow> int option" where
  "observerReachPollIntervalMs ageMs =
     (if ageMs < YOUNG_REACH_MS then Some YOUNG_POLL_MS
      else if ageMs < MID_REACH_MS then Some MID_POLL_MS
      else None)"

section \<open>The cache of counts\<close>

definition BATCH_MAX :: nat where
  "BATCH_MAX = 20"

definition RETRY_BACKOFF_MS :: int where
  "RETRY_BACKOFF_MS = 30000"

definition RETRY_BACKOFF_MAX_MS :: int where
  "RETRY_BACKOFF_MAX_MS = 4 * 60000"

datatype reach_count = ReachLoading | ReachOk int | ReachError

record reach_entry =
  ent_at :: int
  ent_state :: reach_count
  ent_sealed :: bool
  ent_failures :: nat

record reach_request =
  oq_effect :: nat
  oq_for :: string
  oq_hashes :: "string list"

record reach =
  ob_countCache :: "(string, reach_entry) jsmap"
  ob_lastFetchAt :: "(string, int) jsmap"
  ob_liveSeenEars :: "string list"
  ob_counts :: "(string, reach_count) jsmap"
  ob_enabled :: bool
  ob_conversation :: "string option"
  ob_messages :: "message list"
  ob_visible :: "nat list"
  ob_signature :: string
  ob_effect :: nat
  ob_debounce :: bool
  ob_wake :: "int option"
  ob_requests :: "reach_request list"

definition reach_init :: reach where
  "reach_init =
     \<lparr>ob_countCache = [], ob_lastFetchAt = [], ob_liveSeenEars = [], ob_counts = [], ob_enabled = False,
      ob_conversation = None, ob_messages = [], ob_visible = [], ob_signature = [], ob_effect = 0, ob_debounce = False,
      ob_wake = None, ob_requests = []\<rparr>"

datatype reach_event = Hash16 string string | Hash8 string string

definition retryBackoffMs :: "nat \<Rightarrow> int" where
  "retryBackoffMs failures = min (RETRY_BACKOFF_MS * 2 ^ (failures - 1)) RETRY_BACKOFF_MAX_MS"

definition responseSealed :: "(string \<rightharpoonup> bool) option \<Rightarrow> string \<Rightarrow> bool" where
  "responseSealed sealed hash =
     (case sealed of None \<Rightarrow> False | Some m \<Rightarrow> m hash = Some True \<or> m (to_lower hash) = Some True)"

definition cacheKey :: "string \<Rightarrow> string \<Rightarrow> string" where
  "cacheKey originConversation hash = originConversation @ '':'' @ to_upper hash"

definition resetObserverReachCountCache :: "reach \<Rightarrow> reach" where
  "resetObserverReachCountCache s = s\<lparr>ob_countCache := [], ob_lastFetchAt := [], ob_liveSeenEars := []\<rparr>"

definition noteSeenEar :: "string \<Rightarrow> string \<Rightarrow> reach \<Rightarrow> reach \<times> bool" where
  "noteSeenEar hashUpper earId s =
     (let key = hashUpper @ '':'' @ earId in
      if key \<in> set (ob_liveSeenEars s) then (s, False)
      else (s\<lparr>ob_liveSeenEars := ob_liveSeenEars s @ [key]\<rparr>, True))"

definition bumpVisibleCount :: "string \<Rightarrow> string \<Rightarrow> int \<Rightarrow> reach \<Rightarrow> reach \<times> reach_count" where
  "bumpVisibleCount originConversation hashUpper now s =
     (let key = cacheKey originConversation hashUpper;
          prev = jm_get (ob_countCache s) key;
          nextCount = (case map_option ent_state prev of Some (ReachOk n) \<Rightarrow> n + 1 | _ \<Rightarrow> 1);
          entry = \<lparr>ent_at = now, ent_state = ReachOk nextCount,
                   ent_sealed = (case prev of Some p \<Rightarrow> ent_sealed p | None \<Rightarrow> False),
                   ent_failures = (case prev of Some p \<Rightarrow> ent_failures p | None \<Rightarrow> 0)\<rparr>
      in (s\<lparr>ob_countCache := jm_set key entry (ob_countCache s)\<rparr>, ReachOk nextCount))"

text \<open>\<^verbatim>\<open>messages[i]\<close> for an index that may be out of range.\<close>

definition message_at :: "message list \<Rightarrow> nat \<Rightarrow> message option" where
  "message_at messages i = (if i < length messages then Some (messages ! i) else None)"

fun collect_hashes :: "message list \<Rightarrow> nat list \<Rightarrow> string list \<Rightarrow> string list" where
  "collect_hashes messages [] hashes = hashes"
| "collect_hashes messages (i # is) hashes =
     collect_hashes messages is
       (case message_at messages i of
          Some msg \<Rightarrow> if isObserverReachEligible msg then js_add (to_upper (the (packet_hash_of msg))) hashes else hashes
        | None \<Rightarrow> hashes)"

definition eligibleVisibleHashes :: "message list \<Rightarrow> nat list \<Rightarrow> string list" where
  "eligibleVisibleHashes messages visibleIndexes = collect_hashes messages visibleIndexes []"

section \<open>The hook\<close>

definition reach_on :: "reach \<Rightarrow> string option" where
  "reach_on s = (if ob_enabled s then or_null (ob_conversation s) else None)"

text \<open>The eligible messages with their indexes, in the order of the list.\<close>

definition loaded_eligible :: "message list \<Rightarrow> (nat \<times> message) list" where
  "loaded_eligible messages = filter (\<lambda>(i, msg). isObserverReachEligible msg) (enumerate 0 messages)"

definition hash_upper :: "message \<Rightarrow> string" where
  "hash_upper msg = to_upper (coalesce (packet_hash_of msg) [])"

definition event_target :: "reach_event \<Rightarrow> message list \<Rightarrow> nat list \<Rightarrow> message option" where
  "event_target event messages visible =
     (let loaded = loaded_eligible messages in
      case event of
        Hash16 hash earId \<Rightarrow> map_option snd (find (\<lambda>(i, msg). i \<in> set visible \<and> hash_upper msg = hash) loaded)
      | Hash8 hash8 earId \<Rightarrow>
          (case filter (\<lambda>(i, msg). js_slice 0 8 (to_lower (coalesce (packet_hash_of msg) [])) = hash8) loaded of
             [(i, msg)] \<Rightarrow> if i \<in> set visible then Some msg else None
           | _ \<Rightarrow> None))"

fun event_ear :: "reach_event \<Rightarrow> string" where
  "event_ear (Hash16 hash earId) = earId"
| "event_ear (Hash8 hash8 earId) = earId"

text \<open>The hash an event counts for, when it does.\<close>

definition counted_hash :: "reach_event \<Rightarrow> int \<Rightarrow> int \<Rightarrow> reach \<Rightarrow> string option" where
  "counted_hash event now offsetSec s =
     (case event_target event (ob_messages s) (ob_visible s) of
        None \<Rightarrow> None
      | Some target \<Rightarrow>
          if YOUNG_REACH_MS \<le> messageAgeMs target now offsetSec then None else Some (hash_upper target))"

definition onEvent :: "reach_event \<Rightarrow> int \<Rightarrow> int \<Rightarrow> reach \<Rightarrow> reach" where
  "onEvent event now offsetSec s =
     (case reach_on s of
        None \<Rightarrow> s
      | Some startedFor \<Rightarrow>
          (case counted_hash event now offsetSec s of
             None \<Rightarrow> s
           | Some hash \<Rightarrow>
               let (s1, fresh) = noteSeenEar hash (event_ear event) s in
               if \<not> fresh then s
               else
                 let (s2, state) = bumpVisibleCount startedFor hash now s1 in
                 s2\<lparr>ob_counts := jm_set hash state (ob_counts s2)\<rparr>))"

text \<open>
  The feed: \<open>packet\<close> is the value the socket delivered. A \<^verbatim>\<open>hash8\<close> that is neither absent nor a string would
  throw in \<^verbatim>\<open>trim\<close>; the type of the frame excludes it.
\<close>

definition tick_event :: "json option \<Rightarrow> reach_event option" where
  "tick_event packet =
     (case or_null (text_of (field ''ear_id'' packet)) of
        None \<Rightarrow> None
      | Some earId \<Rightarrow>
          (case normalizePacketHash16 (field ''packet_hash'' packet) of
             Some hash16 \<Rightarrow> Some (Hash16 (to_upper hash16) earId)
           | None \<Rightarrow>
               let hash8 = to_lower (js_trim (coalesce (text_of (field ''hash8'' packet)) [])) in
               if length hash8 = 8 \<and> list_all lower_hex hash8 then Some (Hash8 hash8 earId) else None))"

definition applyCommunityPacketObserverTick :: "json option \<Rightarrow> int \<Rightarrow> int \<Rightarrow> reach \<Rightarrow> reach" where
  "applyCommunityPacketObserverTick packet now offsetSec s =
     (case tick_event packet of None \<Rightarrow> s | Some event \<Rightarrow> onEvent event now offsetSec s)"

subsection \<open>Polling\<close>

definition wake_candidate :: "string \<Rightarrow> int \<Rightarrow> int \<Rightarrow> reach \<Rightarrow> nat \<Rightarrow> int option" where
  "wake_candidate startedFor now offsetSec s i =
     (case message_at (ob_messages s) i of
        None \<Rightarrow> None
      | Some msg \<Rightarrow>
          if \<not> isObserverReachEligible msg then None
          else if \<not> isOutgoingReachReady msg now offsetSec then
            Some (OUTGOING_REACH_DELAY_MS - messageAgeMs msg now offsetSec)
          else
            let key = cacheKey startedFor (hash_upper msg);
                entry = jm_get (ob_countCache s) key
            in if (case entry of Some e \<Rightarrow> ent_sealed e | None \<Rightarrow> False) then None
               else
                 (case jm_get (ob_lastFetchAt s) key of
                    None \<Rightarrow> Some 1
                  | Some lastAt \<Rightarrow>
                      let waitFor = (case observerReachPollIntervalMs (messageAgeMs msg now offsetSec) of
                            Some interval \<Rightarrow> interval
                          | None \<Rightarrow> retryBackoffMs (case entry of Some e \<Rightarrow> ent_failures e | None \<Rightarrow> 1))
                      in Some (waitFor - (now - lastAt))))"

definition consider_wait :: "int option \<Rightarrow> int option \<Rightarrow> int option" where
  "consider_wait wait soonest =
     (case wait of
        None \<Rightarrow> soonest
      | Some w \<Rightarrow> if w \<le> 0 then soonest else (case soonest of None \<Rightarrow> Some w | Some t \<Rightarrow> Some (min t w)))"

definition nextWakeMs :: "string \<Rightarrow> int \<Rightarrow> int \<Rightarrow> reach \<Rightarrow> int option" where
  "nextWakeMs startedFor now offsetSec s =
     fold (\<lambda>i. consider_wait (wake_candidate startedFor now offsetSec s i)) (ob_visible s) None"

definition scheduleWake :: "nat \<Rightarrow> string \<Rightarrow> int \<Rightarrow> int \<Rightarrow> reach \<Rightarrow> reach" where
  "scheduleWake effect startedFor now offsetSec s =
     (if effect \<noteq> ob_effect s then s
      else
        case nextWakeMs startedFor now offsetSec s of
          None \<Rightarrow> s
        | Some wait \<Rightarrow> s\<lparr>ob_wake := Some (wait + 25)\<rparr>)"

definition is_due :: "string \<Rightarrow> int \<Rightarrow> int \<Rightarrow> reach \<Rightarrow> string \<Rightarrow> bool" where
  "is_due startedFor now offsetSec s hash =
     (let key = cacheKey startedFor hash;
          cached = jm_get (ob_countCache s) key;
          waited = (\<lambda>t. case jm_get (ob_lastFetchAt s) key of None \<Rightarrow> True | Some lastAt \<Rightarrow> t \<le> now - lastAt);
          msg = find (\<lambda>item. map_option to_upper (packet_hash_of item) = Some hash) (ob_messages s)
      in if (case cached of Some e \<Rightarrow> ent_sealed e | None \<Rightarrow> False) then False
         else
           case (case msg of Some m \<Rightarrow> observerReachPollIntervalMs (messageAgeMs m now offsetSec) | None \<Rightarrow> None) of
             Some interval \<Rightarrow> waited interval
           | None \<Rightarrow> waited (retryBackoffMs (case cached of Some e \<Rightarrow> ent_failures e | None \<Rightarrow> 0)))"

definition is_ready :: "int \<Rightarrow> int \<Rightarrow> reach \<Rightarrow> string \<Rightarrow> bool" where
  "is_ready now offsetSec s hash =
     (case find (\<lambda>item. map_option to_upper (packet_hash_of item) = Some hash) (ob_messages s) of
        Some msg \<Rightarrow> isOutgoingReachReady msg now offsetSec
      | None \<Rightarrow> True)"

fun split_comma :: "string \<Rightarrow> string list" where
  "split_comma [] = [[]]"
| "split_comma (c # cs) =
     (case split_comma cs of
        [] \<Rightarrow> [[c]]
      | w # ws \<Rightarrow> if c = CHR '','' then [] # w # ws else (c # w) # ws)"

definition signature_hashes :: "string \<Rightarrow> string list" where
  "signature_hashes sig = (if sig = [] then [] else split_comma sig)"

definition shown_from_cache :: "string \<Rightarrow> reach \<Rightarrow> string list \<Rightarrow> reach \<Rightarrow> reach" where
  "shown_from_cache startedFor s hashes t =
     fold (\<lambda>hash s'. case jm_get (ob_countCache s) (cacheKey startedFor hash) of
         Some e \<Rightarrow> s'\<lparr>ob_counts := jm_set hash (ent_state e) (ob_counts s')\<rparr> | None \<Rightarrow> s') hashes t"

definition debounced :: "int \<Rightarrow> int \<Rightarrow> reach \<Rightarrow> reach" where
  "debounced now offsetSec s =
     (if \<not> ob_debounce s then s
      else
        case reach_on s of
          None \<Rightarrow> s
        | Some startedFor \<Rightarrow>
            let hashes = filter (is_ready now offsetSec s) (signature_hashes (ob_signature s));
                toFetch = filter (is_due startedFor now offsetSec s) hashes;
                s1 = shown_from_cache startedFor s hashes (s\<lparr>ob_debounce := False\<rparr>)
            in if toFetch = [] then scheduleWake (ob_effect s1) startedFor now offsetSec s1
               else s1\<lparr>ob_requests := ob_requests s1 @
                 [\<lparr>oq_effect = ob_effect s1, oq_for = startedFor, oq_hashes = js_slice 0 BATCH_MAX toFetch\<rparr>]\<rparr>)"

record reach_response =
  rsp_directory_enabled :: bool
  rsp_counts :: "string \<rightharpoonup> int"
  rsp_sealed :: "(string \<rightharpoonup> bool) option"

text \<open>What one hash gets of an answer; \<open>None\<close> is a request that failed.\<close>

definition store_answer :: "reach_response option \<Rightarrow> string \<Rightarrow> int \<Rightarrow> string \<Rightarrow> reach \<Rightarrow> reach" where
  "store_answer response startedFor fetchedAt hash s =
     (let key = cacheKey startedFor hash;
          prev = jm_get (ob_countCache s) key;
          failures = (case prev of Some e \<Rightarrow> ent_failures e | None \<Rightarrow> 0) + 1;
          count = (case response of
              Some r \<Rightarrow> if rsp_directory_enabled r
                then (case rsp_counts r hash of Some n \<Rightarrow> Some n | None \<Rightarrow> rsp_counts r (to_lower hash)) else None
            | None \<Rightarrow> None);
          state = (case count of Some n \<Rightarrow> ReachOk n | None \<Rightarrow> ReachError);
          final = (case response of
              Some r \<Rightarrow> rsp_directory_enabled r \<and> responseSealed (rsp_sealed r) hash \<and> count \<noteq> None
            | None \<Rightarrow> False);
          entry = \<lparr>ent_at = fetchedAt, ent_state = state, ent_sealed = final,
                   ent_failures = (if final then 0 else failures)\<rparr>
      in s\<lparr>ob_countCache := jm_set key entry (ob_countCache s), ob_lastFetchAt := jm_set key fetchedAt (ob_lastFetchAt s),
           ob_counts := jm_set hash state (ob_counts s)\<rparr>)"

definition answered :: "nat \<Rightarrow> reach_response option \<Rightarrow> int \<Rightarrow> int \<Rightarrow> reach \<Rightarrow> reach" where
  "answered n response now offsetSec s =
     (if n < length (ob_requests s) then
        let req = ob_requests s ! n;
            s1 = s\<lparr>ob_requests := take n (ob_requests s) @ drop (Suc n) (ob_requests s)\<rparr>;
            s2 = (if oq_effect req \<noteq> ob_effect s \<or> ob_conversation s \<noteq> Some (oq_for req) then s1
                  else fold (store_answer response (oq_for req) now) (oq_hashes req) s1)
        in scheduleWake (oq_effect req) (oq_for req) now offsetSec s2
      else s)"

text \<open>The effect is cleaned up and, when the hook is switched on, started again.\<close>

definition restart_effect :: "reach \<Rightarrow> reach" where
  "restart_effect s = s\<lparr>ob_effect := ob_effect s + 1, ob_wake := None, ob_debounce := (reach_on s \<noteq> None)\<rparr>"

definition woken :: "reach \<Rightarrow> reach" where
  "woken s = (if ob_wake s = None then s else restart_effect s)"

definition rendered :: "bool \<Rightarrow> string option \<Rightarrow> message list \<Rightarrow> nat list \<Rightarrow> reach \<Rightarrow> reach" where
  "rendered enabled conversation messages visible s =
     (let s1 = s\<lparr>ob_enabled := enabled, ob_conversation := conversation, ob_messages := messages, ob_visible := visible\<rparr>;
          hashSignature = (if reach_on s1 = None then [] else join '','' (eligibleVisibleHashes messages visible))
      in if ob_enabled s = enabled \<and> ob_conversation s = conversation \<and> ob_signature s = hashSignature then s1
         else restart_effect (s1\<lparr>ob_signature := hashSignature\<rparr>))"

datatype reach_input =
    OMount
  | ORender bool "string option" "message list" "nat list"
  | ODebounce int int
  | OAnswer nat "reach_response option" int int
  | OWake
  | OTick "json option" int int
  | OReset

text \<open>Mounting again starts with new hook state; the cleanup of the old effect cancels its requests.\<close>

fun reach_step :: "reach_input \<Rightarrow> reach \<Rightarrow> reach" where
  "reach_step OMount s =
     restart_effect (s\<lparr>ob_counts := [], ob_enabled := False, ob_conversation := None, ob_messages := [], ob_visible := [],
       ob_signature := []\<rparr>)"
| "reach_step (ORender enabled conversation messages visible) s = rendered enabled conversation messages visible s"
| "reach_step (ODebounce now offsetSec) s = debounced now offsetSec s"
| "reach_step (OAnswer n response now offsetSec) s = answered n response now offsetSec s"
| "reach_step OWake s = woken s"
| "reach_step (OTick packet now offsetSec) s = applyCommunityPacketObserverTick packet now offsetSec s"
| "reach_step OReset s = resetObserverReachCountCache s"


section \<open>What is sealed\<close>

definition is_sealed :: "reach \<Rightarrow> string \<Rightarrow> bool" where
  "is_sealed s key = (case jm_get (ob_countCache s) key of Some e \<Rightarrow> ent_sealed e | None \<Rightarrow> False)"

text \<open>
  The request of the running effect asks for nothing that is sealed, and there is at most one: none
  before the debounce timer, requests of earlier effects having smaller numbers.
\<close>

definition current_requests :: "reach \<Rightarrow> reach_request list" where
  "current_requests s = filter (\<lambda>q. oq_effect q = ob_effect s) (ob_requests s)"

definition reach_ok :: "reach \<Rightarrow> bool" where
  "reach_ok s \<longleftrightarrow>
     list_all (\<lambda>q. oq_effect q \<le> ob_effect s \<and> length (oq_hashes q) \<le> BATCH_MAX) (ob_requests s) \<and>
     length (current_requests s) \<le> (if ob_debounce s then 0 else 1) \<and>
     list_all (\<lambda>q. list_all (\<lambda>h. \<not> is_sealed s (cacheKey (oq_for q) h)) (oq_hashes q)) (current_requests s)"

lemma scheduleWake_same [simp]:
  "ob_requests (scheduleWake e f now off s) = ob_requests s" "ob_effect (scheduleWake e f now off s) = ob_effect s"
  "ob_debounce (scheduleWake e f now off s) = ob_debounce s" "ob_countCache (scheduleWake e f now off s) = ob_countCache s"
  "ob_lastFetchAt (scheduleWake e f now off s) = ob_lastFetchAt s"
  "ob_liveSeenEars (scheduleWake e f now off s) = ob_liveSeenEars s"
  by (simp_all add: scheduleWake_def split: option.split)

lemma scheduleWake_sealed [simp]: "is_sealed (scheduleWake e f now off s) key = is_sealed s key"
  by (simp add: is_sealed_def)

lemma scheduleWake_ok [simp]: "reach_ok (scheduleWake e f now off s) = reach_ok s"
  by (simp add: reach_ok_def current_requests_def)

lemma restart_same [simp]:
  "ob_countCache (restart_effect s) = ob_countCache s" "ob_lastFetchAt (restart_effect s) = ob_lastFetchAt s"
  "ob_liveSeenEars (restart_effect s) = ob_liveSeenEars s" "ob_requests (restart_effect s) = ob_requests s"
  by (simp_all add: restart_effect_def)

lemma restart_ok: "reach_ok s \<Longrightarrow> reach_ok (restart_effect s)"
proof -
  assume s: "reach_ok s"
  then have "current_requests (restart_effect s) = []"
    by (auto simp: reach_ok_def current_requests_def restart_effect_def filter_empty_conv list_all_iff)
  then show ?thesis using s by (auto simp: reach_ok_def restart_effect_def list_all_iff)
qed

lemma reach_ok_cong:
  "ob_requests s' = ob_requests s \<Longrightarrow> ob_effect s' = ob_effect s \<Longrightarrow> ob_debounce s' = ob_debounce s \<Longrightarrow>
   (\<And>key. is_sealed s' key \<Longrightarrow> is_sealed s key) \<Longrightarrow> reach_ok s \<Longrightarrow> reach_ok s'"
  by (auto simp: reach_ok_def current_requests_def list_all_iff)

subsection \<open>Events of the feed\<close>

lemma bump_sealed:
  "is_sealed (fst (bumpVisibleCount f h now s)) key = is_sealed s key"
  by (auto simp: bumpVisibleCount_def is_sealed_def Let_def jm_get_set split: option.split)

lemma onEvent_cases:
  "onEvent ev now off s = s \<or>
   (\<exists>startedFor hash. reach_on s = Some startedFor \<and> counted_hash ev now off s = Some hash \<and>
      hash @ '':'' @ event_ear ev \<notin> set (ob_liveSeenEars s) \<and>
      onEvent ev now off s =
        (let (s2, state) = bumpVisibleCount startedFor hash now
               (s\<lparr>ob_liveSeenEars := ob_liveSeenEars s @ [hash @ '':'' @ event_ear ev]\<rparr>)
         in s2\<lparr>ob_counts := jm_set hash state (ob_counts s2)\<rparr>))"
  by (auto simp: onEvent_def noteSeenEar_def Let_def split: option.split)

lemma onEvent_same:
  "ob_requests (onEvent ev now off s) = ob_requests s" "ob_effect (onEvent ev now off s) = ob_effect s"
  "ob_debounce (onEvent ev now off s) = ob_debounce s" "is_sealed (onEvent ev now off s) key = is_sealed s key"
  "set (ob_liveSeenEars s) \<subseteq> set (ob_liveSeenEars (onEvent ev now off s))"
proof -
  have b: "ob_requests (fst (bumpVisibleCount f h now t)) = ob_requests t" "ob_effect (fst (bumpVisibleCount f h now t)) = ob_effect t"
    "ob_debounce (fst (bumpVisibleCount f h now t)) = ob_debounce t"
    "ob_liveSeenEars (fst (bumpVisibleCount f h now t)) = ob_liveSeenEars t" for f h t
    by (simp_all add: bumpVisibleCount_def Let_def)
  have i: "is_sealed (t\<lparr>ob_counts := c\<rparr>) key = is_sealed t key" "is_sealed (t\<lparr>ob_liveSeenEars := x\<rparr>) key = is_sealed t key" for t c x
    by (simp_all add: is_sealed_def)
  show "ob_requests (onEvent ev now off s) = ob_requests s" "ob_effect (onEvent ev now off s) = ob_effect s"
    "ob_debounce (onEvent ev now off s) = ob_debounce s" "is_sealed (onEvent ev now off s) key = is_sealed s key"
    "set (ob_liveSeenEars s) \<subseteq> set (ob_liveSeenEars (onEvent ev now off s))"
    using onEvent_cases [of ev now off s] by (auto simp: split_beta b i bump_sealed)
qed

lemma tick_same:
  "ob_requests (applyCommunityPacketObserverTick p now off s) = ob_requests s"
  "ob_effect (applyCommunityPacketObserverTick p now off s) = ob_effect s"
  "ob_debounce (applyCommunityPacketObserverTick p now off s) = ob_debounce s"
  "is_sealed (applyCommunityPacketObserverTick p now off s) key = is_sealed s key"
  "set (ob_liveSeenEars s) \<subseteq> set (ob_liveSeenEars (applyCommunityPacketObserverTick p now off s))"
  using onEvent_same(5) by (auto simp: applyCommunityPacketObserverTick_def onEvent_same split: option.split)

subsection \<open>Requests and answers\<close>

lemma shown_same [simp]:
  "ob_requests (shown_from_cache f s hashes t) = ob_requests t \<and> ob_effect (shown_from_cache f s hashes t) = ob_effect t \<and>
   ob_debounce (shown_from_cache f s hashes t) = ob_debounce t \<and> ob_countCache (shown_from_cache f s hashes t) = ob_countCache t \<and>
   ob_lastFetchAt (shown_from_cache f s hashes t) = ob_lastFetchAt t \<and>
   ob_liveSeenEars (shown_from_cache f s hashes t) = ob_liveSeenEars t"
  unfolding shown_from_cache_def by (induction hashes arbitrary: t) (auto split: option.split)

text \<open>What the debounce timer does: nothing new is asked for, or one request of due hashes goes out.\<close>

lemma debounced_request:
  obtains (quiet) "ob_requests (debounced now off s) = ob_requests s"
  | (asks) startedFor where "ob_debounce s" "reach_on s = Some startedFor"
      "ob_requests (debounced now off s) = ob_requests s @
         [\<lparr>oq_effect = ob_effect s, oq_for = startedFor,
           oq_hashes = take BATCH_MAX (filter (is_due startedFor now off s) (filter (is_ready now off s) (signature_hashes (ob_signature s))))\<rparr>]"
proof (cases "ob_debounce s \<and> reach_on s \<noteq> None")
  case True
  then obtain startedFor where on: "ob_debounce s" "reach_on s = Some startedFor" by auto
  let ?hs = "filter (is_due startedFor now off s) (filter (is_ready now off s) (signature_hashes (ob_signature s)))"
  show ?thesis
  proof (cases "?hs = []")
    case True
    then show ?thesis using on by (intro quiet) (simp add: debounced_def Let_def)
  next
    case False
    then show ?thesis using on by (intro asks [OF on]) (simp add: debounced_def Let_def js_slice_def)
  qed
next
  case False
  then show ?thesis by (intro quiet) (auto simp: debounced_def)
qed

lemma debounced_same:
  "ob_effect (debounced now off s) = ob_effect s" "is_sealed (debounced now off s) key = is_sealed s key"
  "ob_liveSeenEars (debounced now off s) = ob_liveSeenEars s" "ob_lastFetchAt (debounced now off s) = ob_lastFetchAt s"
  "reach_on s \<noteq> None \<Longrightarrow> \<not> ob_debounce (debounced now off s)"
  by (auto simp: debounced_def Let_def is_sealed_def split: option.split)

lemma due_not_sealed: "is_due startedFor now off s h \<Longrightarrow> \<not> is_sealed s (cacheKey startedFor h)"
  by (auto simp: is_due_def is_sealed_def Let_def split: option.splits)

lemma debounced_ok:
  assumes "reach_ok s"
  shows "reach_ok (debounced now off s)"
proof (cases rule: debounced_request [of now off s])
  case quiet
  have "ob_debounce (debounced now off s) \<Longrightarrow> ob_debounce s"
    by (auto simp: debounced_def Let_def split: option.splits if_splits)
  then show ?thesis using assms quiet debounced_same
    by (auto simp: reach_ok_def current_requests_def list_all_iff split: if_splits)
next
  case (asks startedFor)
  let ?hs = "filter (is_due startedFor now off s) (filter (is_ready now off s) (signature_hashes (ob_signature s)))"
  have old: "filter (\<lambda>q. oq_effect q = ob_effect s) (ob_requests s) = []"
    using assms asks(1) by (simp add: reach_ok_def current_requests_def)
  have "\<not> is_sealed s (cacheKey startedFor h)" if "h \<in> set (take BATCH_MAX ?hs)" for h
    using that due_not_sealed by (auto dest!: in_set_takeD)
  then show ?thesis using assms asks old debounced_same
    by (auto simp: reach_ok_def current_requests_def list_all_iff)
qed

lemma store_same [simp]:
  "ob_requests (store_answer r f now h s) = ob_requests s" "ob_effect (store_answer r f now h s) = ob_effect s"
  "ob_debounce (store_answer r f now h s) = ob_debounce s" "ob_liveSeenEars (store_answer r f now h s) = ob_liveSeenEars s"
  by (simp_all add: store_answer_def Let_def)

lemma store_all_same [simp]:
  "ob_requests (fold (store_answer r f now) hs s) = ob_requests s \<and> ob_effect (fold (store_answer r f now) hs s) = ob_effect s \<and>
   ob_debounce (fold (store_answer r f now) hs s) = ob_debounce s \<and>
   ob_liveSeenEars (fold (store_answer r f now) hs s) = ob_liveSeenEars s"
  by (induction hs arbitrary: s) simp_all

lemma store_other_key:
  "key \<notin> cacheKey f ` set hs \<Longrightarrow> is_sealed (fold (store_answer r f now) hs s) key = is_sealed s key"
proof (induction hs arbitrary: s)
  case (Cons h hs)
  then have "is_sealed (store_answer r f now h s) key = is_sealed s key"
    by (auto simp: store_answer_def is_sealed_def Let_def jm_get_set)
  then show ?case using Cons by simp
qed simp

lemma current_single:
  assumes "reach_ok s" and "n < length (ob_requests s)" and "oq_effect (ob_requests s ! n) = ob_effect s"
  shows "current_requests s = [ob_requests s ! n]" and
    "filter (\<lambda>q. oq_effect q = ob_effect s) (take n (ob_requests s) @ drop (Suc n) (ob_requests s)) = []"
proof -
  let ?P = "\<lambda>q. oq_effect q = ob_effect s" and ?rs = "ob_requests s"
  have "filter ?P ?rs = filter ?P (take n ?rs) @ [?rs ! n] @ filter ?P (drop (Suc n) ?rs)"
    using assms(2, 3) by (subst id_take_nth_drop [OF assms(2)]) simp
  moreover have "length (filter ?P ?rs) \<le> 1" using assms(1) by (simp add: reach_ok_def current_requests_def split: if_splits)
  ultimately show "current_requests s = [?rs ! n]" "filter ?P (take n ?rs @ drop (Suc n) ?rs) = []"
    by (simp_all add: current_requests_def)
qed

lemma answered_ok:
  assumes "reach_ok s"
  shows "reach_ok (answered n r now off s)"
proof (cases "n < length (ob_requests s)")
  case True
  let ?req = "ob_requests s ! n" and ?rs = "take n (ob_requests s) @ drop (Suc n) (ob_requests s)"
  let ?s1 = "s\<lparr>ob_requests := ?rs\<rparr>"
  have sub: "set ?rs \<subseteq> set (ob_requests s)" by (auto dest: in_set_takeD in_set_dropD)
  have len: "length (filter (\<lambda>q. oq_effect q = ob_effect s) ?rs) \<le> length (current_requests s)"
  proof -
    have "ob_requests s = take n (ob_requests s) @ ob_requests s ! n # drop (Suc n) (ob_requests s)"
      using True by (rule id_take_nth_drop)
    then have "current_requests s = filter (\<lambda>q. oq_effect q = ob_effect s) (take n (ob_requests s)) @
        filter (\<lambda>q. oq_effect q = ob_effect s) (?req # drop (Suc n) (ob_requests s))"
      unfolding current_requests_def by (metis filter_append)
    then show ?thesis by simp
  qed
  have s1: "reach_ok ?s1"
    using assms sub len by (auto simp: reach_ok_def current_requests_def list_all_iff is_sealed_def split: if_splits)
  show ?thesis
  proof (cases "oq_effect ?req = ob_effect s \<and> ob_conversation s = Some (oq_for ?req)")
    case current: True
    then have none: "current_requests (fold (store_answer r (oq_for ?req) now) (oq_hashes ?req) ?s1) = []"
      using current_single(2) [OF assms True] by (simp add: current_requests_def)
    then have "reach_ok (fold (store_answer r (oq_for ?req) now) (oq_hashes ?req) ?s1)"
      using s1 by (simp add: reach_ok_def)
    then show ?thesis using True current by (simp add: answered_def Let_def)
  next
    case False
    then show ?thesis using True s1 by (auto simp: answered_def Let_def)
  qed
qed (simp add: answered_def assms)

lemma answered_sealed:
  assumes "reach_ok s" and "is_sealed s key"
  shows "is_sealed (answered n r now off s) key"
proof (cases "n < length (ob_requests s)")
  case True
  let ?req = "ob_requests s ! n" and ?rs = "take n (ob_requests s) @ drop (Suc n) (ob_requests s)"
  have s1: "is_sealed (s\<lparr>ob_requests := ?rs\<rparr>) key" using assms(2) by (simp add: is_sealed_def)
  show ?thesis
  proof (cases "oq_effect ?req = ob_effect s \<and> ob_conversation s = Some (oq_for ?req)")
    case current: True
    have "key \<notin> cacheKey (oq_for ?req) ` set (oq_hashes ?req)"
      using assms current_single(1) [OF assms(1) True] current by (auto simp: reach_ok_def list_all_iff)
    then show ?thesis using True current s1 store_other_key by (simp add: answered_def Let_def)
  next
    case False
    then show ?thesis using True s1 by (auto simp: answered_def Let_def)
  qed
qed (simp add: answered_def assms)

lemma rendered_same:
  "ob_countCache (rendered e c ms vs s) = ob_countCache s" "ob_liveSeenEars (rendered e c ms vs s) = ob_liveSeenEars s"
  by (simp_all add: rendered_def Let_def)

lemma rendered_ok: "reach_ok s \<Longrightarrow> reach_ok (rendered e c ms vs s)"
proof -
  assume s: "reach_ok s"
  have plain: "reach_ok (s\<lparr>ob_enabled := e, ob_conversation := c, ob_messages := ms, ob_visible := vs, ob_signature := x\<rparr>)" for x
    by (rule reach_ok_cong [OF _ _ _ _ s]) (simp_all add: is_sealed_def)
  have "reach_ok (s\<lparr>ob_enabled := e, ob_conversation := c, ob_messages := ms, ob_visible := vs\<rparr>)"
    by (rule reach_ok_cong [OF _ _ _ _ s]) (simp_all add: is_sealed_def)
  then show ?thesis using restart_ok [OF plain] by (simp add: rendered_def Let_def)
qed

interpretation reach_machine: event_machine reach_step reach_ok "\<lambda>e. True"
proof unfold_locales
  fix s e assume s: "reach_ok s"
  show "reach_ok (reach_step e s)"
  proof (cases e)
    case OMount
    have "reach_ok (s\<lparr>ob_counts := [], ob_enabled := False, ob_conversation := None, ob_messages := [], ob_visible := [],
       ob_signature := []\<rparr>)" by (rule reach_ok_cong [OF _ _ _ _ s]) (simp_all add: is_sealed_def)
    then show ?thesis using OMount restart_ok by simp
  next
    case (OTick p now off)
    then show ?thesis using reach_ok_cong [OF tick_same(1-3) _ s] tick_same(4) by simp
  next
    case OReset
    have "reach_ok (resetObserverReachCountCache s)"
      by (rule reach_ok_cong [OF _ _ _ _ s]) (simp_all add: resetObserverReachCountCache_def is_sealed_def)
    then show ?thesis using OReset by simp
  qed (simp_all add: s rendered_ok debounced_ok answered_ok woken_def restart_ok)
qed

lemma reach_init_ok: "reach_ok reach_init"
  by (simp add: reach_ok_def reach_init_def current_requests_def)

lemma reachable_ok: "reach_ok (fold reach_step es reach_init)"
  using reach_init_ok by (rule reach_machine.run_inv) (simp add: list_all_iff)

lemma step_sealed:
  assumes "reach_ok s" and "is_sealed s key" and "e \<noteq> OReset"
  shows "is_sealed (reach_step e s) key"
  using assms
  by (cases e) (simp_all add: answered_sealed debounced_same tick_same,
      simp_all add: is_sealed_def woken_def rendered_same)

text \<open>After a number of steps without a reset, too.\<close>

lemma run_sealed:
  "reach_ok s \<Longrightarrow> is_sealed s key \<Longrightarrow> OReset \<notin> set es \<Longrightarrow> is_sealed (fold reach_step es s) key"
proof (induction es arbitrary: s)
  case (Cons e es)
  then have "is_sealed (reach_step e s) key" by (intro step_sealed) auto
  then show ?case using Cons reach_machine.step_inv [of s e] by simp
qed simp

lemma step_seen: "e \<noteq> OReset \<Longrightarrow> set (ob_liveSeenEars s) \<subseteq> set (ob_liveSeenEars (reach_step e s))"
proof (cases e)
  case (OAnswer n r now off)
  then show ?thesis by (simp add: answered_def Let_def)
next
  case (OTick p now off)
  then show ?thesis using tick_same(5) by simp
qed (simp_all add: debounced_same woken_def rendered_same)

lemma run_seen: "OReset \<notin> set es \<Longrightarrow> set (ob_liveSeenEars s) \<subseteq> set (ob_liveSeenEars (fold reach_step es s))"
proof (induction es arbitrary: s)
  case (Cons e es)
  then show ?case using step_seen [of e s] Cons.IH [of "reach_step e s"] by auto
qed simp

lemma due_waited:
  assumes "is_due startedFor now off s h"
  shows "case jm_get (ob_lastFetchAt s) (cacheKey startedFor h) of None \<Rightarrow> True | Some t \<Rightarrow> YOUNG_POLL_MS \<le> now - t"
proof -
  have "YOUNG_POLL_MS \<le> interval" if "observerReachPollIntervalMs age = Some interval" for age interval
    using that by (auto simp: observerReachPollIntervalMs_def YOUNG_POLL_MS_def MID_POLL_MS_def split: if_splits)
  moreover have "YOUNG_POLL_MS \<le> retryBackoffMs n" for n
  proof -
    have "(1 :: int) \<le> 2 ^ (n - 1)" by simp
    then have "2000 \<le> (30000 :: int) * 2 ^ (n - 1)" by linarith
    then show ?thesis
      by (simp only: retryBackoffMs_def YOUNG_POLL_MS_def RETRY_BACKOFF_MS_def RETRY_BACKOFF_MAX_MS_def min_def) simp
  qed
  ultimately show ?thesis using assms
    by (fastforce simp: is_due_def Let_def split: option.splits if_splits intro: order_trans)
qed

section \<open>Properties\<close>

text \<open>
  C24: A sealed count is final. In every reachable state of the page, once the directory has sealed the count
  of a message it stays sealed through any further events except the reset of the cache, and the
  request that the running effect has open never asks for it.
\<close>

theorem sealed_count_final:
  assumes "is_sealed (fold reach_step es reach_init) key" and "OReset \<notin> set es'"
  shows "is_sealed (fold reach_step (es @ es') reach_init) key \<and>
     list_all (\<lambda>q. key \<notin> cacheKey (oq_for q) ` set (oq_hashes q)) (current_requests (fold reach_step (es @ es') reach_init))"
proof -
  have sealed: "is_sealed (fold reach_step (es @ es') reach_init) key"
    using run_sealed [OF reachable_ok assms] by simp
  then show ?thesis using reachable_ok [of "es @ es'"] by (auto simp: reach_ok_def list_all_iff)
qed

definition reach_message :: "string \<Rightarrow> message" where
  "reach_message hash = (sample_message 1 ''c'' 0)\<lparr>msg_packet_hash := Some (Some hash)\<rparr>"

definition sealing_run :: "reach_input list" where
  "sealing_run =
     [OMount, ORender True (Some ''c'') [reach_message ''ab''] [0], ODebounce 1000 0,
      OAnswer 0 (Some \<lparr>rsp_directory_enabled = True, rsp_counts = [''AB'' \<mapsto> 3], rsp_sealed = Some [''ab'' \<mapsto> True]\<rparr>) 1200 0]"

theorem sealed_count_final_witness:
  "is_sealed (fold reach_step (sealing_run @ [ORender True (Some ''c'') [reach_message ''ab''] [0, 1], OWake]) reach_init) ''c:AB''"
proof -
  have "is_sealed (fold reach_step sealing_run reach_init) ''c:AB''" by code_simp
  from sealed_count_final [OF this, of "[ORender True (Some ''c'') [reach_message ''ab''] [0, 1], OWake]"] show ?thesis by simp
qed

text \<open>
  Polling is bounded. The debounce timer sends at most one request; it is for the open conversation, asks for at
  most twenty hashes of visible messages, none of them sealed, and none that was answered less than two
  seconds ago.
\<close>

theorem reach_requests_bounded:
  "\<exists>new. ob_requests (debounced now offsetSec s) = ob_requests s @ new \<and> length new \<le> 1 \<and>
     list_all (\<lambda>q. reach_on s = Some (oq_for q) \<and> length (oq_hashes q) \<le> 20 \<and>
       set (oq_hashes q) \<subseteq> set (signature_hashes (ob_signature s)) \<and>
       list_all (\<lambda>h. \<not> is_sealed s (cacheKey (oq_for q) h) \<and>
         (case jm_get (ob_lastFetchAt s) (cacheKey (oq_for q) h) of None \<Rightarrow> True | Some t \<Rightarrow> 2000 \<le> now - t)) (oq_hashes q)) new"
proof (cases rule: debounced_request [of now offsetSec s])
  case quiet
  then show ?thesis by (intro exI [where x = "[]"]) simp
next
  case (asks startedFor)
  let ?hs = "take BATCH_MAX (filter (is_due startedFor now offsetSec s) (filter (is_ready now offsetSec s)
      (signature_hashes (ob_signature s))))"
  have due: "is_due startedFor now offsetSec s h \<and> h \<in> set (signature_hashes (ob_signature s))" if "h \<in> set ?hs" for h
    using that by (auto dest!: in_set_takeD)
  have "list_all (\<lambda>h. \<not> is_sealed s (cacheKey startedFor h) \<and>
      (case jm_get (ob_lastFetchAt s) (cacheKey startedFor h) of None \<Rightarrow> True | Some t \<Rightarrow> 2000 \<le> now - t)) ?hs"
    unfolding list_all_iff using due due_not_sealed due_waited [unfolded YOUNG_POLL_MS_def] by blast
  moreover have "set ?hs \<subseteq> set (signature_hashes (ob_signature s))" using due by blast
  moreover have "length ?hs \<le> 20" by (simp add: BATCH_MAX_def)
  ultimately show ?thesis using asks(2, 3)
    by (intro exI [where x = "[\<lparr>oq_effect = ob_effect s, oq_for = startedFor, oq_hashes = ?hs\<rparr>]"]) (simp del: set_take_subset)
qed

text \<open>
  An observer counts once. When an observer was counted for a message, a later packet that counts the
  same observer for the same hash changes nothing, whatever happened in between except a reset.
\<close>

theorem observer_counted_once:
  assumes "reach_on s = Some startedFor" and "counted_hash ev now offsetSec s = Some hash" and "OReset \<notin> set es"
    and "counted_hash ev' now' offsetSec' (fold reach_step es (onEvent ev now offsetSec s)) = Some hash"
    and "event_ear ev' = event_ear ev"
  shows "onEvent ev' now' offsetSec' (fold reach_step es (onEvent ev now offsetSec s)) =
     fold reach_step es (onEvent ev now offsetSec s)"
proof -
  let ?key = "hash @ '':'' @ event_ear ev" and ?s = "fold reach_step es (onEvent ev now offsetSec s)"
  have "?key \<in> set (ob_liveSeenEars (onEvent ev now offsetSec s))"
    using assms(1, 2) by (auto simp: onEvent_def noteSeenEar_def bumpVisibleCount_def Let_def)
  then have "?key \<in> set (ob_liveSeenEars ?s)" using run_seen [OF assms(3)] by blast
  then show ?thesis using assms(4, 5) by (auto simp: onEvent_def noteSeenEar_def Let_def split: option.split)
qed

theorem observer_counted_once_witness:
  "let s = reach_init\<lparr>ob_enabled := True, ob_conversation := Some ''c'', ob_messages := [reach_message ''ab''], ob_visible := [0]\<rparr>;
       s1 = onEvent (Hash16 ''AB'' ''x'') 1000 0 s
   in jm_get (ob_counts s1) ''AB'' = Some (ReachOk 1) \<and> onEvent (Hash16 ''AB'' ''x'') 3000 0 (reach_step OWake s1) = reach_step OWake s1"
proof -
  define s where "s = reach_init\<lparr>ob_enabled := True, ob_conversation := Some ''c'', ob_messages := [reach_message ''ab''], ob_visible := [0]\<rparr>"
  define s1 where "s1 = onEvent (Hash16 ''AB'' ''x'') 1000 0 s"
  have "reach_on s = Some ''c''" "counted_hash (Hash16 ''AB'' ''x'') 1000 0 s = Some ''AB''"
    "counted_hash (Hash16 ''AB'' ''x'') 3000 0 (reach_step OWake s1) = Some ''AB''" "jm_get (ob_counts s1) ''AB'' = Some (ReachOk 1)"
    unfolding s1_def s_def by code_simp+
  then show ?thesis
    using observer_counted_once [of s "''c''" "Hash16 ''AB'' ''x''" 1000 0 "''AB''" "[OWake]" "Hash16 ''AB'' ''x''" 3000 0]
    by (simp add: s1_def s_def Let_def)
qed

text \<open>
  A hash that is already overdue does not count for the next wake-up: when it was left out of a batch
  and nothing else is waiting, no timer is set and it is not polled again.
\<close>

lemma overdue_hash_forgotten:
  "nextWakeMs ''c'' 9000 0
     (reach_init\<lparr>ob_messages := [reach_message ''ab''], ob_visible := [0], ob_lastFetchAt := [(''c:AB'', 1000)]\<rparr>) = None"
  "is_due ''c'' 9000 0
     (reach_init\<lparr>ob_messages := [reach_message ''ab''], ob_visible := [0], ob_lastFetchAt := [(''c:AB'', 1000)]\<rparr>) ''AB''"
  by code_simp+

end
