(* ===== verification/Community.thy ===== *)
theory Community
  imports LiveStore ObserverReach
begin

text \<open>
  Whether Community is on (\<^verbatim>\<open>stores/communityStore.ts\<close>), and the two handlers of \<^verbatim>\<open>hooks/useRealtimeAppState.ts\<close>
  that pass the community events of the socket on: packets to the store of the live map and to the observer counts,
  the status of the relay to the live map and to this store.

  \<open>cs_pending\<close> says that a request for the status is out; every caller while it is shares it. A status that is
  stored again is stored as before, so the test for the same object, which only saves a notification, has
  no counterpart.
\<close>

section \<open>The store\<close>

record community_status =
  cs_on :: bool
  cs_state :: "string option"

record community_store =
  cs_status :: "community_status option"
  cs_enabled :: "bool option"
  cs_pending :: bool

definition community_init :: community_store where
  "community_init = \<lparr>cs_status = None, cs_enabled = None, cs_pending = False\<rparr>"

definition communityStatusActive :: "community_status option \<Rightarrow> bool" where
  "communityStatusActive status =
     (case status of Some st \<Rightarrow> cs_on st \<and> cs_state st \<noteq> Some ''waiting_for_position'' | None \<Rightarrow> False)"

definition communityWaitingForPosition :: "community_status option \<Rightarrow> bool" where
  "communityWaitingForPosition status =
     (case status of Some st \<Rightarrow> cs_on st \<and> cs_state st = Some ''waiting_for_position'' | None \<Rightarrow> False)"

definition setCommunityStatus :: "community_status \<Rightarrow> community_store \<Rightarrow> community_store" where
  "setCommunityStatus status s = s\<lparr>cs_status := Some status, cs_enabled := Some (communityStatusActive (Some status))\<rparr>"

definition seedCommunityEnabled :: "bool \<Rightarrow> community_store \<Rightarrow> community_store" where
  "seedCommunityEnabled enabled s = (if cs_enabled s \<noteq> None then s else s\<lparr>cs_enabled := Some enabled\<rparr>)"

definition loadCommunityStatus :: "community_store \<Rightarrow> community_store" where
  "loadCommunityStatus s = (if cs_pending s then s else s\<lparr>cs_pending := True\<rparr>)"

text \<open>The answer; \<open>None\<close> is a failure or an empty answer.\<close>

definition status_answer :: "community_status option \<Rightarrow> community_store \<Rightarrow> community_store" where
  "status_answer answer s =
     (if \<not> cs_pending s then s
      else (case answer of Some status \<Rightarrow> setCommunityStatus status s | None \<Rightarrow> s)\<lparr>cs_pending := False\<rparr>)"

definition refreshCommunityStatus :: "community_store \<Rightarrow> community_store" where
  "refreshCommunityStatus s = loadCommunityStatus s"

definition noteCommunityLiveOptedOut :: "json option \<Rightarrow> community_store \<Rightarrow> community_store" where
  "noteCommunityLiveOptedOut optedOut s =
     (case optedOut of
        Some (JBool b) \<Rightarrow> if cs_enabled s = None then s else refreshCommunityStatus s
      | _ \<Rightarrow> s)"

definition resetCommunityStoreForTests :: "community_store \<Rightarrow> community_store" where
  "resetCommunityStoreForTests s = community_init"

section \<open>The handlers\<close>

record feed =
  fd_live :: live_store
  fd_reach :: reach
  fd_community :: community_store

definition feed_init :: feed where
  "feed_init = \<lparr>fd_live = live_init, fd_reach = reach_init, fd_community = community_init\<rparr>"

definition onCommunityPacket :: "json option \<Rightarrow> int \<Rightarrow> int \<Rightarrow> feed \<Rightarrow> feed" where
  "onCommunityPacket packet now offsetSec s =
     s\<lparr>fd_live := recordCommunityPacket packet (fd_live s),
       fd_reach := applyCommunityPacketObserverTick packet now offsetSec (fd_reach s)\<rparr>"

definition onCommunityLive :: "json option \<Rightarrow> feed \<Rightarrow> feed" where
  "onCommunityLive status s =
     s\<lparr>fd_live := applyLiveStatus status (fd_live s),
       fd_community := noteCommunityLiveOptedOut (field ''opted_out'' status) (fd_community s)\<rparr>"

datatype feed_event =
    FPacket "json option" int int
  | FLive "json option"
  | FLiveReset
  | FReach reach_input
  | FSetStatus community_status
  | FSeed bool
  | FLoad
  | FAnswer "community_status option"
  | FReset

text \<open>The events of the socket and what else happens to the three components.\<close>

fun feed_step :: "feed_event \<Rightarrow> feed \<Rightarrow> feed" where
  "feed_step (FPacket packet now offsetSec) s = onCommunityPacket packet now offsetSec s"
| "feed_step (FLive status) s = onCommunityLive status s"
| "feed_step FLiveReset s = s\<lparr>fd_live := resetLivePacketStore (fd_live s)\<rparr>"
| "feed_step (FReach e) s = s\<lparr>fd_reach := reach_step e (fd_reach s)\<rparr>"
| "feed_step (FSetStatus status) s = s\<lparr>fd_community := setCommunityStatus status (fd_community s)\<rparr>"
| "feed_step (FSeed enabled) s = s\<lparr>fd_community := seedCommunityEnabled enabled (fd_community s)\<rparr>"
| "feed_step FLoad s = s\<lparr>fd_community := loadCommunityStatus (fd_community s)\<rparr>"
| "feed_step (FAnswer answer) s = s\<lparr>fd_community := status_answer answer (fd_community s)\<rparr>"
| "feed_step FReset s = s\<lparr>fd_community := resetCommunityStoreForTests (fd_community s)\<rparr>"

section \<open>Invariants\<close>

text \<open>Once a status is known, Community counts as on exactly when that status says so.\<close>

definition community_ok :: "community_store \<Rightarrow> bool" where
  "community_ok s \<longleftrightarrow> (case cs_status s of Some st \<Rightarrow> cs_enabled s = Some (communityStatusActive (Some st)) | None \<Rightarrow> True)"

definition feed_ok :: "feed \<Rightarrow> bool" where
  "feed_ok s \<longleftrightarrow> live_ok (fd_live s) \<and> reach_ok (fd_reach s) \<and> community_ok (fd_community s)"

lemma community_ops_ok:
  assumes "community_ok s"
  shows "community_ok (setCommunityStatus st s)" and "community_ok (seedCommunityEnabled b s)" and "community_ok (loadCommunityStatus s)"
    and "community_ok (status_answer a s)" and "community_ok (noteCommunityLiveOptedOut v s)" and "community_ok (resetCommunityStoreForTests s)"
  using assms
  by (auto simp: community_ok_def setCommunityStatus_def seedCommunityEnabled_def loadCommunityStatus_def status_answer_def
      noteCommunityLiveOptedOut_def refreshCommunityStatus_def resetCommunityStoreForTests_def community_init_def
      split: option.splits json.splits)

lemma live_events_ok:
  assumes "live_ok s"
  shows "live_ok (recordCommunityPacket v s)" and "live_ok (applyLiveStatus v s)" and "live_ok (resetLivePacketStore s)"
  using live_machine.step_inv [OF assms, of "LivePacket v"] live_machine.step_inv [OF assms, of "LiveStatus v"]
    live_machine.step_inv [OF assms, of LiveReset] by simp_all

interpretation feed_machine: event_machine feed_step feed_ok "\<lambda>e. True"
proof unfold_locales
  fix s e assume s: "feed_ok s"
  have reach: "reach_ok (reach_step i (fd_reach s))" for i using s reach_machine.step_inv by (simp add: feed_ok_def)
  show "feed_ok (feed_step e s)"
    using s reach reach [of "OTick p now off" for p now off]
    by (cases e) (auto simp: feed_ok_def onCommunityPacket_def onCommunityLive_def community_ops_ok live_events_ok)
qed

section \<open>Properties\<close>


text \<open>
  A status of the relay that arrives while a request is out starts no new one: the answer to the older request, which
  may describe the state before the change, is the last word until the next status.
\<close>

lemma live_status_shares_request:
  "fd_community (fold feed_step [FSeed True, FLoad, FLive (Some (JObject [(''opted_out'', JBool True)])),
      FAnswer (Some \<lparr>cs_on = True, cs_state = None\<rparr>)] feed_init) =
   \<lparr>cs_status = Some \<lparr>cs_on = True, cs_state = None\<rparr>, cs_enabled = Some True, cs_pending = False\<rparr>"
  by (simp add: feed_init_def community_init_def seedCommunityEnabled_def loadCommunityStatus_def onCommunityLive_def field_def
      noteCommunityLiveOptedOut_def refreshCommunityStatus_def status_answer_def setCommunityStatus_def communityStatusActive_def)

end
