(* ===== verification/RepeaterStore.thy ===== *)
theory RepeaterStore
  imports Json
begin

text \<open>
  What the page remembers of a repeater: the browser storage of the dashboard
  (\<^verbatim>\<open>utils/repeaterDashboardStore.ts\<close>), of the session (\<^verbatim>\<open>utils/repeaterSession.ts\<close>) and of the console
  (\<^verbatim>\<open>hooks/useRepeaterDashboard.ts\<close>), and the outcome of a login (\<^verbatim>\<open>utils/serverLoginState.ts\<close>).

  The three kinds of keys have different prefixes, so \<open>storage\<close> has a map for each, keyed by the public key.
  A stored text is represented by what the program reads in it: \<open>st_sessions\<close> by the number
  \<^verbatim>\<open>Number.parseInt\<close> gives, \<open>st_consoles\<close> and \<open>st_dashboards\<close> by what \<^verbatim>\<open>JSON.parse\<close> gives, where \<open>None\<close> is a text
  that cannot be read. An access throws when \<open>st_available\<close> is false, a write also when \<open>st_full\<close> holds; each
  caller catches that.
\<close>

section \<open>Panes\<close>

datatype pane_name =
    PStatus | PNodeInfo | PNeighbors | PAcl | PRadioSettings | PAdvertIntervals | POwnerInfo | PLppTelemetry | PRegions

instantiation pane_name :: enum
begin

definition enum_pane_name :: "pane_name list" where
  "enum_pane_name =
     [PStatus, PNodeInfo, PNeighbors, PAcl, PRadioSettings, PAdvertIntervals, POwnerInfo, PLppTelemetry, PRegions]"

definition enum_all_pane_name :: "(pane_name \<Rightarrow> bool) \<Rightarrow> bool" where
  "enum_all_pane_name P = list_all P enum_class.enum"

definition enum_ex_pane_name :: "(pane_name \<Rightarrow> bool) \<Rightarrow> bool" where
  "enum_ex_pane_name P = list_ex P enum_class.enum"

instance
proof
  show univ: "(UNIV :: pane_name set) = set enum_class.enum"
  proof (intro equalityI subsetI)
    fix p :: pane_name
    show "p \<in> set enum_class.enum" by (cases p) (simp_all add: enum_pane_name_def)
  qed simp
  show "distinct (enum_class.enum :: pane_name list)" by (simp add: enum_pane_name_def)
  show "enum_class.enum_all P \<longleftrightarrow> Ball UNIV P" for P :: "pane_name \<Rightarrow> bool"
    unfolding enum_all_pane_name_def list_all_iff univ ..
  show "enum_class.enum_ex P \<longleftrightarrow> Bex UNIV P" for P :: "pane_name \<Rightarrow> bool"
    unfolding enum_ex_pane_name_def list_ex_iff univ ..
qed

end

record pane_state =
  ps_loading :: bool
  ps_attempt :: nat
  ps_error :: "string option"
  ps_queued :: bool
  ps_fetched_at :: "int option"

type_synonym pane_data = "pane_name \<Rightarrow> json option"
type_synonym pane_states = "pane_name \<Rightarrow> pane_state"

section \<open>Storage\<close>

record persisted_entry =
  pe_savedAt :: "int option"
  pe_loggedIn :: bool
  pe_paneData :: "pane_data option"
  pe_paneStates :: "pane_states option"

record storage =
  st_available :: bool
  st_full :: bool
  st_dashboards :: "string \<rightharpoonup> persisted_entry option"
  st_sessions :: "string \<rightharpoonup> int option"
  st_consoles :: "string \<rightharpoonup> json option"

definition writable :: "storage \<Rightarrow> bool" where
  "writable st \<longleftrightarrow> st_available st \<and> \<not> st_full st"

definition DASHBOARD_TTL_MS :: int where
  "DASHBOARD_TTL_MS = 24 * 60 * 60 * 1000"

definition SESSION_TTL_MS :: int where
  "SESSION_TTL_MS = 12 * 60 * 60 * 1000"

definition loadPersistedDashboard ::
  "string option \<Rightarrow> int \<Rightarrow> storage \<Rightarrow> storage \<times> (bool \<times> pane_data \<times> pane_states) option" where
  "loadPersistedDashboard publicKey now st =
     (case or_null publicKey of
        None \<Rightarrow> (st, None)
      | Some key \<Rightarrow>
          if \<not> st_available st then (st, None)
          else
            case st_dashboards st key of
              Some (Some parsed) \<Rightarrow>
                (case pe_savedAt parsed of
                   None \<Rightarrow> (st, None)
                 | Some savedAt \<Rightarrow>
                     if DASHBOARD_TTL_MS < now - savedAt
                     then (st\<lparr>st_dashboards := (st_dashboards st)(key := None)\<rparr>, None)
                     else
                       case (pe_paneData parsed, pe_paneStates parsed) of
                         (Some paneData, Some paneStates) \<Rightarrow> (st, Some (pe_loggedIn parsed, paneData, paneStates))
                       | _ \<Rightarrow> (st, None))
            | _ \<Rightarrow> (st, None))"

definition persistDashboard ::
  "string option \<Rightarrow> bool \<Rightarrow> pane_data \<Rightarrow> pane_states \<Rightarrow> int \<Rightarrow> storage \<Rightarrow> storage" where
  "persistDashboard publicKey loggedIn paneData paneStates now st =
     (case or_null publicKey of
        None \<Rightarrow> st
      | Some key \<Rightarrow>
          if writable st
          then st\<lparr>st_dashboards := (st_dashboards st)(key \<mapsto>
                 Some \<lparr>pe_savedAt = Some now, pe_loggedIn = loggedIn, pe_paneData = Some paneData,
                       pe_paneStates = Some paneStates\<rparr>)\<rparr>
          else st)"

definition forgetPersistedDashboard :: "string option \<Rightarrow> storage \<Rightarrow> storage" where
  "forgetPersistedDashboard publicKey st =
     (case or_null publicKey of
        None \<Rightarrow> st
      | Some key \<Rightarrow> if st_available st then st\<lparr>st_dashboards := (st_dashboards st)(key := None)\<rparr> else st)"

definition rememberRepeaterSession :: "string option \<Rightarrow> int \<Rightarrow> storage \<Rightarrow> storage" where
  "rememberRepeaterSession publicKey now st =
     (case or_null publicKey of
        None \<Rightarrow> st
      | Some key \<Rightarrow> if writable st then st\<lparr>st_sessions := (st_sessions st)(key \<mapsto> Some now)\<rparr> else st)"

definition hasRememberedRepeaterSession :: "string option \<Rightarrow> int \<Rightarrow> storage \<Rightarrow> storage \<times> bool" where
  "hasRememberedRepeaterSession publicKey now st =
     (case or_null publicKey of
        None \<Rightarrow> (st, False)
      | Some key \<Rightarrow>
          if \<not> st_available st then (st, False)
          else
            case st_sessions st key of
              Some (Some savedAt) \<Rightarrow>
                if SESSION_TTL_MS < now - savedAt
                then (st\<lparr>st_sessions := (st_sessions st)(key := None)\<rparr>, False)
                else (st, True)
            | _ \<Rightarrow> (st, False))"

definition forgetRepeaterSession :: "string option \<Rightarrow> storage \<Rightarrow> storage" where
  "forgetRepeaterSession publicKey st =
     (case or_null publicKey of
        None \<Rightarrow> st
      | Some key \<Rightarrow> if st_available st then st\<lparr>st_sessions := (st_sessions st)(key := None)\<rparr> else st)"

section \<open>The console\<close>

definition MAX_STORED_CONSOLE_ENTRIES :: nat where
  "MAX_STORED_CONSOLE_ENTRIES = 100"

record console_entry =
  co_command :: string
  co_response :: string
  co_timestamp :: rat
  co_outgoing :: bool

definition isConsoleEntry :: "json \<Rightarrow> bool" where
  "isConsoleEntry v \<longleftrightarrow>
     isRecord (Some v) \<and> is_string (field ''command'' (Some v)) \<and> is_string (field ''response'' (Some v)) \<and>
     is_number (field ''timestamp'' (Some v)) \<and>
     (case field ''outgoing'' (Some v) of Some (JBool b) \<Rightarrow> True | _ \<Rightarrow> False)"

text \<open>The entry a checked value is, and the value written for an entry.\<close>

definition console_entry_of :: "json \<Rightarrow> console_entry" where
  "console_entry_of v =
     \<lparr>co_command = (case field ''command'' (Some v) of Some (JString t) \<Rightarrow> t | _ \<Rightarrow> []),
      co_response = (case field ''response'' (Some v) of Some (JString t) \<Rightarrow> t | _ \<Rightarrow> []),
      co_timestamp = (case field ''timestamp'' (Some v) of Some (JNumber n) \<Rightarrow> n | _ \<Rightarrow> 0),
      co_outgoing = (case field ''outgoing'' (Some v) of Some (JBool b) \<Rightarrow> b | _ \<Rightarrow> False)\<rparr>"

definition console_json :: "console_entry \<Rightarrow> json" where
  "console_json e =
     JObject [(''command'', JString (co_command e)), (''response'', JString (co_response e)),
              (''timestamp'', JNumber (co_timestamp e)), (''outgoing'', JBool (co_outgoing e))]"

definition loadStoredConsoleHistory :: "string \<Rightarrow> storage \<Rightarrow> console_entry list" where
  "loadStoredConsoleHistory publicKey st =
     (if \<not> st_available st then []
      else
        case st_consoles st publicKey of
          Some (Some (JArray parsed)) \<Rightarrow>
            slice_from (- int MAX_STORED_CONSOLE_ENTRIES) (map console_entry_of (filter isConsoleEntry parsed))
        | _ \<Rightarrow> [])"

definition saveStoredConsoleHistory :: "string \<Rightarrow> console_entry list \<Rightarrow> storage \<Rightarrow> storage" where
  "saveStoredConsoleHistory publicKey history st =
     (if writable st
      then st\<lparr>st_consoles := (st_consoles st)(publicKey \<mapsto>
             Some (JArray (map console_json (slice_from (- int MAX_STORED_CONSOLE_ENTRIES) history))))\<rparr>
      else st)"

section \<open>Logging in\<close>

datatype server_login_method = LoginPassword | LoginBlank

datatype server_login_entity = RepeaterEntity | RoomEntity

datatype login_outcome = Confirmed | NotConfirmed | RequestFailed

record server_login_attempt =
  la_method :: server_login_method
  la_outcome :: login_outcome
  la_summary :: string
  la_details :: "string option"
  la_heardBack :: bool
  la_at :: int

record repeater_login_response =
  lr_status :: string
  lr_authenticated :: bool
  lr_message :: "string option"

text \<open>\<^verbatim>\<open>i18n.t\<close> is the parameter \<open>tr\<close>: a key and the values to be put in give a text.\<close>

type_synonym translation = "string \<Rightarrow> (string \<times> json) list \<Rightarrow> string"

fun entity_key :: "server_login_entity \<Rightarrow> string \<Rightarrow> string" where
  "entity_key RepeaterEntity name = ''repeater.'' @ name"
| "entity_key RoomEntity name = ''room.'' @ name"

definition getServerLoginMethodLabel :: "translation \<Rightarrow> server_login_method \<Rightarrow> server_login_entity \<Rightarrow> string" where
  "getServerLoginMethodLabel tr method entity =
     (if method = LoginPassword then tr (entity_key entity ''loginMethodPassword'') []
      else tr (entity_key entity ''loginMethodExisting'') [])"

datatype login_tone = ToneSuccess | ToneWarning | ToneDestructive | ToneMuted

definition getServerLoginAttemptTone :: "server_login_attempt option \<Rightarrow> login_tone" where
  "getServerLoginAttemptTone attempt =
     (case attempt of
        None \<Rightarrow> ToneMuted
      | Some a \<Rightarrow>
          if la_outcome a = Confirmed then ToneSuccess
          else if la_outcome a = NotConfirmed then ToneWarning
          else ToneDestructive)"

definition buildServerLoginAttemptFromResponse ::
  "translation \<Rightarrow> server_login_method \<Rightarrow> repeater_login_response \<Rightarrow> server_login_entity \<Rightarrow> int \<Rightarrow> server_login_attempt" where
  "buildServerLoginAttemptFromResponse tr method result entity now =
     (let methodLabel = getServerLoginMethodLabel tr method entity in
      if lr_authenticated result then
        \<lparr>la_method = method, la_outcome = Confirmed, la_summary = tr (entity_key entity ''loginConfirmedSummary'') [],
         la_details = None, la_heardBack = True, la_at = now\<rparr>
      else if lr_status result = ''timeout'' then
        \<lparr>la_method = method, la_outcome = NotConfirmed, la_summary = tr (entity_key entity ''loginUnconfirmedSummary'') [],
         la_details = Some (coalesce (lr_message result)
           (tr (entity_key entity ''loginTimeoutDetail'') [(''method'', JString methodLabel)])),
         la_heardBack = False, la_at = now\<rparr>
      else
        \<lparr>la_method = method, la_outcome = NotConfirmed, la_summary = tr (entity_key entity ''loginNotConfirmedSummary'') [],
         la_details = Some (coalesce (lr_message result)
           (tr (entity_key entity ''loginRespondedUnconfirmedDetail'') [(''method'', JString methodLabel)])),
         la_heardBack = True, la_at = now\<rparr>)"

definition buildServerLoginAttemptFromError ::
  "translation \<Rightarrow> server_login_method \<Rightarrow> string \<Rightarrow> server_login_entity \<Rightarrow> int \<Rightarrow> server_login_attempt" where
  "buildServerLoginAttemptFromError tr method message entity now =
     (let methodLabel = getServerLoginMethodLabel tr method entity in
      \<lparr>la_method = method, la_outcome = RequestFailed, la_summary = tr (entity_key entity ''loginRequestFailedSummary'') [],
       la_details = Some (tr (entity_key entity ''loginRequestFailedDetail'')
         [(''method'', JString methodLabel), (''message'', JString message)]),
       la_heardBack = False, la_at = now\<rparr>)"

section \<open>What storage keeps\<close>

lemma slice_from_end: "0 < n \<Longrightarrow> slice_from (- int n) xs = drop (length xs - n) xs"
proof -
  assume "0 < n"
  moreover have "nat (max 0 (int (length xs) + - int n)) = length xs - n" by linarith
  ultimately show ?thesis unfolding slice_from_def by simp
qed

lemma last_entries [simp]:
  "slice_from (- int MAX_STORED_CONSOLE_ENTRIES) xs = drop (length xs - MAX_STORED_CONSOLE_ENTRIES) xs"
  by (rule slice_from_end) (simp add: MAX_STORED_CONSOLE_ENTRIES_def)

lemma console_entry_roundtrip [simp]: "isConsoleEntry (console_json e)" "console_entry_of (console_json e) = e"
  by (simp_all add: isConsoleEntry_def console_json_def console_entry_of_def field_def isRecord_def is_string_def is_number_def)

lemma console_saved:
  assumes "writable st"
  shows "loadStoredConsoleHistory k (saveStoredConsoleHistory k h st) = drop (length h - MAX_STORED_CONSOLE_ENTRIES) h"
proof -
  have "filter isConsoleEntry (map console_json xs) = map console_json xs" for xs by (induction xs) simp_all
  then show ?thesis using assms
    by (simp add: loadStoredConsoleHistory_def saveStoredConsoleHistory_def writable_def comp_def)
qed

lemma load_persisted_keeps:
  "st_available (fst (loadPersistedDashboard k now st)) = st_available st"
  "st_full (fst (loadPersistedDashboard k now st)) = st_full st"
  "st_sessions (fst (loadPersistedDashboard k now st)) = st_sessions st"
  "st_consoles (fst (loadPersistedDashboard k now st)) = st_consoles st"
  by (auto simp: loadPersistedDashboard_def split: option.splits)

end
