(* ===== verification/Dashboard.thy ===== *)
theory Dashboard
  imports RepeaterStore MeshTypes
begin

text \<open>
  The dashboard of a repeater (\<^verbatim>\<open>hooks/useRepeaterDashboard.ts\<close>): nine panes, each filled by a request over the
  air with up to three attempts, the serial run over all of them, logging in and the console.

  The record \<open>dash\<close> holds the cache of the module and the browser storage, which outlive the hook, and the
  state and refs of the mounted hook. The parent gives the component a new key for every conversation, so one
  instance of the hook sees one conversation and \<^verbatim>\<open>activeIdRef\<close> never differs from it; \<open>db_instance\<close> numbers
  the instances. The state fields hold the value after all pending updates. An asynchronous function is
  suspended in a task: \<open>db_tasks\<close> are the runs of \<^verbatim>\<open>runAttempts\<close> with what is to be done after them,
  \<open>db_logins\<close> and \<open>db_commands\<close> the requests of \<^verbatim>\<open>login\<close> and \<^verbatim>\<open>sendConsoleCommand\<close>. The answers of the server are
  values that are not looked into, \<open>JNull\<close> for \<^verbatim>\<open>null\<close>. Times are in milliseconds.
\<close>

section \<open>State\<close>

definition MAX_RETRIES :: nat where
  "MAX_RETRIES = 3"

definition MAX_CACHED_REPEATERS :: nat where
  "MAX_CACHED_REPEATERS = 20"

definition API_PANE_TO_STATE :: "string \<Rightarrow> pane_name option" where
  "API_PANE_TO_STATE name = map_of
     [(''status'', PStatus), (''node_info'', PNodeInfo), (''neighbors'', PNeighbors), (''acl'', PAcl),
      (''radio_settings'', PRadioSettings), (''advert_intervals'', PAdvertIntervals), (''owner_info'', POwnerInfo),
      (''lpp_telemetry'', PLppTelemetry), (''regions'', PRegions)] name"

record dashboard_entry =
  de_loggedIn :: bool
  de_loginError :: "string option"
  de_lastLoginAttempt :: "server_login_attempt option"
  de_paneData :: pane_data
  de_paneStates :: pane_states
  de_consoleHistory :: "console_entry list"

text \<open>What follows a run of attempts: nothing, the pane a prefetch was for, or the rest of a Load All run.\<close>

datatype continuation = KEnd | KPane pane_name continuation | KAll nat bool

datatype attempt_phase = Fetching | Waiting

record pane_task =
  tk_instance :: nat
  tk_key :: string
  tk_pane :: pane_name
  tk_attempt :: nat
  tk_phase :: attempt_phase
  tk_cont :: continuation

record login_task =
  lt_instance :: nat
  lt_key :: string
  lt_method :: server_login_method

record command_task =
  ct_instance :: nat
  ct_command :: string
  ct_now :: rat

record dash =
  db_cache :: "(string, dashboard_entry) jsmap"
  db_storage :: storage
  db_toasts :: "(string \<times> string) list"
  db_calls :: "(string \<times> pane_name) list"
  db_mounted :: bool
  db_instance :: nat
  db_conversation :: "string option"
  db_hydrating :: bool
  db_loggedIn :: bool
  db_loginLoading :: bool
  db_loginError :: "string option"
  db_lastLoginAttempt :: "server_login_attempt option"
  db_paneData :: pane_data
  db_paneStates :: pane_states
  db_paneDataRef :: pane_data
  db_paneStatesRef :: pane_states
  db_consoleHistory :: "console_entry list"
  db_consoleLoading :: bool
  db_queuedPanes :: "pane_name list"
  db_loadAllProgress :: "(nat \<times> nat) option"
  db_cancelLoadAll :: bool
  db_dirty :: bool
  db_tasks :: "pane_task list"
  db_logins :: "login_task list"
  db_commands :: "command_task list"

definition INITIAL_PANE_STATE :: pane_state where
  "INITIAL_PANE_STATE = \<lparr>ps_loading = False, ps_attempt = 0, ps_error = None, ps_queued = False, ps_fetched_at = None\<rparr>"

definition createInitialPaneStates :: pane_states where
  "createInitialPaneStates = (\<lambda>pane. INITIAL_PANE_STATE)"

definition createInitialPaneData :: pane_data where
  "createInitialPaneData = (\<lambda>pane. None)"

definition no_storage :: storage where
  "no_storage = \<lparr>st_available = True, st_full = False, st_dashboards = Map.empty, st_sessions = Map.empty, st_consoles = Map.empty\<rparr>"

definition dash_init :: "storage \<Rightarrow> dash" where
  "dash_init st =
     \<lparr>db_cache = [], db_storage = st, db_toasts = [], db_calls = [], db_mounted = False, db_instance = 0,
      db_conversation = None, db_hydrating = False, db_loggedIn = False, db_loginLoading = False, db_loginError = None,
      db_lastLoginAttempt = None, db_paneData = createInitialPaneData, db_paneStates = createInitialPaneStates,
      db_paneDataRef = createInitialPaneData, db_paneStatesRef = createInitialPaneStates, db_consoleHistory = [],
      db_consoleLoading = False, db_queuedPanes = [], db_loadAllProgress = None, db_cancelLoadAll = False,
      db_dirty = False, db_tasks = [], db_logins = [], db_commands = []\<rparr>"

section \<open>The cache\<close>

definition normalizePaneStates :: "pane_states \<Rightarrow> pane_states" where
  "normalizePaneStates paneStates = (\<lambda>pane. (paneStates pane)\<lparr>ps_loading := False\<rparr>)"

definition getCachedState :: "string option \<Rightarrow> int \<Rightarrow> dash \<Rightarrow> dash \<times> dashboard_entry option" where
  "getCachedState publicKey now s =
     (case or_null publicKey of
        None \<Rightarrow> (s, None)
      | Some key \<Rightarrow>
          case jm_get (db_cache s) key of
            None \<Rightarrow>
              (case loadPersistedDashboard (Some key) now (db_storage s) of
                 (st, None) \<Rightarrow> (s\<lparr>db_storage := st\<rparr>, None)
               | (st, Some (loggedIn, paneData, paneStates)) \<Rightarrow>
                   (s\<lparr>db_storage := st\<rparr>,
                    Some \<lparr>de_loggedIn = loggedIn, de_loginError = None, de_lastLoginAttempt = None, de_paneData = paneData,
                          de_paneStates = normalizePaneStates paneStates,
                          de_consoleHistory = loadStoredConsoleHistory key st\<rparr>))
          | Some cached \<Rightarrow>
              (s\<lparr>db_cache := jm_set key cached (jm_delete key (db_cache s))\<rparr>,
               Some (cached\<lparr>de_paneStates := normalizePaneStates (de_paneStates cached)\<rparr>)))"

definition cacheState :: "string \<Rightarrow> dashboard_entry \<Rightarrow> int \<Rightarrow> dash \<Rightarrow> dash" where
  "cacheState publicKey entry now s =
     (let st = persistDashboard (Some publicKey) (de_loggedIn entry) (de_paneData entry) (de_paneStates entry) now (db_storage s);
          cached = entry\<lparr>de_paneStates := normalizePaneStates (de_paneStates entry)\<rparr>;
          updated = jm_set publicKey cached (jm_delete publicKey (db_cache s))
      in s\<lparr>db_storage := st, db_cache := evict_oldest MAX_CACHED_REPEATERS updated\<rparr>)"

definition resetRepeaterDashboardCacheForTests :: "dash \<Rightarrow> dash" where
  "resetRepeaterDashboardCacheForTests s = s\<lparr>db_cache := []\<rparr>"

section \<open>Setting state\<close>

definition setPaneStates :: "(pane_states \<Rightarrow> pane_states) \<Rightarrow> dash \<Rightarrow> dash" where
  "setPaneStates f s = s\<lparr>db_paneStates := f (db_paneStates s), db_dirty := True\<rparr>"

definition setPaneData :: "(pane_data \<Rightarrow> pane_data) \<Rightarrow> dash \<Rightarrow> dash" where
  "setPaneData f s = s\<lparr>db_paneData := f (db_paneData s), db_dirty := True\<rparr>"

definition setConsoleHistory :: "(console_entry list \<Rightarrow> console_entry list) \<Rightarrow> dash \<Rightarrow> dash" where
  "setConsoleHistory f s = s\<lparr>db_consoleHistory := f (db_consoleHistory s), db_dirty := True\<rparr>"

definition setLoggedIn :: "bool \<Rightarrow> dash \<Rightarrow> dash" where
  "setLoggedIn v s = s\<lparr>db_loggedIn := v, db_dirty := (db_dirty s \<or> v \<noteq> db_loggedIn s)\<rparr>"

definition setLoginError :: "string option \<Rightarrow> dash \<Rightarrow> dash" where
  "setLoginError v s = s\<lparr>db_loginError := v, db_dirty := (db_dirty s \<or> v \<noteq> db_loginError s)\<rparr>"

definition setLastLoginAttempt :: "server_login_attempt option \<Rightarrow> dash \<Rightarrow> dash" where
  "setLastLoginAttempt v s = s\<lparr>db_lastLoginAttempt := v, db_dirty := (db_dirty s \<or> v \<noteq> None \<or> db_lastLoginAttempt s \<noteq> None)\<rparr>"

text \<open>The ref and the state of one pane are set to the same value.\<close>

definition set_pane :: "pane_name \<Rightarrow> pane_state \<Rightarrow> dash \<Rightarrow> dash" where
  "set_pane pane v s =
     setPaneStates (\<lambda>prev. prev(pane := v)) (s\<lparr>db_paneStatesRef := (db_paneStatesRef s)(pane := v)\<rparr>)"

definition toast_error :: "string \<Rightarrow> string \<Rightarrow> dash \<Rightarrow> dash" where
  "toast_error title description s = s\<lparr>db_toasts := db_toasts s @ [(title, description)]\<rparr>"

section \<open>Mounting, rendering, hydrating\<close>

definition cache_entry :: "dash \<Rightarrow> dashboard_entry" where
  "cache_entry s =
     \<lparr>de_loggedIn = db_loggedIn s, de_loginError = db_loginError s, de_lastLoginAttempt = db_lastLoginAttempt s,
      de_paneData = db_paneData s, de_paneStates = db_paneStates s, de_consoleHistory = db_consoleHistory s\<rparr>"

text \<open>The effect that saves the state of the hook.\<close>

definition save_effect :: "int \<Rightarrow> dash \<Rightarrow> dash" where
  "save_effect now s =
     (case db_conversation s of
        None \<Rightarrow> s\<lparr>db_dirty := False\<rparr>
      | Some key \<Rightarrow>
          let s1 = cacheState key (cache_entry s) now s in
          s1\<lparr>db_storage := saveStoredConsoleHistory key (db_consoleHistory s) (db_storage s1), db_dirty := False\<rparr>)"

definition initial_state :: "string option \<Rightarrow> int \<Rightarrow> dash \<Rightarrow> dash" where
  "initial_state conversationId now s =
     (let (s1, cachedState) = getCachedState conversationId now s in
      case cachedState of
        Some c \<Rightarrow>
          s1\<lparr>db_loggedIn := de_loggedIn c, db_loginError := de_loginError c, db_lastLoginAttempt := de_lastLoginAttempt c,
             db_paneData := de_paneData c, db_paneStates := de_paneStates c, db_paneDataRef := de_paneData c,
             db_paneStatesRef := de_paneStates c, db_consoleHistory := de_consoleHistory c\<rparr>
      | None \<Rightarrow>
          let (st, remembered) = hasRememberedRepeaterSession conversationId now (db_storage s1) in
          s1\<lparr>db_storage := st, db_loggedIn := remembered, db_loginError := None, db_lastLoginAttempt := None,
             db_paneData := createInitialPaneData, db_paneStates := createInitialPaneStates,
             db_paneDataRef := createInitialPaneData, db_paneStatesRef := createInitialPaneStates,
             db_consoleHistory := (case or_null conversationId of Some key \<Rightarrow> loadStoredConsoleHistory key st | None \<Rightarrow> [])\<rparr>)"

definition dash_mount :: "conversation option \<Rightarrow> int \<Rightarrow> dash \<Rightarrow> dash" where
  "dash_mount activeConversation now s =
     (let conversationId = or_null (case activeConversation of
            Some c \<Rightarrow> if conv_type c = ConvContact then Some (conv_id c) else None | None \<Rightarrow> None)
      in save_effect now ((initial_state conversationId now s)
           \<lparr>db_mounted := True, db_instance := db_instance s + 1, db_conversation := conversationId,
            db_hydrating := (conversationId \<noteq> None), db_loginLoading := False, db_consoleLoading := False,
            db_queuedPanes := [], db_loadAllProgress := None, db_cancelLoadAll := False\<rparr>))"

definition dash_unmount :: "dash \<Rightarrow> dash" where
  "dash_unmount s = s\<lparr>db_mounted := False, db_hydrating := False\<rparr>"

text \<open>A render of the mounted hook with its effects. Every render reads the cache again.\<close>

definition dash_commit :: "int \<Rightarrow> dash \<Rightarrow> dash" where
  "dash_commit now s =
     (if \<not> db_mounted s then s
      else
        let s1 = fst (getCachedState (db_conversation s) now s);
            s2 = (if db_dirty s1 then save_effect now s1 else s1)
        in s2\<lparr>db_paneDataRef := db_paneData s2, db_paneStatesRef := db_paneStates s2\<rparr>)"

definition non_null :: "json \<Rightarrow> json option" where
  "non_null v = (if v = JNull then None else Some v)"

fun hydrate_pane :: "string \<times> json \<times> int \<Rightarrow> pane_data \<times> pane_states \<times> bool \<Rightarrow> pane_data \<times> pane_states \<times> bool" where
  "hydrate_pane (apiPane, entry_data, fetched_at) (nextData, nextStates, changed) =
     (case API_PANE_TO_STATE apiPane of
        None \<Rightarrow> (nextData, nextStates, changed)
      | Some pane \<Rightarrow>
          if nextData pane \<noteq> None then (nextData, nextStates, changed)
          else
            (nextData(pane := non_null entry_data),
             nextStates(pane := (nextStates pane)\<lparr>ps_loading := False, ps_error := None, ps_fetched_at := Some (fetched_at * 1000)\<rparr>),
             True))"

text \<open>The answer of the server-side cache; \<open>None\<close> is a request that failed.\<close>

definition hydrate :: "(string \<times> json \<times> int) list option \<Rightarrow> dash \<Rightarrow> dash" where
  "hydrate answer s =
     (if \<not> db_hydrating s then s
      else
        let s0 = s\<lparr>db_hydrating := False\<rparr> in
        case answer of
          None \<Rightarrow> s0
        | Some cached \<Rightarrow>
            let (nextData, nextStates, changed) = fold hydrate_pane cached (db_paneDataRef s, db_paneStatesRef s, False) in
            if \<not> changed then s0
            else setPaneStates (\<lambda>_. nextStates) (setPaneData (\<lambda>_. nextData)
                   (s0\<lparr>db_paneDataRef := nextData, db_paneStatesRef := nextStates\<rparr>)))"

section \<open>Errors\<close>

datatype api_failure = ApiFailure string int "json option" | PlainError string | OtherThrown string

definition getApiErrorCode :: "json option \<Rightarrow> (string \<times> (string \<times> json) list) option" where
  "getApiErrorCode detail =
     (case field ''code'' detail of
        Some (JString code) \<Rightarrow>
          if code = [] then None
          else Some (code, case field ''params'' detail of Some (JObject params) \<Rightarrow> params | _ \<Rightarrow> [])
      | _ \<Rightarrow> None)"

definition formatApiError :: "translation \<Rightarrow> api_failure \<Rightarrow> string" where
  "formatApiError tr err =
     (case err of
        ApiFailure message status detail \<Rightarrow>
          (case getApiErrorCode detail of
             Some (code, params) \<Rightarrow>
               let key = ''errors.'' @ code; translated = tr key params in
               if translated \<noteq> key then translated else message
           | None \<Rightarrow> message)
      | PlainError message \<Rightarrow> message
      | OtherThrown text_of_value \<Rightarrow> text_of_value)"

definition error_message :: "translation \<Rightarrow> string \<Rightarrow> api_failure \<Rightarrow> string" where
  "error_message tr fallback err =
     (case err of ApiFailure message _ _ \<Rightarrow> message | PlainError message \<Rightarrow> message | OtherThrown _ \<Rightarrow> tr fallback [])"

definition retryable :: "api_failure \<Rightarrow> bool" where
  "retryable err = (case err of ApiFailure _ status _ \<Rightarrow> \<not> (400 \<le> status \<and> status < 500) | _ \<Rightarrow> True)"

fun PANE_LABEL_KEYS :: "pane_name \<Rightarrow> string" where
  "PANE_LABEL_KEYS PStatus = ''repeater.telemetry''"
| "PANE_LABEL_KEYS PNodeInfo = ''repeater.nodeInfo''"
| "PANE_LABEL_KEYS PNeighbors = ''repeater.neighbors''"
| "PANE_LABEL_KEYS PRadioSettings = ''repeater.radioSettings''"
| "PANE_LABEL_KEYS PAcl = ''repeater.acl''"
| "PANE_LABEL_KEYS PAdvertIntervals = ''repeater.advertIntervals''"
| "PANE_LABEL_KEYS POwnerInfo = ''repeater.ownerInfo''"
| "PANE_LABEL_KEYS PLppTelemetry = ''repeater.lppSensors''"
| "PANE_LABEL_KEYS PRegions = ''repeater.regions''"

section \<open>Fetching panes\<close>

definition fetchPaneData :: "string \<Rightarrow> pane_name \<Rightarrow> dash \<Rightarrow> dash" where
  "fetchPaneData publicKey pane s = s\<lparr>db_calls := db_calls s @ [(publicKey, pane)]\<rparr>"

text \<open>The head of the retry loop, up to the request.\<close>

definition start_attempt :: "string \<Rightarrow> pane_name \<Rightarrow> nat \<Rightarrow> continuation \<Rightarrow> dash \<Rightarrow> dash" where
  "start_attempt publicKey pane attempt cont s =
     (let loadingState = \<lparr>ps_loading = True, ps_attempt = attempt, ps_error = None, ps_queued = False,
                           ps_fetched_at = ps_fetched_at (db_paneStatesRef s pane)\<rparr>;
          s1 = fetchPaneData publicKey pane (set_pane pane loadingState s)
      in s1\<lparr>db_tasks := db_tasks s1 @
           [\<lparr>tk_instance = db_instance s, tk_key = publicKey, tk_pane = pane, tk_attempt = attempt, tk_phase = Fetching,
             tk_cont = cont\<rparr>]\<rparr>)"

definition needsNodeInfoPrefetch :: "dash \<Rightarrow> bool" where
  "needsNodeInfoPrefetch s \<longleftrightarrow>
     ps_error (db_paneStatesRef s PNodeInfo) \<noteq> None \<or>
     (ps_fetched_at (db_paneStatesRef s PNodeInfo) = None \<and> db_paneDataRef s PNodeInfo = None)"

definition refreshPane :: "bool \<Rightarrow> pane_name \<Rightarrow> continuation \<Rightarrow> string \<Rightarrow> dash \<Rightarrow> dash" where
  "refreshPane hasAdvertLocation pane cont publicKey s =
     (if pane = PNeighbors \<and> \<not> hasAdvertLocation \<and> needsNodeInfoPrefetch s
      then start_attempt publicKey PNodeInfo 1 (KPane pane cont) s
      else start_attempt publicKey pane 1 cont s)"

definition LOAD_ALL_PANES :: "pane_name list" where
  "LOAD_ALL_PANES =
     [PStatus, PNodeInfo, PNeighbors, PRadioSettings, PAcl, PAdvertIntervals, POwnerInfo, PLppTelemetry, PRegions]"

definition markQueued :: "pane_name list \<Rightarrow> dash \<Rightarrow> dash" where
  "markQueued pending s =
     (let nextStates = fold (\<lambda>pane states. states(pane := (states pane)\<lparr>ps_queued := (pane \<in> set pending)\<rparr>)) LOAD_ALL_PANES
            (db_paneStatesRef s)
      in setPaneStates (\<lambda>_. nextStates) (s\<lparr>db_paneStatesRef := nextStates\<rparr>))"

definition load_all_end :: "dash \<Rightarrow> dash" where
  "load_all_end s = (markQueued [] (s\<lparr>db_queuedPanes := []\<rparr>))\<lparr>db_loadAllProgress := None, db_cancelLoadAll := False\<rparr>"

definition load_all_progress :: "nat \<Rightarrow> dash \<Rightarrow> dash" where
  "load_all_progress i s = s\<lparr>db_loadAllProgress := Some (i, length LOAD_ALL_PANES)\<rparr>"

text \<open>
  The loop of a Load All run from index \<open>i\<close>. Refreshing a pane suspends it, except without a public key, where
  it returns at once.
\<close>

definition load_all_next :: "nat \<Rightarrow> dash \<Rightarrow> dash" where
  "load_all_next i s =
     (let pending = drop (i + 1) LOAD_ALL_PANES in markQueued pending (s\<lparr>db_queuedPanes := pending\<rparr>))"

function load_all_from :: "bool \<Rightarrow> nat \<Rightarrow> dash \<Rightarrow> dash" where
  "load_all_from hasAdvertLocation i s =
     (if length LOAD_ALL_PANES \<le> i \<or> db_cancelLoadAll s \<or> \<not> db_mounted s then load_all_end s
      else
        case db_conversation s of
          None \<Rightarrow> load_all_from hasAdvertLocation (i + 1) (load_all_progress (i + 1) (load_all_next i s))
        | Some publicKey \<Rightarrow>
            refreshPane hasAdvertLocation (LOAD_ALL_PANES ! i) (KAll i hasAdvertLocation) publicKey (load_all_next i s))"
  by pat_completeness auto
termination by (relation "measure (\<lambda>(loc, i, s). length LOAD_ALL_PANES - i)") auto

declare load_all_from.simps [simp del]

definition loadAll :: "bool \<Rightarrow> dash \<Rightarrow> dash" where
  "loadAll hasAdvertLocation s =
     load_all_from hasAdvertLocation 0
       (load_all_progress 0 (markQueued LOAD_ALL_PANES (s\<lparr>db_cancelLoadAll := False, db_queuedPanes := LOAD_ALL_PANES\<rparr>)))"

definition cancelLoadAll :: "dash \<Rightarrow> dash" where
  "cancelLoadAll s = s\<lparr>db_cancelLoadAll := True\<rparr>"

text \<open>A run of attempts has returned while the hook is mounted.\<close>

fun continue_with :: "string \<Rightarrow> continuation \<Rightarrow> dash \<Rightarrow> dash" where
  "continue_with publicKey KEnd s = s"
| "continue_with publicKey (KPane pane cont) s = start_attempt publicKey pane 1 cont s"
| "continue_with publicKey (KAll i hasAdvertLocation) s =
     load_all_from hasAdvertLocation (i + 1) (load_all_progress (i + 1) s)"

definition alive :: "dash \<Rightarrow> pane_task \<Rightarrow> bool" where
  "alive s t \<longleftrightarrow> db_mounted s \<and> tk_instance t = db_instance s"

definition drop_nth :: "nat \<Rightarrow> 'a list \<Rightarrow> 'a list" where
  "drop_nth n xs = take n xs @ drop (Suc n) xs"

definition pane_loaded :: "pane_task \<Rightarrow> json \<Rightarrow> int \<Rightarrow> dash \<Rightarrow> dash" where
  "pane_loaded t data now s =
     (let successState = \<lparr>ps_loading = False, ps_attempt = tk_attempt t, ps_error = None, ps_queued = False,
                           ps_fetched_at = Some now\<rparr>
      in set_pane (tk_pane t) successState
           (setPaneData (\<lambda>prev. prev(tk_pane t := non_null data))
             (s\<lparr>db_paneDataRef := (db_paneDataRef s)(tk_pane t := non_null data)\<rparr>)))"

definition pane_failed :: "translation \<Rightarrow> pane_task \<Rightarrow> api_failure \<Rightarrow> dash \<Rightarrow> dash" where
  "pane_failed tr t err s =
     (let msg = error_message tr ''toast.requestFailed'' err;
          errorState = \<lparr>ps_loading = False, ps_attempt = tk_attempt t, ps_error = Some msg, ps_queued = False,
                         ps_fetched_at = ps_fetched_at (db_paneStatesRef s (tk_pane t))\<rparr>
      in toast_error (tr ''toast.fetchPaneFailed'' [(''pane'', JString (tr (PANE_LABEL_KEYS (tk_pane t)) []))])
           (coalesce (or_null (Some (formatApiError tr err))) msg)
           (set_pane (tk_pane t) errorState s))"

text \<open>
  The request of the \<open>n\<close>-th task is answered. When the hook is gone the task just ends: what is left of a
  Load All run then only sets state of the old instance.
\<close>

definition pane_answer :: "translation \<Rightarrow> nat \<Rightarrow> api_failure + json \<Rightarrow> int \<Rightarrow> dash \<Rightarrow> dash" where
  "pane_answer tr n answer now s =
     (if n < length (db_tasks s) \<and> tk_phase (db_tasks s ! n) = Fetching then
        let t = db_tasks s ! n;
            s1 = s\<lparr>db_tasks := drop_nth n (db_tasks s)\<rparr>
        in if \<not> alive s t then s1
           else
             case answer of
               Inr data \<Rightarrow> continue_with (tk_key t) (tk_cont t) (pane_loaded t data now s1)
             | Inl err \<Rightarrow>
                 if tk_attempt t = MAX_RETRIES \<or> \<not> retryable err
                 then continue_with (tk_key t) (tk_cont t) (pane_failed tr t err s1)
                 else s1\<lparr>db_tasks := db_tasks s1 @ [t\<lparr>tk_phase := Waiting\<rparr>]\<rparr>
      else s)"

text \<open>The delay before the next attempt of the \<open>n\<close>-th task is over.\<close>

definition pane_retry :: "nat \<Rightarrow> dash \<Rightarrow> dash" where
  "pane_retry n s =
     (if n < length (db_tasks s) \<and> tk_phase (db_tasks s ! n) = Waiting then
        let t = db_tasks s ! n;
            s1 = s\<lparr>db_tasks := drop_nth n (db_tasks s)\<rparr>
        in if \<not> alive s t then s1 else start_attempt (tk_key t) (tk_pane t) (tk_attempt t + 1) (tk_cont t) s1
      else s)"

section \<open>Logging in and the console\<close>

definition getLoginToastTitle :: "translation \<Rightarrow> string \<Rightarrow> string" where
  "getLoginToastTitle tr status =
     (if status = ''timeout'' then tr ''toast.loginNotHeard'' []
      else if status = ''error'' then tr ''toast.loginNotConfirmed'' []
      else tr ''toast.repeaterLoginNotConfirmed'' [])"

definition login :: "string \<Rightarrow> dash \<Rightarrow> dash" where
  "login password s =
     (case db_conversation s of
        None \<Rightarrow> s
      | Some publicKey \<Rightarrow>
          let method = (if 0 < length (js_trim password) then LoginPassword else LoginBlank);
              s1 = setLoginError None (s\<lparr>db_loginLoading := True\<rparr>)
          in s1\<lparr>db_logins := db_logins s1 @ [\<lparr>lt_instance = db_instance s, lt_key = publicKey, lt_method = method\<rparr>]\<rparr>)"

definition loginAsGuest :: "dash \<Rightarrow> dash" where
  "loginAsGuest s = login [] s"

definition resetLogin :: "dash \<Rightarrow> dash" where
  "resetLogin s =
     (let s1 = setLastLoginAttempt None (setLoginError None (setLoggedIn False s))
      in s1\<lparr>db_storage := forgetRepeaterSession (db_conversation s) (db_storage s1)\<rparr>)"

text \<open>State of an instance that is gone is not set; \<^verbatim>\<open>activeIdRef\<close> keeps its value, so the rest is done.\<close>

definition if_current :: "nat \<Rightarrow> (dash \<Rightarrow> dash) \<Rightarrow> dash \<Rightarrow> dash" where
  "if_current inst f s = (if db_mounted s \<and> inst = db_instance s then f s else s)"

definition login_answer :: "translation \<Rightarrow> nat \<Rightarrow> api_failure + repeater_login_response \<Rightarrow> int \<Rightarrow> dash \<Rightarrow> dash" where
  "login_answer tr n answer now s =
     (if n < length (db_logins s) then
        let t = db_logins s ! n;
            current = if_current (lt_instance t);
            remember = (\<lambda>s'. s'\<lparr>db_storage := rememberRepeaterSession (Some (lt_key t)) now (db_storage s')\<rparr>);
            s3 = (case answer of
                Inr result \<Rightarrow>
                  let s1 = current (setLastLoginAttempt
                             (Some (buildServerLoginAttemptFromResponse tr (lt_method t) result RepeaterEntity now))) s;
                      s2 = remember (current (setLoggedIn True) s1)
                  in if lr_authenticated result then s2
                     else
                       let msg = coalesce (lr_message result) (tr ''repeater.loginNotConfirmed'' []) in
                       toast_error (getLoginToastTitle tr (lr_status result)) msg (current (setLoginError (Some msg)) s2)
              | Inl err \<Rightarrow>
                  let msg = error_message tr ''toast.loginFailed'' err;
                      s1 = current (setLastLoginAttempt
                             (Some (buildServerLoginAttemptFromError tr (lt_method t) msg RepeaterEntity now))) s;
                      s2 = remember (current (setLoggedIn True) s1)
                  in toast_error (tr ''toast.loginRequestFailed'' [])
                       (tr ''toast.loginRequestFailedDetail'' [(''message'', JString msg)])
                       (current (setLoginError (Some msg)) s2))
        in (current (\<lambda>s'. s'\<lparr>db_loginLoading := False\<rparr>) s3)\<lparr>db_logins := drop_nth n (db_logins s)\<rparr>
      else s)"

definition sendConsoleCommand :: "string \<Rightarrow> int \<Rightarrow> dash \<Rightarrow> dash" where
  "sendConsoleCommand command nowMs s =
     (case db_conversation s of
        None \<Rightarrow> s
      | Some publicKey \<Rightarrow>
          let now = of_int (nowMs div 1000);
              s1 = setConsoleHistory (\<lambda>prev. prev @
                     [\<lparr>co_command = command, co_response = [], co_timestamp = now, co_outgoing = True\<rparr>]) s
          in s1\<lparr>db_consoleLoading := True,
                db_commands := db_commands s1 @ [\<lparr>ct_instance = db_instance s, ct_command = command, ct_now = now\<rparr>]\<rparr>)"

text \<open>An answer to a command: the response and the time of the sender.\<close>

definition command_answer :: "translation \<Rightarrow> nat \<Rightarrow> api_failure + string \<times> rat option \<Rightarrow> dash \<Rightarrow> dash" where
  "command_answer tr n answer s =
     (if n < length (db_commands s) then
        let t = db_commands s ! n;
            current = if_current (ct_instance t);
            (response, timestamp) = (case answer of
                Inr (response, sender_timestamp) \<Rightarrow> (response, coalesce sender_timestamp (ct_now t))
              | Inl err \<Rightarrow>
                  (tr ''repeater.consoleError'' [(''message'', JString (error_message tr ''toast.commandFailed'' err))], ct_now t));
            s1 = current (setConsoleHistory (\<lambda>prev. prev @
                   [\<lparr>co_command = ct_command t, co_response = response, co_timestamp = timestamp, co_outgoing = False\<rparr>]))
                 (s\<lparr>db_commands := drop_nth n (db_commands s)\<rparr>)
        in current (\<lambda>s'. s'\<lparr>db_consoleLoading := False\<rparr>) s1
      else s)"

definition sendZeroHopAdvert :: "int \<Rightarrow> dash \<Rightarrow> dash" where
  "sendZeroHopAdvert nowMs s = sendConsoleCommand ''advert.zerohop'' nowMs s"

definition sendFloodAdvert :: "int \<Rightarrow> dash \<Rightarrow> dash" where
  "sendFloodAdvert nowMs s = sendConsoleCommand ''advert'' nowMs s"

definition rebootRepeater :: "int \<Rightarrow> dash \<Rightarrow> dash" where
  "rebootRepeater nowMs s = sendConsoleCommand ''reboot'' nowMs s"

definition syncClock :: "int \<Rightarrow> dash \<Rightarrow> dash" where
  "syncClock nowMs s = sendConsoleCommand (''time '' @ int_to_string (nowMs div 1000)) nowMs s"

section \<open>Steps\<close>

datatype dash_action =
    ALogin string | ALoginAsGuest | AResetLogin | ARefresh bool pane_name | ALoadAll bool | ACancelLoadAll
  | ACommand string int | AZeroHop int | AFlood int | AReboot int | ASyncClock int

datatype dash_input =
    DMount "conversation option" int
  | DUnmount
  | DReload
  | DCommit int
  | DHydrate "(string \<times> json \<times> int) list option"
  | DAction dash_action
  | DAnswer nat "api_failure + json" int
  | DRetry nat
  | DLoginAnswer nat "api_failure + repeater_login_response" int
  | DCommandAnswer nat "api_failure + string \<times> rat option"
  | DStorage bool bool

fun dash_action_step :: "dash_action \<Rightarrow> dash \<Rightarrow> dash" where
  "dash_action_step (ALogin password) s = login password s"
| "dash_action_step ALoginAsGuest s = loginAsGuest s"
| "dash_action_step AResetLogin s = resetLogin s"
| "dash_action_step (ARefresh loc pane) s =
     (case db_conversation s of None \<Rightarrow> s | Some publicKey \<Rightarrow> refreshPane loc pane KEnd publicKey s)"
| "dash_action_step (ALoadAll loc) s = loadAll loc s"
| "dash_action_step ACancelLoadAll s = cancelLoadAll s"
| "dash_action_step (ACommand command now) s = sendConsoleCommand command now s"
| "dash_action_step (AZeroHop now) s = sendZeroHopAdvert now s"
| "dash_action_step (AFlood now) s = sendFloodAdvert now s"
| "dash_action_step (AReboot now) s = rebootRepeater now s"
| "dash_action_step (ASyncClock now) s = syncClock now s"

text \<open>A reload of the page loses everything but the storage.\<close>

fun dash_step :: "translation \<Rightarrow> dash_input \<Rightarrow> dash \<Rightarrow> dash" where
  "dash_step tr (DMount conv now) s = dash_mount conv now s"
| "dash_step tr DUnmount s = dash_unmount s"
| "dash_step tr DReload s = dash_init (db_storage s)"
| "dash_step tr (DCommit now) s = dash_commit now s"
| "dash_step tr (DHydrate answer) s = hydrate answer s"
| "dash_step tr (DAction a) s = (if db_mounted s then dash_action_step a s else s)"
| "dash_step tr (DAnswer n answer now) s = pane_answer tr n answer now s"
| "dash_step tr (DRetry n) s = pane_retry n s"
| "dash_step tr (DLoginAnswer n answer now) s = login_answer tr n answer now s"
| "dash_step tr (DCommandAnswer n answer) s = command_answer tr n answer s"
| "dash_step tr (DStorage available full) s =
     s\<lparr>db_storage := (db_storage s)\<lparr>st_available := available, st_full := full\<rparr>\<rparr>"

section \<open>Invariants\<close>

fun has_all :: "continuation \<Rightarrow> bool" where
  "has_all KEnd = False"
| "has_all (KPane pane cont) = has_all cont"
| "has_all (KAll i loc) = True"

definition task_ok :: "dash \<Rightarrow> pane_task \<Rightarrow> bool" where
  "task_ok s t \<longleftrightarrow>
     tk_instance t \<le> db_instance s \<and> 1 \<le> tk_attempt t \<and> tk_attempt t \<le> MAX_RETRIES \<and>
     (tk_phase t = Waiting \<longrightarrow> tk_attempt t < MAX_RETRIES)"

definition pane_running :: "dash \<Rightarrow> pane_name \<Rightarrow> bool" where
  "pane_running s pane \<longleftrightarrow> list_ex (\<lambda>t. alive s t \<and> tk_pane t = pane) (db_tasks s)"

definition load_all_running :: "dash \<Rightarrow> bool" where
  "load_all_running s \<longleftrightarrow> list_ex (\<lambda>t. alive s t \<and> has_all (tk_cont t)) (db_tasks s)"

text \<open>
  The panes: a pane that shows as loading is being fetched, and progress is shown only while a Load All run
  is under way. While a task is being worked on, its pane (in \<open>X\<close>) and its run (\<open>b\<close>) are excused.
\<close>

definition panes_inv :: "pane_name set \<Rightarrow> bool \<Rightarrow> dash \<Rightarrow> bool" where
  "panes_inv X b s \<longleftrightarrow>
     list_all (task_ok s) (db_tasks s) \<and>
     (db_mounted s \<longrightarrow>
        db_paneStatesRef s = db_paneStates s \<and>
        (\<forall>pane. pane \<notin> X \<longrightarrow> ps_loading (db_paneStates s pane) \<longrightarrow> pane_running s pane) \<and>
        (b \<or> db_loadAllProgress s = None \<and> db_queuedPanes s = [] \<or> load_all_running s))"

definition normal_entry :: "dashboard_entry \<Rightarrow> dashboard_entry" where
  "normal_entry e = e\<lparr>de_paneStates := normalizePaneStates (de_paneStates e)\<rparr>"

definition cache_inv :: "(string, dashboard_entry) jsmap \<Rightarrow> bool" where
  "cache_inv c \<longleftrightarrow>
     jm_wf c \<and> length c \<le> MAX_CACHED_REPEATERS \<and> jm_all (\<lambda>k e. \<forall>pane. \<not> ps_loading (de_paneStates e pane)) c"

text \<open>The rest of the hook: an unchanged state is in the cache, and a busy login or console has a request out.\<close>

definition hook_inv :: "dash \<Rightarrow> bool" where
  "hook_inv s \<longleftrightarrow>
     cache_inv (db_cache s) \<and> db_conversation s \<noteq> Some [] \<and> (db_hydrating s \<longrightarrow> db_mounted s) \<and>
     list_all (\<lambda>l. lt_instance l \<le> db_instance s) (db_logins s) \<and>
     list_all (\<lambda>c. ct_instance c \<le> db_instance s) (db_commands s) \<and>
     (db_mounted s \<longrightarrow>
        db_paneDataRef s = db_paneData s \<and>
        (db_loginLoading s \<longrightarrow> list_ex (\<lambda>l. lt_instance l = db_instance s) (db_logins s)) \<and>
        (db_consoleLoading s \<longrightarrow> list_ex (\<lambda>c. ct_instance c = db_instance s) (db_commands s)) \<and>
        (\<not> db_dirty s \<longrightarrow>
           (\<forall>key. db_conversation s = Some key \<longrightarrow> jm_get (db_cache s) key = Some (normal_entry (cache_entry s)))))"

definition dash_inv :: "dash \<Rightarrow> bool" where
  "dash_inv s \<longleftrightarrow> panes_inv {} False s \<and> hook_inv s"

subsection \<open>What fetching leaves alone\<close>

definition same_hook :: "dash \<Rightarrow> dash \<Rightarrow> bool" where
  "same_hook s s' \<longleftrightarrow>
     db_cache s' = db_cache s \<and> db_storage s' = db_storage s \<and> db_mounted s' = db_mounted s \<and> db_instance s' = db_instance s \<and>
     db_conversation s' = db_conversation s \<and> db_hydrating s' = db_hydrating s \<and> db_loggedIn s' = db_loggedIn s \<and>
     db_loginLoading s' = db_loginLoading s \<and> db_loginError s' = db_loginError s \<and>
     db_lastLoginAttempt s' = db_lastLoginAttempt s \<and> db_consoleHistory s' = db_consoleHistory s \<and>
     db_consoleLoading s' = db_consoleLoading s \<and> db_logins s' = db_logins s \<and> db_commands s' = db_commands s"

definition same_data :: "dash \<Rightarrow> dash \<Rightarrow> bool" where
  "same_data s s' \<longleftrightarrow> db_paneData s' = db_paneData s \<and> db_paneDataRef s' = db_paneDataRef s"

lemmas pane_defs = set_pane_def setPaneStates_def setPaneData_def markQueued_def load_all_end_def load_all_progress_def
  fetchPaneData_def start_attempt_def Let_def

lemma same_trans:
  "same_hook s s' \<Longrightarrow> same_hook s' s'' \<Longrightarrow> same_hook s s''"
  "same_data s s' \<Longrightarrow> same_data s' s'' \<Longrightarrow> same_data s s''"
  by (simp_all add: same_hook_def same_data_def)

lemma start_same: "same_hook s (start_attempt k p n c s)" "same_data s (start_attempt k p n c s)" "db_dirty (start_attempt k p n c s)"
  by (simp_all add: pane_defs same_hook_def same_data_def)

lemma refresh_same: "same_hook s (refreshPane loc p c k s)" "same_data s (refreshPane loc p c k s)" "db_dirty (refreshPane loc p c k s)"
  by (simp_all add: refreshPane_def start_same)

text \<open>The induction along the loop of a Load All run.\<close>

lemma load_all_rule:
  assumes "P loc i s"
    and "\<And>loc i s. P loc i s \<Longrightarrow> Q (load_all_end s)"
    and "\<And>loc i s. P loc i s \<Longrightarrow> i < length LOAD_ALL_PANES \<Longrightarrow> db_mounted s \<Longrightarrow> db_conversation s = None \<Longrightarrow>
           P loc (i + 1) (load_all_progress (i + 1) (load_all_next i s))"
    and "\<And>loc i s k. P loc i s \<Longrightarrow> i < length LOAD_ALL_PANES \<Longrightarrow> db_mounted s \<Longrightarrow> db_conversation s = Some k \<Longrightarrow>
           Q (refreshPane loc (LOAD_ALL_PANES ! i) (KAll i loc) k (load_all_next i s))"
  shows "Q (load_all_from loc i s)"
  using assms(1)
proof (induction loc i s rule: load_all_from.induct)
  case (1 loc i s)
  show ?case
  proof (cases "length LOAD_ALL_PANES \<le> i \<or> db_cancelLoadAll s \<or> \<not> db_mounted s")
    case True
    then show ?thesis using assms(2) [OF 1(2)] load_all_from.simps [of loc i s] by simp
  next
    case False
    then have "i < length LOAD_ALL_PANES" "db_mounted s" by auto
    then show ?thesis
      using False 1(1) [OF False] assms(3, 4) 1(2) load_all_from.simps [of loc i s] by (cases "db_conversation s") simp_all
  qed
qed

lemma load_all_same: "same_hook s (load_all_from loc i s) \<and> same_data s (load_all_from loc i s) \<and> db_dirty (load_all_from loc i s)"
proof (rule load_all_rule [where P = "\<lambda>loc i s'. same_hook s s' \<and> same_data s s'"])
  show "same_hook s s \<and> same_data s s" by (simp add: same_hook_def same_data_def)
next
  fix loc i s' k assume s': "same_hook s s' \<and> same_data s s'"
  have next_same: "same_hook s' (load_all_next i s')" "same_data s' (load_all_next i s')"
    by (simp_all add: load_all_next_def pane_defs same_hook_def same_data_def)
  show "same_hook s (refreshPane loc (LOAD_ALL_PANES ! i) (KAll i loc) k (load_all_next i s')) \<and>
    same_data s (refreshPane loc (LOAD_ALL_PANES ! i) (KAll i loc) k (load_all_next i s')) \<and>
    db_dirty (refreshPane loc (LOAD_ALL_PANES ! i) (KAll i loc) k (load_all_next i s'))"
    using s' next_same refresh_same by (meson same_trans)
qed (simp_all add: load_all_next_def pane_defs same_hook_def same_data_def)

lemma continue_same:
  "same_hook s (continue_with k c s)" "same_data s (continue_with k c s)" "db_dirty s \<Longrightarrow> db_dirty (continue_with k c s)"
proof -
  have p: "same_hook s (load_all_progress i s)" "same_data s (load_all_progress i s)" for i
    by (simp_all add: load_all_progress_def same_hook_def same_data_def)
  show "same_hook s (continue_with k c s)"
    by (cases c) (simp_all add: start_same, simp add: same_hook_def, use load_all_same p same_trans in blast)
  show "same_data s (continue_with k c s)"
    by (cases c) (simp_all add: start_same, simp add: same_data_def, use load_all_same p same_trans in blast)
  show "db_dirty s \<Longrightarrow> db_dirty (continue_with k c s)"
    by (cases c) (simp_all add: start_same load_all_same)
qed

subsection \<open>Panes\<close>

lemma panes_inv_cong:
  "db_tasks s' = db_tasks s \<Longrightarrow> db_instance s' = db_instance s \<Longrightarrow> db_mounted s' = db_mounted s \<Longrightarrow>
   db_paneStatesRef s' = db_paneStatesRef s \<Longrightarrow> db_paneStates s' = db_paneStates s \<Longrightarrow>
   db_loadAllProgress s' = db_loadAllProgress s \<Longrightarrow> db_queuedPanes s' = db_queuedPanes s \<Longrightarrow> panes_inv X b s \<Longrightarrow> panes_inv X b s'"
  by (simp add: panes_inv_def task_ok_def pane_running_def load_all_running_def alive_def list_all_iff list_ex_iff)

lemma panes_inv_weaken: "panes_inv X b s \<Longrightarrow> X \<subseteq> Y \<Longrightarrow> (b \<Longrightarrow> c) \<Longrightarrow> panes_inv Y c s"
  by (auto simp: panes_inv_def)

lemma start_inv:
  assumes "panes_inv X b s" and "1 \<le> n" and "n \<le> MAX_RETRIES"
  shows "panes_inv (X - {p}) (b \<and> \<not> has_all c) (start_attempt k p n c s)"
  using assms
  by (auto simp: panes_inv_def task_ok_def pane_running_def load_all_running_def alive_def pane_defs list_all_iff list_ex_iff)

lemma refresh_inv:
  assumes "panes_inv {} b s"
  shows "panes_inv {} (b \<and> \<not> has_all c) (refreshPane loc p c k s)"
  using start_inv [OF assms, of 1 p c k] start_inv [OF assms, of 1 PNodeInfo "KPane p c" k]
  by (auto simp: refreshPane_def MAX_RETRIES_def)

lemma queued_loading:
  "ps_loading (fold (\<lambda>pane states. states(pane := (states pane)\<lparr>ps_queued := (pane \<in> set pending)\<rparr>)) panes f p) = ps_loading (f p)"
  by (induction panes arbitrary: f) auto

lemma markQueued_inv: "panes_inv X b s \<Longrightarrow> panes_inv X b (markQueued pending s)"
  by (auto simp: panes_inv_def task_ok_def pane_running_def load_all_running_def alive_def markQueued_def setPaneStates_def
      Let_def queued_loading list_all_iff list_ex_iff)

lemma load_all_end_inv: "panes_inv X b s \<Longrightarrow> panes_inv X False (load_all_end s)"
proof -
  assume s: "panes_inv X b s"
  have "panes_inv X True (s\<lparr>db_queuedPanes := []\<rparr>)"
    using s by (auto simp: panes_inv_def task_ok_def pane_running_def alive_def list_all_iff list_ex_iff)
  from markQueued_inv [OF this, of "[]"]
  show ?thesis
    by (auto simp: load_all_end_def panes_inv_def task_ok_def pane_running_def alive_def markQueued_def setPaneStates_def
        Let_def list_all_iff list_ex_iff)
qed

lemma load_all_next_inv: "panes_inv X b s \<Longrightarrow> panes_inv X True (load_all_next i s)"
proof -
  assume s: "panes_inv X b s"
  have "panes_inv X True (s\<lparr>db_queuedPanes := q\<rparr>)" for q
    using s by (auto simp: panes_inv_def task_ok_def pane_running_def alive_def list_all_iff list_ex_iff)
  then show ?thesis by (simp add: load_all_next_def Let_def markQueued_inv)
qed

lemma load_all_progress_inv: "panes_inv X b s \<Longrightarrow> panes_inv X True (load_all_progress i s)"
  by (auto simp: load_all_progress_def panes_inv_def task_ok_def pane_running_def alive_def list_all_iff list_ex_iff)

lemma load_all_inv: "panes_inv {} b s \<Longrightarrow> panes_inv {} False (load_all_from loc i s)"
proof (rule load_all_rule [where P = "\<lambda>loc i s. panes_inv {} True s"])
  fix loc i s k assume "panes_inv {} True s"
  from refresh_inv [OF load_all_next_inv [OF this], of "KAll i loc"]
  show "panes_inv {} False (refreshPane loc (LOAD_ALL_PANES ! i) (KAll i loc) k (load_all_next i s))" by simp
next
  assume "panes_inv {} b s"
  then show "panes_inv {} True s" by (rule panes_inv_weaken) simp_all
qed (use load_all_end_inv load_all_next_inv load_all_progress_inv in blast)+

lemma continue_inv:
  assumes "panes_inv {} (has_all c) s"
  shows "panes_inv {} False (continue_with k c s)"
proof (cases c)
  case (KPane p c')
  then show ?thesis using start_inv [OF assms, of 1 p c' k] by (simp add: MAX_RETRIES_def)
qed (use assms load_all_inv [OF load_all_progress_inv] in simp_all)

lemma set_drop_nth: "set (drop_nth n xs) \<subseteq> set xs"
  by (auto simp: drop_nth_def dest: in_set_takeD in_set_dropD)

lemma in_drop_nth: "n < length xs \<Longrightarrow> x \<in> set xs \<Longrightarrow> x = xs ! n \<or> x \<in> set (drop_nth n xs)"
  using id_take_nth_drop [of n xs] by (metis Un_iff drop_nth_def set_ConsD set_append)

lemma drop_task_running:
  assumes "n < length (db_tasks s)"
  shows "pane_running s p \<Longrightarrow> tk_pane (db_tasks s ! n) \<noteq> p \<or> \<not> alive s (db_tasks s ! n) \<Longrightarrow>
      pane_running (s\<lparr>db_tasks := drop_nth n (db_tasks s)\<rparr>) p"
    and "load_all_running s \<Longrightarrow> \<not> has_all (tk_cont (db_tasks s ! n)) \<or> \<not> alive s (db_tasks s ! n) \<Longrightarrow>
      load_all_running (s\<lparr>db_tasks := drop_nth n (db_tasks s)\<rparr>)"
proof -
  have alive: "alive (s\<lparr>db_tasks := ts\<rparr>) t = alive s t" for ts t by (simp add: alive_def)
  show "pane_running s p \<Longrightarrow> tk_pane (db_tasks s ! n) \<noteq> p \<or> \<not> alive s (db_tasks s ! n) \<Longrightarrow>
      pane_running (s\<lparr>db_tasks := drop_nth n (db_tasks s)\<rparr>) p"
    unfolding pane_running_def list_ex_iff alive using in_drop_nth [OF assms] by fastforce
  show "load_all_running s \<Longrightarrow> \<not> has_all (tk_cont (db_tasks s ! n)) \<or> \<not> alive s (db_tasks s ! n) \<Longrightarrow>
      load_all_running (s\<lparr>db_tasks := drop_nth n (db_tasks s)\<rparr>)"
    unfolding load_all_running_def list_ex_iff alive using in_drop_nth [OF assms] by fastforce
qed

lemma remove_task_inv:
  assumes "panes_inv {} False s" and "n < length (db_tasks s)"
  shows "panes_inv {tk_pane (db_tasks s ! n)} (has_all (tk_cont (db_tasks s ! n))) (s\<lparr>db_tasks := drop_nth n (db_tasks s)\<rparr>)"
    and "\<not> alive s (db_tasks s ! n) \<Longrightarrow> panes_inv {} False (s\<lparr>db_tasks := drop_nth n (db_tasks s)\<rparr>)"
proof -
  let ?s = "s\<lparr>db_tasks := drop_nth n (db_tasks s)\<rparr>"
  have tasks: "list_all (task_ok ?s) (db_tasks ?s)"
    using assms(1) set_drop_nth [of n "db_tasks s"] by (auto simp: panes_inv_def task_ok_def list_all_iff)
  show "panes_inv {tk_pane (db_tasks s ! n)} (has_all (tk_cont (db_tasks s ! n))) ?s"
    using assms(1) tasks drop_task_running [OF assms(2)] by (auto simp: panes_inv_def)
  show "panes_inv {} False ?s" if "\<not> alive s (db_tasks s ! n)"
    using assms(1) tasks drop_task_running [OF assms(2)] that by (auto simp: panes_inv_def)
qed

lemma loaded_inv: "panes_inv {tk_pane t} b s \<Longrightarrow> panes_inv {} b (pane_loaded t d now s)"
  by (auto simp: pane_loaded_def panes_inv_def task_ok_def pane_running_def load_all_running_def alive_def pane_defs list_all_iff list_ex_iff)

lemma failed_inv: "panes_inv {tk_pane t} b s \<Longrightarrow> panes_inv {} b (pane_failed tr t err s)"
  by (auto simp: pane_failed_def toast_error_def panes_inv_def task_ok_def pane_running_def load_all_running_def alive_def pane_defs
      list_all_iff list_ex_iff)

lemma waiting_inv:
  "panes_inv {tk_pane t} (has_all (tk_cont t)) s \<Longrightarrow> task_ok s t \<Longrightarrow> tk_attempt t \<noteq> MAX_RETRIES \<Longrightarrow> alive s t \<Longrightarrow>
   panes_inv {} False (s\<lparr>db_tasks := db_tasks s @ [t\<lparr>tk_phase := Waiting\<rparr>]\<rparr>)"
  by (simp add: panes_inv_def task_ok_def pane_running_def load_all_running_def alive_def list_all_iff list_ex_iff) metis

lemma task_nth_ok: "panes_inv X b s \<Longrightarrow> n < length (db_tasks s) \<Longrightarrow> task_ok s (db_tasks s ! n)"
  by (simp add: panes_inv_def list_all_length)

lemma answer_inv:
  assumes "panes_inv {} False s"
  shows "panes_inv {} False (pane_answer tr n answer now s)"
proof (cases "n < length (db_tasks s) \<and> tk_phase (db_tasks s ! n) = Fetching \<and> alive s (db_tasks s ! n)")
  case True
  let ?t = "db_tasks s ! n" and ?s = "s\<lparr>db_tasks := drop_nth n (db_tasks s)\<rparr>"
  have s1: "panes_inv {tk_pane ?t} (has_all (tk_cont ?t)) ?s" using remove_task_inv(1) [OF assms] True by blast
  have ok: "task_ok ?s ?t" "alive ?s ?t" using task_nth_ok [OF assms] True by (simp_all add: task_ok_def alive_def)
  show ?thesis
  proof (cases answer)
    case (Inl err)
    then show ?thesis using True continue_inv [OF failed_inv [OF s1]] waiting_inv [OF s1 ok(1)] ok(2)
      by (simp add: pane_answer_def Let_def)
  next
    case (Inr d)
    then show ?thesis using True continue_inv [OF loaded_inv [OF s1]] by (simp add: pane_answer_def Let_def)
  qed
next
  case False
  then show ?thesis using assms remove_task_inv(2) [OF assms] by (auto simp: pane_answer_def Let_def)
qed

lemma retry_inv:
  assumes "panes_inv {} False s"
  shows "panes_inv {} False (pane_retry n s)"
proof (cases "n < length (db_tasks s) \<and> tk_phase (db_tasks s ! n) = Waiting \<and> alive s (db_tasks s ! n)")
  case True
  let ?t = "db_tasks s ! n"
  have ok: "task_ok s ?t" using task_nth_ok [OF assms] True by blast
  have "panes_inv {tk_pane ?t} (has_all (tk_cont ?t)) (s\<lparr>db_tasks := drop_nth n (db_tasks s)\<rparr>)"
    using remove_task_inv(1) [OF assms] True by blast
  from start_inv [OF this, of "tk_attempt ?t + 1" "tk_pane ?t" "tk_cont ?t" "tk_key ?t"] ok
  show ?thesis using True by (simp add: pane_retry_def Let_def task_ok_def)
next
  case False
  then show ?thesis using assms remove_task_inv(2) [OF assms] by (auto simp: pane_retry_def Let_def)
qed

subsection \<open>The cache\<close>

interpretation dash_lru: lru_store MAX_CACHED_REPEATERS "lru_put MAX_CACHED_REPEATERS"
    "jm_get :: (string, dashboard_entry) jsmap \<Rightarrow> _" jm_keys
  by (rule lru_put_is_lru) (simp add: MAX_CACHED_REPEATERS_def)

lemma touch_is_put:
  assumes "length c \<le> cap" and "jm_get c k = Some v"
  shows "jm_set k v (jm_delete k c) = lru_put cap k v c"
proof -
  have "k \<in> set (jm_keys c)" using assms(2) by (force simp: jm_get_def jm_keys_def dest: map_of_SomeD)
  then have "length (filter (\<lambda>k'. k' \<noteq> k) (jm_keys c)) < length (jm_keys c)" by (rule length_filter_less) simp
  then have "length (jm_keys (jm_set k v (jm_delete k c))) \<le> cap" using assms(1) by (simp add: jm.keys_touch)
  then show ?thesis by (simp add: lru_put_def evict_oldest_id)
qed

lemma put_inv:
  assumes "cache_inv c" and "\<And>pane. \<not> ps_loading (de_paneStates e pane)"
  shows "cache_inv (lru_put MAX_CACHED_REPEATERS k e c)" and "jm_get (lru_put MAX_CACHED_REPEATERS k e c) k = Some e"
proof -
  have d: "distinct (jm_keys c)" "length (jm_keys c) \<le> MAX_CACHED_REPEATERS" using assms(1) by (simp_all add: cache_inv_def jm_wf_def)
  show "cache_inv (lru_put MAX_CACHED_REPEATERS k e c)"
    using dash_lru.lru_distinct [OF d(1)] dash_lru.lru_bounded [OF d] assms
    by (auto simp: cache_inv_def jm_wf_def lru_put_def intro!: js_inv)
  show "jm_get (lru_put MAX_CACHED_REPEATERS k e c) k = Some e" by (rule dash_lru.lru_get_self [OF d(1)])
qed

lemma normal_not_loading [simp]: "\<not> ps_loading (de_paneStates (normal_entry e) pane)"
  by (simp add: normal_entry_def normalizePaneStates_def)

lemma normal_same:
  "(\<And>pane. \<not> ps_loading (de_paneStates e pane)) \<Longrightarrow> normal_entry e = e"
proof -
  assume "\<And>pane. \<not> ps_loading (de_paneStates e pane)"
  then have "normalizePaneStates (de_paneStates e) = de_paneStates e"
    by (auto simp: normalizePaneStates_def fun_eq_iff intro!: pane_state.equality)
  then show ?thesis by (simp add: normal_entry_def)
qed

lemma normal_normal [simp]: "normal_entry (normal_entry e) = normal_entry e"
  by (rule normal_same) simp

lemma cacheState_cache: "db_cache (cacheState k e now s) = lru_put MAX_CACHED_REPEATERS k (normal_entry e) (db_cache s)"
  by (simp add: cacheState_def Let_def lru_put_def normal_entry_def)

text \<open>Reading the cache: it keeps what it holds, and what comes out shows nothing as loading.\<close>

lemma getCachedState_eqs:
  "or_null k = None \<Longrightarrow> getCachedState k now s = (s, None)"
  "or_null k = Some key \<Longrightarrow> jm_get (db_cache s) key = Some e \<Longrightarrow>
     getCachedState k now s = (s\<lparr>db_cache := jm_set key e (jm_delete key (db_cache s))\<rparr>, Some (normal_entry e))"
  "or_null k = Some key \<Longrightarrow> jm_get (db_cache s) key = None \<Longrightarrow>
     getCachedState k now s =
       (s\<lparr>db_storage := fst (loadPersistedDashboard (Some key) now (db_storage s))\<rparr>,
        map_option (\<lambda>(l, d, p). normal_entry \<lparr>de_loggedIn = l, de_loginError = None, de_lastLoginAttempt = None, de_paneData = d,
          de_paneStates = p,
          de_consoleHistory = loadStoredConsoleHistory key (fst (loadPersistedDashboard (Some key) now (db_storage s)))\<rparr>)
          (snd (loadPersistedDashboard (Some key) now (db_storage s))))"
  by (simp_all add: getCachedState_def normal_entry_def split: option.split prod.split)

lemma getCachedState_cases:
  fixes s :: dash
  assumes "cache_inv (db_cache s)"
  obtains (absent) "or_null k = None" "getCachedState k now s = (s, None)"
  | (hit) key e c where "or_null k = Some key" "jm_get (db_cache s) key = Some e" "cache_inv c"
      "\<And>k'. jm_get c k' = jm_get (db_cache s) k'" "getCachedState k now s = (s\<lparr>db_cache := c\<rparr>, Some e)"
      "\<And>pane. \<not> ps_loading (de_paneStates e pane)"
  | (miss) key st found where "or_null k = Some key" "jm_get (db_cache s) key = None"
      "getCachedState k now s = (s\<lparr>db_storage := st\<rparr>, map_option normal_entry found)"
proof (cases "or_null k")
  case None
  from absent [OF this getCachedState_eqs(1) [OF this]] show thesis .
next
  case (Some key)
  show thesis
  proof (cases "jm_get (db_cache s) key")
    case None
    have eq: "map_option (\<lambda>(l, d, p). normal_entry (f l d p)) x = map_option normal_entry (map_option (\<lambda>(l, d, p). f l d p) x)" for f x
      by (cases x) auto
    show ?thesis using getCachedState_eqs(3) [OF Some None, of now] unfolding eq by (rule miss [OF Some None])
  next
    case hit_e: (Some e)
    have l: "\<not> ps_loading (de_paneStates e pane)" for pane
      using assms hit_e by (auto simp: cache_inv_def dest: jm_all_get)
    let ?c = "jm_set key e (jm_delete key (db_cache s))"
    have "?c = lru_put MAX_CACHED_REPEATERS key e (db_cache s)"
      using assms hit_e by (intro touch_is_put) (simp_all add: cache_inv_def)
    then have "cache_inv ?c" using put_inv(1) [OF assms l] by simp
    moreover have "jm_get ?c k' = jm_get (db_cache s) k'" for k' using hit_e by (simp add: jm.get_touch)
    ultimately show ?thesis using hit [OF Some hit_e] getCachedState_eqs(2) [OF Some hit_e, of now] normal_same [OF l] l by simp
  qed
qed

subsection \<open>The hook\<close>

lemma hook_cong:
  assumes "hook_inv s" and "same_hook s s'" and "db_mounted s \<Longrightarrow> db_paneDataRef s' = db_paneData s'"
    and "db_dirty s' \<or> \<not> db_dirty s \<and> cache_entry s' = cache_entry s"
  shows "hook_inv s'"
  using assms by (auto simp: hook_inv_def same_hook_def)

lemma save_fields:
  "db_mounted (save_effect now s) = db_mounted s" "db_instance (save_effect now s) = db_instance s"
  "db_conversation (save_effect now s) = db_conversation s" "cache_entry (save_effect now s) = cache_entry s"
  "db_tasks (save_effect now s) = db_tasks s" "db_logins (save_effect now s) = db_logins s"
  "db_commands (save_effect now s) = db_commands s" "db_loginLoading (save_effect now s) = db_loginLoading s"
  "db_consoleLoading (save_effect now s) = db_consoleLoading s" "db_paneDataRef (save_effect now s) = db_paneDataRef s"
  "db_paneStatesRef (save_effect now s) = db_paneStatesRef s" "db_loadAllProgress (save_effect now s) = db_loadAllProgress s"
  "db_queuedPanes (save_effect now s) = db_queuedPanes s" "db_hydrating (save_effect now s) = db_hydrating s"
  "\<not> db_dirty (save_effect now s)"
  "db_cache (save_effect now s) =
     (case db_conversation s of None \<Rightarrow> db_cache s
      | Some key \<Rightarrow> lru_put MAX_CACHED_REPEATERS key (normal_entry (cache_entry s)) (db_cache s))"
  by (simp_all add: save_effect_def cacheState_cache Let_def split: option.split,
      simp_all add: cacheState_def cache_entry_def Let_def)

lemma cache_entry_fields:
  "cache_entry s' = cache_entry s \<longleftrightarrow>
     db_loggedIn s' = db_loggedIn s \<and> db_loginError s' = db_loginError s \<and> db_lastLoginAttempt s' = db_lastLoginAttempt s \<and>
     db_paneData s' = db_paneData s \<and> db_paneStates s' = db_paneStates s \<and> db_consoleHistory s' = db_consoleHistory s"
  by (simp add: cache_entry_def)

lemma save_panes:
  "db_paneData (save_effect now s) = db_paneData s" "db_paneStates (save_effect now s) = db_paneStates s"
  using save_fields(4) [of now s] unfolding cache_entry_fields by simp_all

lemma save_panes_inv: "panes_inv X b s \<Longrightarrow> panes_inv X b (save_effect now s)"
  by (rule panes_inv_cong [of "save_effect now s" s]) (simp_all add: save_fields save_panes)

lemma save_hook:
  assumes "cache_inv (db_cache s)" and "db_conversation s \<noteq> Some []" and "db_hydrating s \<longrightarrow> db_mounted s"
    and "list_all (\<lambda>l. lt_instance l \<le> db_instance s) (db_logins s)"
    and "list_all (\<lambda>c. ct_instance c \<le> db_instance s) (db_commands s)"
    and "db_paneDataRef s = db_paneData s"
    and "db_loginLoading s \<longrightarrow> list_ex (\<lambda>l. lt_instance l = db_instance s) (db_logins s)"
    and "db_consoleLoading s \<longrightarrow> list_ex (\<lambda>c. ct_instance c = db_instance s) (db_commands s)"
  shows "hook_inv (save_effect now s)"
proof -
  have "cache_inv (db_cache (save_effect now s))"
    using assms(1) put_inv(1) [OF assms(1)] by (simp add: save_fields split: option.split)
  moreover have "jm_get (db_cache (save_effect now s)) key = Some (normal_entry (cache_entry s))"
    if "db_conversation s = Some key" for key
    using that put_inv(2) [OF assms(1)] by (simp add: save_fields)
  ultimately show ?thesis using assms by (auto simp: hook_inv_def save_fields save_panes)
qed

lemma initial_state_facts:
  assumes "cache_inv (db_cache s)"
  shows "cache_inv (db_cache (initial_state k now s))"
    and "db_paneDataRef (initial_state k now s) = db_paneData (initial_state k now s)"
    and "db_paneStatesRef (initial_state k now s) = db_paneStates (initial_state k now s)"
    and "\<not> ps_loading (db_paneStates (initial_state k now s) pane)"
    and "db_tasks (initial_state k now s) = db_tasks s" "db_logins (initial_state k now s) = db_logins s"
    and "db_commands (initial_state k now s) = db_commands s"
  by (rule getCachedState_cases [OF assms, of k now];
      auto simp: initial_state_def assms createInitialPaneStates_def INITIAL_PANE_STATE_def Let_def split: option.split prod.split)+

lemma mount_inv:
  assumes "dash_inv s"
  shows "dash_inv (dash_mount conv now s)"
proof -
  define k where "k = or_null (case conv of Some c \<Rightarrow> if conv_type c = ConvContact then Some (conv_id c) else None | None \<Rightarrow> None)"
  define m where "m = (initial_state k now s)
    \<lparr>db_mounted := True, db_instance := db_instance s + 1, db_conversation := k, db_hydrating := (k \<noteq> None),
     db_loginLoading := False, db_consoleLoading := False, db_queuedPanes := [], db_loadAllProgress := None, db_cancelLoadAll := False\<rparr>"
  have c: "cache_inv (db_cache s)" using assms by (simp add: dash_inv_def hook_inv_def)
  note facts = initial_state_facts [OF c, of k now]
  have mount: "dash_mount conv now s = save_effect now m" by (simp add: dash_mount_def m_def k_def Let_def)
  have "k \<noteq> Some []" by (auto simp: k_def or_null_def split: option.splits)
  then have "hook_inv (save_effect now m)"
    using facts assms by (intro save_hook) (auto simp: m_def dash_inv_def hook_inv_def list_all_iff)
  moreover have "panes_inv {} False (save_effect now m)"
  proof -
    have "panes_inv {} False m" using facts assms by (auto simp: m_def panes_inv_def dash_inv_def task_ok_def list_all_iff)
    then show ?thesis by (rule save_panes_inv)
  qed
  ultimately show ?thesis unfolding mount dash_inv_def by blast
qed

lemma commit_inv:
  assumes "dash_inv s"
  shows "dash_inv (dash_commit now s)"
proof (cases "db_mounted s")
  case True
  define s1 where "s1 = fst (getCachedState (db_conversation s) now s)"
  define s2 where "s2 = (if db_dirty s1 then save_effect now s1 else s1)"
  have c: "cache_inv (db_cache s)" using assms by (simp add: dash_inv_def hook_inv_def)
  obtain ca st where s1: "s1 = s\<lparr>db_cache := ca, db_storage := st\<rparr>" and ca: "cache_inv ca" "\<And>k. jm_get ca k = jm_get (db_cache s) k"
    using c
  proof (cases rule: getCachedState_cases [where k = "db_conversation s" and now = now])
    case absent
    then show ?thesis using that [where ca = "db_cache s" and st = "db_storage s"] c by (simp add: s1_def)
  next
    case (hit key e ca')
    then show ?thesis using that [where ca = ca' and st = "db_storage s"] by (simp add: s1_def)
  next
    case (miss key st' found)
    then show ?thesis using that [where ca = "db_cache s" and st = st'] c by (simp add: s1_def)
  qed
  have h1: "hook_inv s1" and p1: "panes_inv {} False s1"
    using assms ca by (auto simp: s1 dash_inv_def hook_inv_def cache_entry_def intro: panes_inv_cong [rotated -1])
  have m1: "db_mounted s1" using True by (simp add: s1)
  have h2: "hook_inv s2" and p2: "panes_inv {} False s2"
  proof -
    have "hook_inv (save_effect now s1)" using h1 m1 by (intro save_hook) (simp_all add: hook_inv_def)
    moreover have "panes_inv {} False (save_effect now s1)" using p1 by (rule save_panes_inv)
    ultimately show "hook_inv s2" "panes_inv {} False s2" using h1 p1 by (simp_all add: s2_def)
  qed
  have m2: "db_mounted s2" using m1 by (simp add: s2_def save_fields)
  have "s2\<lparr>db_paneDataRef := db_paneData s2, db_paneStatesRef := db_paneStates s2\<rparr> = s2"
    using h2 p2 m2 by (simp add: hook_inv_def panes_inv_def)
  then have "dash_commit now s = s2"
    using True unfolding dash_commit_def Let_def s1_def [symmetric] s2_def [symmetric] by simp
  then show ?thesis using h2 p2 by (simp add: dash_inv_def)
qed (simp add: dash_commit_def assms)

lemma unmount_inv: "dash_inv s \<Longrightarrow> dash_inv (dash_unmount s)"
  by (simp add: dash_inv_def dash_unmount_def panes_inv_def hook_inv_def task_ok_def list_all_iff)

lemma init_inv: "dash_inv (dash_init st)"
  by (simp add: dash_init_def dash_inv_def panes_inv_def hook_inv_def cache_inv_def jm_wf_def jm_keys_def)

text \<open>Hydrating fills empty panes only, and no pane becomes loading by it.\<close>

lemma hydrate_fold:
  assumes "fold hydrate_pane cached (d, ps, ch) = (d', ps', ch')"
  shows "(d p \<noteq> None \<longrightarrow> d' p = d p \<and> ps' p = ps p) \<and> (ps_loading (ps' p) \<longrightarrow> ps_loading (ps p)) \<and> (ch \<longrightarrow> ch')"
  using assms
proof (induction cached arbitrary: d ps ch)
  case (Cons x cached)
  obtain n v f where x: "x = (n, v, f)" by (cases x)
  obtain d1 ps1 ch1 where one: "hydrate_pane x (d, ps, ch) = (d1, ps1, ch1)" by (cases "hydrate_pane x (d, ps, ch)")
  have "(d p \<noteq> None \<longrightarrow> d1 p = d p \<and> ps1 p = ps p) \<and> (ps_loading (ps1 p) \<longrightarrow> ps_loading (ps p)) \<and> (ch \<longrightarrow> ch1)"
    using one by (auto simp: x split: option.splits if_splits)
  then show ?case using Cons.IH [of d1 ps1 ch1] Cons.prems one by auto
qed simp

lemma hydrated_panes:
  assumes "panes_inv X b s" and "\<And>p. ps_loading (ps p) \<Longrightarrow> ps_loading (db_paneStatesRef s p)"
  shows "panes_inv X b (s\<lparr>db_hydrating := False, db_paneDataRef := d', db_paneStatesRef := ps, db_paneData := d, db_paneStates := ps, db_dirty := True\<rparr>)"
proof -
  have "task_ok (s\<lparr>db_hydrating := False, db_paneDataRef := d', db_paneStatesRef := ps, db_paneData := d, db_paneStates := ps,
      db_dirty := True\<rparr>) = task_ok s" by (simp add: task_ok_def fun_eq_iff)
  then show ?thesis using assms by (auto simp: panes_inv_def pane_running_def load_all_running_def alive_def)
qed

lemma hydrate_inv:
  assumes "dash_inv s"
  shows "dash_inv (hydrate answer s)"
proof -
  obtain d ps ch where f: "fold hydrate_pane (the answer) (db_paneDataRef s, db_paneStatesRef s, False) = (d, ps, ch)"
    by (cases "fold hydrate_pane (the answer) (db_paneDataRef s, db_paneStatesRef s, False)")
  have l: "ps_loading (ps p) \<Longrightarrow> ps_loading (db_paneStatesRef s p)" for p using hydrate_fold [OF f] by blast
  let ?s = "s\<lparr>db_hydrating := False, db_paneDataRef := d, db_paneStatesRef := ps, db_paneData := d, db_paneStates := ps, db_dirty := True\<rparr>"
  have "hook_inv ?s" using assms by (simp add: dash_inv_def hook_inv_def)
  then have filled: "dash_inv ?s" using hydrated_panes [OF _ l] assms by (simp add: dash_inv_def)
  have rest: "dash_inv (s\<lparr>db_hydrating := False\<rparr>)"
    using assms by (auto simp: dash_inv_def hook_inv_def cache_entry_def intro: panes_inv_cong [rotated -1])
  show ?thesis
    using assms filled rest f by (cases answer) (simp_all add: hydrate_def Let_def setPaneStates_def setPaneData_def)
qed

lemma pane_hook:
  assumes "hook_inv s" and "same_hook s s'" and "same_data s s'" and "db_dirty s'"
  shows "hook_inv s'"
  using hook_cong [OF assms(1, 2)] assms by (auto simp: same_data_def hook_inv_def)

lemma loaded_same: "same_hook s (pane_loaded t d now s)" "db_dirty (pane_loaded t d now s)"
  by (simp_all add: pane_loaded_def pane_defs same_hook_def)

lemma failed_same: "same_hook s (pane_failed tr t err s)" "same_data s (pane_failed tr t err s)" "db_dirty (pane_failed tr t err s)"
  by (simp_all add: pane_failed_def toast_error_def pane_defs same_hook_def same_data_def)

lemma tasks_hook: "hook_inv (s\<lparr>db_tasks := ts\<rparr>) = hook_inv s"
  by (simp add: hook_inv_def cache_entry_def)

lemma loaded_hook: "hook_inv s \<Longrightarrow> hook_inv (pane_loaded t d now s)"
  by (rule hook_cong [OF _ loaded_same(1)]) (auto simp: loaded_same hook_inv_def pane_loaded_def pane_defs)

lemma failed_hook: "hook_inv s \<Longrightarrow> hook_inv (pane_failed tr t err s)"
  by (rule pane_hook [OF _ failed_same])

lemma continue_hook: "hook_inv s \<Longrightarrow> db_dirty s \<Longrightarrow> hook_inv (continue_with k c s)"
  by (rule pane_hook [OF _ continue_same])

lemma answer_hook:
  assumes "hook_inv s"
  shows "hook_inv (pane_answer tr n answer now s)"
proof -
  let ?s = "s\<lparr>db_tasks := drop_nth n (db_tasks s)\<rparr>"
  have s1: "hook_inv ?s" using assms by (simp add: tasks_hook)
  have "hook_inv (continue_with k c (pane_loaded t d now ?s))" "hook_inv (continue_with k c (pane_failed tr t err ?s))" for k c t d err
    using continue_hook loaded_hook [OF s1] failed_hook [OF s1] loaded_same(2) failed_same(3) by blast+
  then show ?thesis using assms s1
    by (auto simp: pane_answer_def Let_def tasks_hook split: sum.split)
qed

lemma retry_hook: "hook_inv s \<Longrightarrow> hook_inv (pane_retry n s)"
  using pane_hook [OF _ start_same] by (auto simp: pane_retry_def Let_def tasks_hook)

lemma other_tasks:
  assumes "n < length xs" and "list_ex P xs" and "\<not> P (xs ! n)"
  shows "list_ex P (drop_nth n xs)"
  using assms in_drop_nth [OF assms(1)] by (fastforce simp: list_ex_iff)

lemma login_inv: "dash_inv s \<Longrightarrow> dash_inv (login password s)"
  by (auto simp: login_def Let_def setLoginError_def dash_inv_def hook_inv_def cache_entry_def list_ex_iff
      intro: panes_inv_cong [rotated -1] split: option.split)

lemma resetLogin_inv: "dash_inv s \<Longrightarrow> dash_inv (resetLogin s)"
  by (auto simp: resetLogin_def Let_def setLoginError_def setLoggedIn_def setLastLoginAttempt_def dash_inv_def hook_inv_def
      cache_entry_def intro: panes_inv_cong [rotated -1])

lemma command_inv: "dash_inv s \<Longrightarrow> dash_inv (sendConsoleCommand command now s)"
  by (auto simp: sendConsoleCommand_def Let_def setConsoleHistory_def dash_inv_def hook_inv_def cache_entry_def list_ex_iff
      intro: panes_inv_cong [rotated -1] split: option.split)

lemmas setter_defs = setLoginError_def setLoggedIn_def setLastLoginAttempt_def setConsoleHistory_def toast_error_def

lemma current_fields [simp]:
  "db_mounted (if_current i (setLoggedIn v) s) = db_mounted s" "db_instance (if_current i (setLoggedIn v) s) = db_instance s"
  "db_mounted (if_current i (setLoginError e) s) = db_mounted s" "db_instance (if_current i (setLoginError e) s) = db_instance s"
  "db_mounted (if_current i (setLastLoginAttempt a) s) = db_mounted s"
  "db_instance (if_current i (setLastLoginAttempt a) s) = db_instance s"
  by (simp_all add: if_current_def setter_defs)

text \<open>A change of the login state keeps the invariant of everything else.\<close>

lemma current_setters_inv:
  assumes "dash_inv s"
  shows "dash_inv (if_current i (setLoggedIn v) s)" and "dash_inv (if_current i (setLoginError e) s)"
    and "dash_inv (if_current i (setLastLoginAttempt a) s)" and "dash_inv (toast_error x y s)" and "dash_inv (s\<lparr>db_storage := st\<rparr>)"
  using assms
  by (auto simp: if_current_def setter_defs dash_inv_def hook_inv_def cache_entry_def intro: panes_inv_cong [rotated -1])

lemma login_idle_inv:
  assumes "dash_inv s"
  shows "dash_inv (if_current i (\<lambda>s'. s'\<lparr>db_loginLoading := False\<rparr>) s)"
  using assms by (auto simp: if_current_def dash_inv_def hook_inv_def cache_entry_def intro: panes_inv_cong [rotated -1])

lemma logins_inv:
  assumes "dash_inv s" and "n < length (db_logins s)"
    and "\<not> (db_mounted s \<and> lt_instance (db_logins s ! n) = db_instance s) \<or> \<not> db_loginLoading s"
  shows "dash_inv (s\<lparr>db_logins := drop_nth n (db_logins s)\<rparr>)"
proof -
  have "list_all (\<lambda>l. lt_instance l \<le> db_instance s) (drop_nth n (db_logins s))"
    using assms(1) set_drop_nth [of n "db_logins s"] by (auto simp: dash_inv_def hook_inv_def list_all_iff)
  then show ?thesis
    using assms other_tasks [OF assms(2), of "\<lambda>l. lt_instance l = db_instance s"]
    by (auto simp: dash_inv_def hook_inv_def cache_entry_def intro: panes_inv_cong [rotated -1])
qed

lemma idle_login:
  assumes "dash_inv s" and "db_logins s = ls" and "n < length ls" and "i = lt_instance (ls ! n)"
  shows "dash_inv ((if_current i (\<lambda>s'. s'\<lparr>db_loginLoading := False\<rparr>) s)\<lparr>db_logins := drop_nth n ls\<rparr>)"
proof -
  let ?s = "if_current i (\<lambda>s'. s'\<lparr>db_loginLoading := False\<rparr>) s"
  have "db_logins ?s = ls" using assms(2) by (simp add: if_current_def)
  then show ?thesis using logins_inv [OF login_idle_inv [OF assms(1)], of n i] assms(3, 4) by (simp add: if_current_def)
qed

lemma login_answer_inv:
  assumes "dash_inv s"
  shows "dash_inv (login_answer tr n answer now s)"
proof (cases "n < length (db_logins s)")
  case True
  have same: "db_logins (if_current i (setLoggedIn v) s') = db_logins s'" "db_logins (if_current i (setLoginError e) s') = db_logins s'"
    "db_logins (if_current i (setLastLoginAttempt a) s') = db_logins s'" "db_logins (toast_error x y s') = db_logins s'" for i v e a x y s'
    by (simp_all add: if_current_def setter_defs)
  show ?thesis using True assms
    by (cases answer) (auto simp: login_answer_def Let_def same intro!: idle_login current_setters_inv)
qed (simp add: login_answer_def assms)

lemma command_answer_inv:
  assumes "dash_inv s"
  shows "dash_inv (command_answer tr n answer s)"
proof (cases "n < length (db_commands s)")
  case True
  have sub: "list_all (\<lambda>c. ct_instance c \<le> db_instance s) (drop_nth n (db_commands s))"
    using assms set_drop_nth [of n "db_commands s"] by (auto simp: dash_inv_def hook_inv_def list_all_iff)
  show ?thesis
    using True assms sub other_tasks [OF True, of "\<lambda>c. ct_instance c = db_instance s"]
    by (auto simp: command_answer_def if_current_def Let_def setter_defs dash_inv_def hook_inv_def cache_entry_def
        intro: panes_inv_cong [rotated -1] split: prod.split)
qed (simp add: command_answer_def assms)

lemma refresh_action_inv: "dash_inv s \<Longrightarrow> dash_inv (refreshPane loc p KEnd k s)"
  using refresh_inv [of False s KEnd] pane_hook [OF _ refresh_same] by (simp add: dash_inv_def)

lemma load_all_action_inv:
  assumes "dash_inv s"
  shows "dash_inv (loadAll loc s)"
proof -
  let ?q = "s\<lparr>db_cancelLoadAll := False, db_queuedPanes := LOAD_ALL_PANES\<rparr>"
  let ?s = "load_all_progress 0 (markQueued LOAD_ALL_PANES ?q)"
  have "panes_inv {} True ?q"
    using assms by (auto simp: dash_inv_def panes_inv_def task_ok_def pane_running_def alive_def list_all_iff list_ex_iff)
  then have p: "panes_inv {} True ?s" by (intro load_all_progress_inv markQueued_inv)
  have "same_hook s ?s" "same_data s ?s" "db_dirty ?s" by (simp_all add: pane_defs same_hook_def same_data_def)
  then have "hook_inv ?s" using pane_hook assms by (auto simp: dash_inv_def)
  then show ?thesis
    using load_all_inv [OF p] pane_hook load_all_same by (auto simp: loadAll_def dash_inv_def)
qed

lemma action_inv: "dash_inv s \<Longrightarrow> dash_inv (dash_action_step a s)"
proof (cases a)
  case ACancelLoadAll
  then show "dash_inv s \<Longrightarrow> ?thesis"
    by (auto simp: cancelLoadAll_def dash_inv_def hook_inv_def cache_entry_def intro: panes_inv_cong [rotated -1])
qed (simp_all add: login_inv loginAsGuest_def resetLogin_inv command_inv sendZeroHopAdvert_def sendFloodAdvert_def
      rebootRepeater_def syncClock_def load_all_action_inv refresh_action_inv split: option.split)

interpretation dash_machine: event_machine "dash_step tr" dash_inv "\<lambda>e. True" for tr
proof unfold_locales
  fix s e assume s: "dash_inv s"
  show "dash_inv (dash_step tr e s)"
  proof (cases e)
    case (DStorage a f)
    then show ?thesis using s
      by (auto simp: dash_inv_def hook_inv_def cache_entry_def intro: panes_inv_cong [rotated -1])
  next
    case (DAnswer n answer now)
    then show ?thesis using s answer_inv answer_hook by (simp add: dash_inv_def)
  next
    case (DRetry n)
    then show ?thesis using s retry_inv retry_hook by (simp add: dash_inv_def)
  qed (simp_all add: s mount_inv unmount_inv init_inv commit_inv hydrate_inv action_inv login_answer_inv command_answer_inv)
qed

lemma reachable_dash: "dash_inv (fold (dash_step tr) es (dash_init st))"
  using init_inv by (rule dash_machine.run_inv) (simp add: list_all_iff)

section \<open>How long a run takes\<close>

definition pane_runs :: "bool \<Rightarrow> pane_name \<Rightarrow> nat" where
  "pane_runs hasAdvertLocation pane = (if pane = PNeighbors \<and> \<not> hasAdvertLocation then 2 else 1)"

definition runs_from :: "nat \<Rightarrow> bool \<Rightarrow> nat" where
  "runs_from i loc = sum_list (map (pane_runs loc) (drop i LOAD_ALL_PANES))"

text \<open>The most runs of attempts that can still follow.\<close>

fun runs_left :: "continuation \<Rightarrow> nat" where
  "runs_left KEnd = 0"
| "runs_left (KPane pane cont) = 1 + runs_left cont"
| "runs_left (KAll i loc) = runs_from (i + 1) loc"

lemma runs_from_nth: "i < length LOAD_ALL_PANES \<Longrightarrow> runs_from i loc = pane_runs loc (LOAD_ALL_PANES ! i) + runs_from (i + 1) loc"
  by (simp add: runs_from_def Cons_nth_drop_Suc [symmetric])

text \<open>A quantity to which a run of attempts adds \<open>q\<close>, in advance, for itself and each run after it.\<close>

locale run_budget =
  fixes mu :: "dash \<Rightarrow> nat" and q :: nat
  assumes start: "mu (start_attempt k p (Suc 0) c s) = mu s + q * (runs_left c + 1)"
    and same: "db_tasks s' = db_tasks s \<Longrightarrow> db_calls s' = db_calls s \<Longrightarrow> mu s' = mu s"
begin

lemma refresh_budget: "mu (refreshPane loc p c k s) \<le> mu s + q * (pane_runs loc p + runs_left c)"
  using start by (auto simp: refreshPane_def pane_runs_def algebra_simps)

lemma next_same: "mu (load_all_progress i s) = mu s" "mu (load_all_next i s) = mu s" "mu (load_all_end s) = mu s"
  by (rule same; simp add: load_all_next_def pane_defs)+

lemma load_all_budget: "mu (load_all_from loc i s) \<le> mu s + q * runs_from i loc"
proof (rule load_all_rule [where P = "\<lambda>l j s'. l = loc \<and> mu s' + q * runs_from j loc \<le> mu s + q * runs_from i loc"])
  fix l j s' k
  assume inv: "l = loc \<and> mu s' + q * runs_from j loc \<le> mu s + q * runs_from i loc" and j: "j < length LOAD_ALL_PANES"
  have "mu (refreshPane l (LOAD_ALL_PANES ! j) (KAll j l) k (load_all_next j s')) \<le> mu s' + q * runs_from j loc"
    using refresh_budget [of l "LOAD_ALL_PANES ! j" "KAll j l" k "load_all_next j s'"] inv
    by (simp add: runs_from_nth [OF j] next_same)
  then show "mu (refreshPane l (LOAD_ALL_PANES ! j) (KAll j l) k (load_all_next j s')) \<le> mu s + q * runs_from i loc"
    using inv by simp
next
  fix l j s'
  assume inv: "l = loc \<and> mu s' + q * runs_from j loc \<le> mu s + q * runs_from i loc" and j: "j < length LOAD_ALL_PANES"
  then show "l = loc \<and> mu (load_all_progress (j + 1) (load_all_next j s')) + q * runs_from (j + 1) loc \<le> mu s + q * runs_from i loc"
    by (simp add: runs_from_nth [OF j] next_same algebra_simps)
qed (auto simp: next_same)

lemma continue_budget: "mu (continue_with k c s) \<le> mu s + q * runs_left c"
proof (cases c)
  case (KAll i loc)
  then show ?thesis using load_all_budget [of loc "i + 1" "load_all_progress (i + 1) s"] by (simp add: next_same)
qed (simp_all add: start algebra_simps)

end

text \<open>Answers and delays still to come, and requests made and still to be made.\<close>

definition task_rank :: "pane_task \<Rightarrow> nat" where
  "task_rank t = 5 * runs_left (tk_cont t) + 2 * (MAX_RETRIES - tk_attempt t) + (if tk_phase t = Fetching then 1 else 0)"

definition dash_rank :: "dash \<Rightarrow> nat" where
  "dash_rank s = sum_list (map task_rank (db_tasks s))"

definition task_calls :: "pane_task \<Rightarrow> nat" where
  "task_calls t = 3 * runs_left (tk_cont t) + (MAX_RETRIES - tk_attempt t)"

definition call_budget :: "dash \<Rightarrow> nat" where
  "call_budget s = length (db_calls s) + sum_list (map task_calls (db_tasks s))"

interpretation rank: run_budget dash_rank 5
  by unfold_locales (simp_all add: dash_rank_def task_rank_def pane_defs MAX_RETRIES_def)

interpretation calls: run_budget call_budget 3
  by unfold_locales (simp_all add: call_budget_def task_calls_def pane_defs MAX_RETRIES_def)

lemma sum_drop_nth: "n < length xs \<Longrightarrow> sum_list (map f xs) = sum_list (map f (drop_nth n xs)) + (f (xs ! n) :: nat)"
  using arg_cong [OF id_take_nth_drop, of n xs "\<lambda>ys. sum_list (map f ys)"] by (simp add: drop_nth_def)

text \<open>The inputs that let a task go on.\<close>

fun resumes :: "dash \<Rightarrow> dash_input \<Rightarrow> bool" where
  "resumes s (DAnswer n answer now) = (n < length (db_tasks s) \<and> tk_phase (db_tasks s ! n) = Fetching)"
| "resumes s (DRetry n) = (n < length (db_tasks s) \<and> tk_phase (db_tasks s ! n) = Waiting)"
| "resumes s e = False"

lemma loaded_tasks [simp]: "db_tasks (pane_loaded t d now s) = db_tasks s" "db_calls (pane_loaded t d now s) = db_calls s"
  "db_tasks (pane_failed tr t err s) = db_tasks s" "db_calls (pane_failed tr t err s) = db_calls s"
  by (simp_all add: pane_loaded_def pane_failed_def toast_error_def pane_defs)

lemma resume_budget:
  assumes "panes_inv {} False s" and "resumes s e"
  shows "dash_rank (dash_step tr e s) < dash_rank s \<and> call_budget (dash_step tr e s) \<le> call_budget s"
proof -
  obtain n where n: "n < length (db_tasks s)" and e: "(\<exists>a now. e = DAnswer n a now) \<and> tk_phase (db_tasks s ! n) = Fetching \<or>
      e = DRetry n \<and> tk_phase (db_tasks s ! n) = Waiting"
    using assms(2) by (cases e) auto
  let ?t = "db_tasks s ! n" and ?s = "s\<lparr>db_tasks := drop_nth n (db_tasks s)\<rparr>"
  have ok: "task_ok s ?t" using task_nth_ok [OF assms(1) n] .
  have r: "dash_rank s = dash_rank ?s + task_rank ?t" and c: "call_budget s = call_budget ?s + task_calls ?t"
    using sum_drop_nth [OF n] by (simp_all add: dash_rank_def call_budget_def)
  show ?thesis using e
  proof (elim disjE conjE exE)
    fix a now assume e: "e = DAnswer n a now" and ph: "tk_phase ?t = Fetching"
    have t: "1 \<le> task_rank ?t" "5 * runs_left (tk_cont ?t) < task_rank ?t" "3 * runs_left (tk_cont ?t) \<le> task_calls ?t"
      using ph by (simp_all add: task_rank_def task_calls_def)
    have go: "dash_rank (continue_with (tk_key ?t) (tk_cont ?t) s') < dash_rank s"
      "call_budget (continue_with (tk_key ?t) (tk_cont ?t) s') \<le> call_budget s"
      if "db_tasks s' = db_tasks ?s" "db_calls s' = db_calls ?s" for s'
      using rank.continue_budget [of "tk_key ?t" "tk_cont ?t" s'] calls.continue_budget [of "tk_key ?t" "tk_cont ?t" s']
        rank.same [OF that] calls.same [OF that] r c t by linarith+
    have wait: "dash_rank (?s\<lparr>db_tasks := db_tasks ?s @ [?t\<lparr>tk_phase := Waiting\<rparr>]\<rparr>) < dash_rank s"
      "call_budget (?s\<lparr>db_tasks := db_tasks ?s @ [?t\<lparr>tk_phase := Waiting\<rparr>]\<rparr>) = call_budget s"
      using r c ph by (simp_all add: dash_rank_def call_budget_def task_rank_def task_calls_def)
    have gone: "dash_rank ?s < dash_rank s" "call_budget ?s \<le> call_budget s" using r c t by linarith+
    show ?thesis using go wait gone n ph e by (auto simp: pane_answer_def Let_def split: sum.split)
  next
    assume e: "e = DRetry n" and ph: "tk_phase ?t = Waiting"
    have less: "tk_attempt ?t < MAX_RETRIES" using ok ph by (simp add: task_ok_def)
    let ?s' = "start_attempt (tk_key ?t) (tk_pane ?t) (tk_attempt ?t + 1) (tk_cont ?t) ?s"
    have "dash_rank ?s' < dash_rank s" "call_budget ?s' = call_budget s"
      using r c ph less by (simp_all add: dash_rank_def call_budget_def task_rank_def task_calls_def pane_defs)
    moreover have "dash_rank ?s < dash_rank s" "call_budget ?s \<le> call_budget s"
      using r c ph less by (simp_all add: task_rank_def)
    ultimately show ?thesis using n ph e by (simp add: pane_retry_def Let_def)
  qed
qed

lemma drain:
  assumes "dash_inv s" and "admissible resumes (dash_step tr) s es"
  shows "length es + dash_rank (fold (dash_step tr) es s) \<le> dash_rank s \<and>
    call_budget (fold (dash_step tr) es s) \<le> call_budget s"
  using assms
proof (induction es arbitrary: s)
  case (Cons e es)
  then have one: "dash_rank (dash_step tr e s) < dash_rank s \<and> call_budget (dash_step tr e s) \<le> call_budget s"
    by (intro resume_budget) (simp_all add: dash_inv_def)
  have "dash_inv (dash_step tr e s)" using dash_machine.step_inv Cons.prems(1) by simp
  from Cons.IH [OF this, of] Cons.prems(2) one show ?case by (simp add: Suc_le_eq)
qed simp

section \<open>Properties\<close>

text \<open>
  C25: Nothing shows as busy for ever. In every reachable state of the page a pane of the mounted dashboard that
  shows as loading has a request or a retry delay of this dashboard under way, in its first to third
  attempt; progress and queue of Load All are shown only while such a run goes on, a busy login or console
  has a request out; and the cache holds at most twenty repeaters, none with a loading pane.
\<close>

theorem dashboard_never_stuck:
  assumes "s = fold (dash_step tr) es (dash_init st)" and "db_mounted s"
  shows "(\<forall>pane. ps_loading (db_paneStates s pane) \<longrightarrow>
       (\<exists>t \<in> set (db_tasks s). alive s t \<and> tk_pane t = pane \<and> 1 \<le> tk_attempt t \<and> tk_attempt t \<le> 3)) \<and>
     (db_loadAllProgress s \<noteq> None \<or> db_queuedPanes s \<noteq> [] \<longrightarrow> load_all_running s) \<and>
     (db_loginLoading s \<longrightarrow> (\<exists>l \<in> set (db_logins s). lt_instance l = db_instance s)) \<and>
     (db_consoleLoading s \<longrightarrow> (\<exists>c \<in> set (db_commands s). ct_instance c = db_instance s)) \<and>
     length (db_cache s) \<le> 20 \<and> jm_all (\<lambda>k e. \<forall>pane. \<not> ps_loading (de_paneStates e pane)) (db_cache s)"
proof -
  have "dash_inv s" using reachable_dash assms(1) by simp
  then show ?thesis using assms(2)
    by (simp add: dash_inv_def panes_inv_def hook_inv_def cache_inv_def task_ok_def pane_running_def list_all_iff list_ex_iff
        MAX_CACHED_REPEATERS_def MAX_RETRIES_def) auto
qed

definition repeater_contact :: "string \<Rightarrow> conversation option" where
  "repeater_contact key = Some \<lparr>conv_type = ConvContact, conv_id = key, conv_name = key, conv_mapFocusKey = None, conv_locateKey = None\<rparr>"

definition plain_texts :: translation where
  "plain_texts key params = key"

theorem dashboard_never_stuck_witness:
  "let s = fold (dash_step plain_texts) [DMount (repeater_contact ''ab'') 0, DAction (ARefresh True PAcl), DAnswer 0 (Inl (PlainError ''x'')) 5, DRetry 0]
         (dash_init no_storage)
   in ps_loading (db_paneStates s PAcl) \<and> (\<exists>t \<in> set (db_tasks s). alive s t \<and> tk_pane t = PAcl \<and> 1 \<le> tk_attempt t \<and> tk_attempt t \<le> 3)"
proof -
  let ?es = "[DMount (repeater_contact ''ab'') 0, DAction (ARefresh True PAcl), DAnswer 0 (Inl (PlainError ''x'')) 5, DRetry 0]"
  let ?s = "fold (dash_step plain_texts) ?es (dash_init no_storage)"
  have "db_mounted ?s" "ps_loading (db_paneStates ?s PAcl)" by code_simp+
  then show ?thesis using dashboard_never_stuck [of ?s plain_texts ?es no_storage] unfolding Let_def by blast
qed

text \<open>
  C26: Load All ends. From any reachable state in which no pane is being fetched, whatever the server answers, a
  Load All run makes at most thirty requests, nine panes and a prefetch of three attempts each, and is
  over after at most fifty answers and delays.
\<close>

theorem load_all_bounded:
  assumes "s = fold (dash_step tr) es (dash_init st)" and "db_mounted s" and "db_tasks s = []"
    and "admissible resumes (dash_step tr) (loadAll loc s) es'"
  shows "length es' \<le> 50 \<and> length (db_calls (fold (dash_step tr) es' (loadAll loc s))) \<le> length (db_calls s) + 30 \<and>
     (length es' = 50 \<longrightarrow> db_tasks (fold (dash_step tr) es' (loadAll loc s)) = [])"
proof -
  let ?s = "loadAll loc s" and ?fin = "fold (dash_step tr) es' (loadAll loc s)"
  let ?q = "load_all_progress 0 (markQueued LOAD_ALL_PANES (s\<lparr>db_cancelLoadAll := False, db_queuedPanes := LOAD_ALL_PANES\<rparr>))"
  have inv: "dash_inv ?s" using reachable_dash assms(1) load_all_action_inv by simp
  have q: "db_tasks ?q = []" "db_calls ?q = db_calls s" using assms(3) by (simp_all add: pane_defs)
  have "runs_from 0 loc \<le> 10" by (simp add: runs_from_def LOAD_ALL_PANES_def pane_runs_def)
  moreover have "dash_rank ?q = 0" "call_budget ?q = length (db_calls s)" using q by (simp_all add: dash_rank_def call_budget_def)
  ultimately have budget: "dash_rank ?s \<le> 50" "call_budget ?s \<le> length (db_calls s) + 30"
    using rank.load_all_budget [of loc 0 ?q] calls.load_all_budget [of loc 0 ?q] unfolding loadAll_def by linarith+
  have run: "length es' + dash_rank ?fin \<le> 50" "length (db_calls ?fin) \<le> length (db_calls s) + 30"
    using drain [OF inv assms(4)] budget by (simp_all add: call_budget_def)
  moreover have "db_tasks ?fin = []" if "dash_rank ?fin = 0"
  proof -
    have "dash_inv ?fin" using dash_machine.run_inv [OF inv] by (simp add: list_all_iff)
    then have "1 \<le> task_rank t" if "t \<in> set (db_tasks ?fin)" for t
      using that by (cases "tk_phase t") (fastforce simp: dash_inv_def panes_inv_def task_ok_def list_all_iff task_rank_def)+
    then show ?thesis using that by (fastforce simp: dash_rank_def neq_Nil_conv)
  qed
  ultimately show ?thesis by auto
qed

lemma load_all_starts:
  assumes "db_mounted s" and "db_conversation s = Some k"
  shows "db_tasks (loadAll loc s) = db_tasks s @
    [\<lparr>tk_instance = db_instance s, tk_key = k, tk_pane = PStatus, tk_attempt = 1, tk_phase = Fetching, tk_cont = KAll 0 loc\<rparr>]"
  using assms load_all_from.simps [of loc 0] by (simp add: loadAll_def refreshPane_def load_all_next_def pane_defs LOAD_ALL_PANES_def)

theorem load_all_bounded_witness:
  "let s = fold (dash_step plain_texts) [DMount (repeater_contact ''ab'') 0] (dash_init no_storage);
       es' = [DAnswer 0 (Inl (ApiFailure ''no'' 422 None)) 1]
   in admissible resumes (dash_step plain_texts) (loadAll False s) es' \<and>
      length (db_calls (fold (dash_step plain_texts) es' (loadAll False s))) \<le> 30"
proof -
  let ?es = "[DMount (repeater_contact ''ab'') 0]"
  let ?s = "fold (dash_step plain_texts) ?es (dash_init no_storage)"
  let ?es' = "[DAnswer 0 (Inl (ApiFailure ''no'' 422 None)) 1]"
  have s: "db_mounted ?s" "db_tasks ?s = []" "db_calls ?s = []" "db_conversation ?s = Some ''ab''" by code_simp+
  then have adm: "admissible resumes (dash_step plain_texts) (loadAll False ?s) ?es'"
    by (simp del: fold_simps add: load_all_starts)
  from load_all_bounded [OF refl s(1, 2) adm] adm s(3) show ?thesis unfolding Let_def by simp
qed



text \<open>What mounting finds in the cache.\<close>

lemma mount_restores:
  assumes "cache_inv (db_cache s)" and "key \<noteq> []" and "jm_get (db_cache s) key = Some e"
  shows "cache_entry (dash_mount (repeater_contact key) now s) = e"
proof -
  have k: "or_null (Some key) = Some key" using assms(2) by (simp add: or_null_def)
  have "\<not> ps_loading (de_paneStates e pane)" for pane using assms by (auto simp: cache_inv_def dest: jm_all_get)
  then have "snd (getCachedState (Some key) now s) = Some e" using getCachedState_eqs(2) [OF k assms(3)] normal_same by simp
  then have "cache_entry (initial_state (Some key) now s) = e"
    by (simp add: initial_state_def split_beta cache_entry_def)
  then show ?thesis
    by (simp add: dash_mount_def repeater_contact_def k save_fields Let_def) (simp add: cache_entry_def)
qed

lemma committed:
  assumes "dash_inv s" and "db_mounted s" and "db_conversation s = Some key"
  shows "jm_get (db_cache (dash_commit now s)) key = Some (normal_entry (cache_entry s))"
proof -
  have inv: "dash_inv (dash_commit now s)" using assms(1) by (rule commit_inv)
  define s1 where "s1 = fst (getCachedState (db_conversation s) now s)"
  have s1: "cache_entry s1 = cache_entry s" "db_mounted s1 = db_mounted s" "db_conversation s1 = db_conversation s"
    unfolding s1_def
    by (cases "or_null (db_conversation s)"; cases "jm_get (db_cache s) (the (or_null (db_conversation s)))",
        simp_all add: getCachedState_eqs cache_entry_def)+
  have c: "dash_commit now s = (let s2 = (if db_dirty s1 then save_effect now s1 else s1)
      in s2\<lparr>db_paneDataRef := db_paneData s2, db_paneStatesRef := db_paneStates s2\<rparr>)"
    using assms(2) by (simp add: dash_commit_def s1_def Let_def)
  have "\<not> db_dirty (dash_commit now s)" by (simp add: c Let_def save_fields)
  moreover have "cache_entry (dash_commit now s) = cache_entry s" "db_mounted (dash_commit now s)"
    "db_conversation (dash_commit now s) = Some key"
    using s1 assms by (simp_all add: c Let_def save_fields) (simp add: cache_entry_def save_panes, metis cache_entry_fields save_fields(4))
  ultimately show ?thesis using inv by (simp add: dash_inv_def hook_inv_def)
qed

text \<open>
  C28: The dashboard reopens as it was left. When the state of a dashboard has been rendered and the user leaves it
  and comes back, the login state, every value, the state of every pane and the console are as they were,
  except that no pane is loading.
\<close>

theorem dashboard_reopens:
  assumes "s = fold (dash_step tr) es (dash_init st)" and "db_mounted s" and "db_conversation s = Some key"
  shows "cache_entry (fold (dash_step tr) [DCommit now, DUnmount, DMount (repeater_contact key) now'] s) =
    (cache_entry s)\<lparr>de_paneStates := \<lambda>pane. (db_paneStates s pane)\<lparr>ps_loading := False\<rparr>\<rparr>"
proof -
  have inv: "dash_inv s" using reachable_dash assms(1) by simp
  then have "dash_inv (dash_unmount (dash_commit now s))" by (intro unmount_inv commit_inv)
  moreover have "key \<noteq> []" using inv assms(3) by (auto simp: dash_inv_def hook_inv_def)
  moreover have "jm_get (db_cache (dash_unmount (dash_commit now s))) key = Some (normal_entry (cache_entry s))"
    using committed [OF inv assms(2, 3)] by (simp add: dash_unmount_def)
  ultimately have "cache_entry (dash_mount (repeater_contact key) now' (dash_unmount (dash_commit now s))) = normal_entry (cache_entry s)"
    by (intro mount_restores) (simp_all add: dash_inv_def hook_inv_def)
  then show ?thesis by (simp add: normal_entry_def normalizePaneStates_def cache_entry_def)
qed

theorem dashboard_reopens_witness:
  "let s = fold (dash_step plain_texts) [DMount (repeater_contact ''ab'') 0, DAction (ARefresh True PAcl), DAnswer 0 (Inr (JBool True)) 5,
          DAction (ARefresh True PAcl)] (dash_init no_storage);
       s' = fold (dash_step plain_texts) [DCommit 6, DUnmount, DMount (repeater_contact ''ab'') 7] s
   in ps_loading (db_paneStates s PAcl) \<and> de_paneData (cache_entry s') PAcl = Some (JBool True)"
proof -
  let ?es = "[DMount (repeater_contact ''ab'') 0, DAction (ARefresh True PAcl), DAnswer 0 (Inr (JBool True)) 5, DAction (ARefresh True PAcl)]"
  let ?s = "fold (dash_step plain_texts) ?es (dash_init no_storage)"
  have s: "db_mounted ?s" "db_conversation ?s = Some ''ab''" "ps_loading (db_paneStates ?s PAcl)"
    "de_paneData (cache_entry ?s) PAcl = Some (JBool True)" by code_simp+
  then show ?thesis using dashboard_reopens [OF refl s(1, 2), of 6 7] unfolding Let_def by (simp del: fold_simps)
qed

text \<open>What mounting finds in the storage when the cache is empty.\<close>

lemma mount_reloads:
  assumes "writable st" and "key \<noteq> []" and "now' - now \<le> DASHBOARD_TTL_MS"
    and "st' = saveStoredConsoleHistory key h (persistDashboard (Some key) l d p now st)"
  shows "cache_entry (dash_mount (repeater_contact key) now' (dash_init st')) =
    \<lparr>de_loggedIn = l, de_loginError = None, de_lastLoginAttempt = None, de_paneData = d, de_paneStates = normalizePaneStates p,
     de_consoleHistory = drop (length h - MAX_STORED_CONSOLE_ENTRIES) h\<rparr>"
proof -
  have k: "or_null (Some key) = Some key" using assms(2) by (simp add: or_null_def)
  let ?st = "persistDashboard (Some key) l d p now st"
  have w: "writable ?st" "st_dashboards st' = st_dashboards ?st" "st_available st' = st_available ?st"
    using assms(1, 2) by (simp_all add: assms(4) persistDashboard_def saveStoredConsoleHistory_def or_null_def writable_def)
  have "loadPersistedDashboard (Some key) now' st' = (st', Some (l, d, p))"
    using assms w by (simp add: loadPersistedDashboard_def persistDashboard_def k writable_def)
  moreover have "loadStoredConsoleHistory key st' = drop (length h - MAX_STORED_CONSOLE_ENTRIES) h"
    unfolding assms(4) by (rule console_saved [OF w(1)])
  ultimately have "cache_entry (initial_state (Some key) now' (dash_init st')) =
    \<lparr>de_loggedIn = l, de_loginError = None, de_lastLoginAttempt = None, de_paneData = d, de_paneStates = normalizePaneStates p,
     de_consoleHistory = drop (length h - MAX_STORED_CONSOLE_ENTRIES) h\<rparr>"
    using getCachedState_eqs(3) [OF k, of "dash_init st'" now']
    by (simp add: initial_state_def cache_entry_def normal_entry_def dash_init_def jm_get_def)
  then show ?thesis
    by (simp add: dash_mount_def repeater_contact_def k save_fields Let_def) (simp add: cache_entry_def)
qed



section \<open>Deviations\<close>

text \<open>
  Leaving the dashboard during a Load All run keeps the marks of the queued panes: when it is opened again
  they are shown as queued although no run goes on.
\<close>

lemma queued_survives_leaving:
  assumes "dash_inv s" and "db_mounted s" and "db_conversation s = Some key"
  shows "ps_queued (db_paneStates (fold (dash_step tr) [DAction (ALoadAll loc), DCommit now, DUnmount, DMount (repeater_contact key) now'] s) PRegions)"
    and "\<not> load_all_running (fold (dash_step tr) [DAction (ALoadAll loc), DCommit now, DUnmount, DMount (repeater_contact key) now'] s)"
proof -
  let ?l = "loadAll loc s"
  let ?u = "dash_unmount (dash_commit now ?l)"
  let ?m = "dash_mount (repeater_contact key) now' ?u"
  have l: "dash_inv ?l" "db_mounted ?l" "db_conversation ?l = Some key"
    using load_all_action_inv [OF assms(1)] assms load_all_same
    by (simp_all add: loadAll_def same_hook_def pane_defs)
  have u: "dash_inv ?u" using l(1) by (intro unmount_inv commit_inv)
  have key: "key \<noteq> []" using assms by (auto simp: dash_inv_def hook_inv_def)
  have "jm_get (db_cache ?u) key = Some (normal_entry (cache_entry ?l))" using committed [OF l] by (simp add: dash_unmount_def)
  then have "cache_entry ?m = normal_entry (cache_entry ?l)" using u key by (intro mount_restores) (simp_all add: dash_inv_def hook_inv_def)
  then have "db_paneStates ?m = normalizePaneStates (db_paneStates ?l)" by (simp add: cache_entry_def normal_entry_def)
  moreover have "ps_queued (db_paneStates ?l PRegions)"
    using assms(2, 3) load_all_from.simps [of loc 0]
    by (simp add: loadAll_def refreshPane_def load_all_next_def pane_defs LOAD_ALL_PANES_def)
  ultimately show "ps_queued (db_paneStates (fold (dash_step tr) [DAction (ALoadAll loc), DCommit now, DUnmount, DMount (repeater_contact key) now'] s) PRegions)"
    using assms(2) by (simp add: normalizePaneStates_def)
  have "list_all (task_ok ?u) (db_tasks ?u)" using u by (simp add: dash_inv_def panes_inv_def)
  moreover have "db_tasks ?m = db_tasks ?u" "db_instance ?m = db_instance ?u + 1"
    using initial_state_facts(5) u by (simp_all add: dash_mount_def Let_def save_fields dash_inv_def hook_inv_def)
  ultimately have "\<not> load_all_running ?m"
    by (auto simp: load_all_running_def alive_def task_ok_def list_all_iff list_ex_iff)
  then show "\<not> load_all_running (fold (dash_step tr) [DAction (ALoadAll loc), DCommit now, DUnmount, DMount (repeater_contact key) now'] s)"
    using assms(2) by simp
qed

text \<open>
  The session is to be forgotten after twelve hours, but the stored dashboard is asked first and keeps the
  login for a day from the last time it was shown.
\<close>

definition logged_in_run :: "dash" where
  "logged_in_run = fold (dash_step plain_texts)
     [DMount (repeater_contact ''ab'') 0, DAction (ALogin ''pw''),
      DLoginAnswer 0 (Inr \<lparr>lr_status = ''ok'', lr_authenticated = True, lr_message = None\<rparr>) 0, DCommit 0, DReload] (dash_init no_storage)"

lemma session_outlives_limit:
  "\<not> snd (hasRememberedRepeaterSession (Some ''ab'') (13 * 3600000) (db_storage logged_in_run))"
  "db_loggedIn (dash_step plain_texts (DMount (repeater_contact ''ab'') (13 * 3600000)) logged_in_run)"
  by code_simp+

end
