(* ===== verification/Reactions.thy ===== *)
theory Reactions
  imports JsRuntime
begin

unbundle bit_operations_syntax

text \<open>
  Emoji reactions (\<^verbatim>\<open>utils/meshcoreOpenPayloads.ts\<close>, the reaction half, and the attaching of reactions in
  \<^verbatim>\<open>components/MessageList.tsx\<close>). A reaction is an ordinary message \<^verbatim>\<open>r:hash:index\<close>: the hash names the message it is
  for, the index an emoji of a fixed table.

  Texts are lists of the 16-bit units of a JavaScript string, since the hash runs over them and the emojis
  lie outside the Latin characters. Numbers are integers; the bitwise operators convert their operands to 32
  bits and give a signed result, except \<^verbatim>\<open>>>>\<close>, which gives an unsigned one. A regular expression is written
  out as the test and the groups it makes.
\<close>

section \<open>Texts\<close>

type_synonym utf16 = "16 word list"

definition u16 :: "string \<Rightarrow> utf16" where
  "u16 s = map (\<lambda>c. word_of_nat (of_char c)) s"

text \<open>White space and line ends, as \<^verbatim>\<open>trim\<close> and \<^verbatim>\<open>\s\<close> know them.\<close>

definition unit_space :: "16 word \<Rightarrow> bool" where
  "unit_space w \<longleftrightarrow>
     w \<in> set [9, 10, 11, 12, 13, 32, 160, 5760, 8232, 8233, 8239, 8287, 12288, 65279] \<or> (8192 \<le> w \<and> w \<le> 8202)"

definition u_trim :: "utf16 \<Rightarrow> utf16" where
  "u_trim t = rev (dropWhile unit_space (rev (dropWhile unit_space t)))"

fun index_of :: "'a list \<Rightarrow> 'a list \<Rightarrow> nat option" where
  "index_of pat [] = (if pat = [] then Some 0 else None)"
| "index_of pat (x # xs) = (if take (length pat) (x # xs) = pat then Some 0 else map_option Suc (index_of pat xs))"

fun split_on :: "'a \<Rightarrow> 'a list \<Rightarrow> 'a list list" where
  "split_on c [] = [[]]"
| "split_on c (x # xs) =
     (case split_on c xs of
        [] \<Rightarrow> [[x]]
      | w # ws \<Rightarrow> if x = c then [] # w # ws else (x # w) # ws)"

definition u_null :: "utf16 option \<Rightarrow> utf16 option" where
  "u_null t = (case t of Some [] \<Rightarrow> None | _ \<Rightarrow> t)"

definition parseSenderFromText :: "utf16 \<Rightarrow> utf16 option \<times> utf16" where
  "parseSenderFromText txt =
     (case index_of (u16 '': '') txt of
        Some colonIndex \<Rightarrow>
          if 0 < colonIndex \<and> colonIndex < 50 \<and> hd (u16 '':'') \<notin> set (take colonIndex txt)
          then (Some (take colonIndex txt), drop (colonIndex + 2) txt)
          else (None, txt)
      | None \<Rightarrow> (None, txt))"

section \<open>The emoji table\<close>

definition QUICK_EMOJIS :: "utf16 list" where
  "QUICK_EMOJIS = [
    [0xD83D, 0xDC4D], [0x2764, 0xFE0F], [0xD83D, 0xDE02], [0xD83C, 0xDF89], [0xD83D, 0xDC4F], [0xD83D, 0xDD25]]"

definition SMILEYS :: "utf16 list" where
  "SMILEYS = [
    [0xD83D, 0xDE00], [0xD83D, 0xDE03], [0xD83D, 0xDE04], [0xD83D, 0xDE01], [0xD83D, 0xDE05],
    [0xD83D, 0xDE02], [0xD83E, 0xDD23], [0xD83D, 0xDE0A], [0xD83D, 0xDE07], [0xD83D, 0xDE42],
    [0xD83D, 0xDE43], [0xD83D, 0xDE09], [0xD83D, 0xDE0C], [0xD83D, 0xDE0D], [0xD83E, 0xDD70],
    [0xD83D, 0xDE18], [0xD83D, 0xDE17], [0xD83D, 0xDE19], [0xD83D, 0xDE1A], [0xD83D, 0xDE0B],
    [0xD83D, 0xDE1B], [0xD83D, 0xDE1D], [0xD83D, 0xDE1C], [0xD83E, 0xDD2A], [0xD83E, 0xDD28],
    [0xD83E, 0xDDD0], [0xD83E, 0xDD13], [0xD83D, 0xDE0E], [0xD83E, 0xDD78], [0xD83E, 0xDD29],
    [0xD83E, 0xDD73], [0xD83D, 0xDE0F], [0xD83D, 0xDE12], [0xD83D, 0xDE1E], [0xD83D, 0xDE14],
    [0xD83D, 0xDE1F], [0xD83D, 0xDE15], [0xD83D, 0xDE41], [0xD83D, 0xDE23], [0xD83D, 0xDE16],
    [0xD83D, 0xDE2B], [0xD83D, 0xDE29], [0xD83E, 0xDD7A], [0xD83D, 0xDE22], [0xD83D, 0xDE2D],
    [0xD83D, 0xDE24], [0xD83D, 0xDE20], [0xD83D, 0xDE21], [0xD83E, 0xDD2C], [0xD83E, 0xDD2F],
    [0xD83D, 0xDE33], [0xD83E, 0xDD75], [0xD83E, 0xDD76], [0xD83D, 0xDE31], [0xD83D, 0xDE28],
    [0xD83D, 0xDE30], [0xD83D, 0xDE25], [0xD83D, 0xDE13], [0xD83E, 0xDD17], [0xD83E, 0xDD14],
    [0xD83E, 0xDD2D], [0xD83E, 0xDD2B], [0xD83E, 0xDD25], [0xD83D, 0xDE36]]"

definition GESTURES :: "utf16 list" where
  "GESTURES = [
    [0xD83D, 0xDC4D], [0xD83D, 0xDC4E], [0xD83D, 0xDC4A], [0x270A], [0xD83E, 0xDD1B], [0xD83E, 0xDD1C],
    [0xD83E, 0xDD1E], [0x270C, 0xFE0F], [0xD83E, 0xDD1F], [0xD83E, 0xDD18], [0xD83D, 0xDC4C],
    [0xD83E, 0xDD0C], [0xD83E, 0xDD0F], [0xD83D, 0xDC48], [0xD83D, 0xDC49], [0xD83D, 0xDC46],
    [0xD83D, 0xDC47], [0x261D, 0xFE0F], [0xD83D, 0xDC4B], [0xD83E, 0xDD1A], [0xD83D, 0xDD90, 0xFE0F],
    [0x270B], [0xD83D, 0xDD96], [0xD83D, 0xDC4F], [0xD83D, 0xDE4C], [0xD83D, 0xDC50], [0xD83E, 0xDD32],
    [0xD83E, 0xDD1D], [0xD83D, 0xDE4F], [0x270D, 0xFE0F], [0xD83D, 0xDC85], [0xD83E, 0xDD33], [0xD83D, 0xDCAA]]"

definition HEARTS :: "utf16 list" where
  "HEARTS = [
    [0x2764, 0xFE0F], [0xD83E, 0xDDE1], [0xD83D, 0xDC9B], [0xD83D, 0xDC9A], [0xD83D, 0xDC99],
    [0xD83D, 0xDC9C], [0xD83D, 0xDDA4], [0xD83E, 0xDD0D], [0xD83E, 0xDD0E], [0xD83D, 0xDC94],
    [0x2764, 0xFE0F, 0x200D, 0xD83D, 0xDD25], [0x2764, 0xFE0F, 0x200D, 0xD83E, 0xDE79], [0xD83D, 0xDC95],
    [0xD83D, 0xDC9E], [0xD83D, 0xDC93], [0xD83D, 0xDC97], [0xD83D, 0xDC96], [0xD83D, 0xDC98],
    [0xD83D, 0xDC9D], [0xD83D, 0xDC9F], [0xD83D, 0xDC8C], [0xD83D, 0xDCA2], [0xD83D, 0xDCA5],
    [0xD83D, 0xDCAB], [0xD83D, 0xDCA6], [0xD83D, 0xDCA8], [0xD83D, 0xDD73, 0xFE0F], [0xD83D, 0xDCAC],
    [0xD83D, 0xDC41, 0xFE0F, 0x200D, 0xD83D, 0xDDE8, 0xFE0F], [0xD83D, 0xDDE8, 0xFE0F],
    [0xD83D, 0xDDEF, 0xFE0F], [0xD83D, 0xDCAD]]"

definition OBJECTS :: "utf16 list" where
  "OBJECTS = [
    [0xD83C, 0xDF89], [0xD83C, 0xDF8A], [0xD83C, 0xDF88], [0xD83C, 0xDF81], [0xD83C, 0xDF80],
    [0xD83E, 0xDE85], [0xD83E, 0xDE86], [0xD83C, 0xDFC6], [0xD83E, 0xDD47], [0xD83E, 0xDD48],
    [0xD83E, 0xDD49], [0x26BD], [0x26BE], [0xD83E, 0xDD4E], [0xD83C, 0xDFC0], [0xD83C, 0xDFD0],
    [0xD83C, 0xDFC8], [0xD83C, 0xDFC9], [0xD83C, 0xDFBE], [0xD83E, 0xDD4F], [0xD83C, 0xDFB3],
    [0xD83C, 0xDFCF], [0xD83C, 0xDFD1], [0xD83C, 0xDFD2], [0xD83E, 0xDD4D], [0xD83C, 0xDFD3],
    [0xD83C, 0xDFF8], [0xD83E, 0xDD4A], [0xD83E, 0xDD4B], [0xD83E, 0xDD45], [0x26F3], [0xD83D, 0xDD25],
    [0x2B50], [0xD83C, 0xDF1F], [0x2728], [0x26A1], [0xD83D, 0xDCA1], [0xD83D, 0xDD26], [0xD83C, 0xDFEE],
    [0xD83E, 0xDE94], [0xD83D, 0xDCF1], [0xD83D, 0xDCBB], [0x231A], [0xD83D, 0xDCF7], [0xD83D, 0xDCFA],
    [0xD83D, 0xDCFB], [0xD83C, 0xDFB5], [0xD83C, 0xDFB6], [0xD83D, 0xDE80]]"

definition REACTION_EMOJIS :: "utf16 list" where
  "REACTION_EMOJIS = QUICK_EMOJIS @ SMILEYS @ GESTURES @ HEARTS @ OBJECTS"

section \<open>Hashes\<close>

definition to32 :: "int \<Rightarrow> 32 word" where
  "to32 x = word_of_int x"

definition js_shl :: "int \<Rightarrow> nat \<Rightarrow> int" where
  "js_shl x n = sint (push_bit n (to32 x))"

definition js_ushr :: "int \<Rightarrow> nat \<Rightarrow> int" where
  "js_ushr x n = uint (drop_bit n (to32 x))"

definition js_xor :: "int \<Rightarrow> int \<Rightarrow> int" where
  "js_xor x y = sint (to32 x XOR to32 y)"

definition js_and :: "int \<Rightarrow> int \<Rightarrow> int" where
  "js_and x y = sint (to32 x AND to32 y)"

definition hash_unit :: "16 word \<Rightarrow> int \<Rightarrow> int" where
  "hash_unit c hash0 =
     (let hash1 = js_ushr (hash0 + uint c) 0;
          hash2 = js_ushr (hash1 + js_ushr (js_shl hash1 10) 0) 0;
          hash3 = js_xor hash2 (js_ushr hash2 6)
      in js_ushr hash3 0)"

definition dartStringHash :: "utf16 \<Rightarrow> int" where
  "dartStringHash str =
     (let hash0 = fold hash_unit str 0;
          hash1 = js_ushr (hash0 + js_ushr (js_shl hash0 3) 0) 0;
          hash2 = js_ushr (js_xor hash1 (js_ushr hash1 11)) 0;
          hash3 = js_ushr (hash2 + js_ushr (js_shl hash2 15) 0) 0;
          hash4 = js_and hash3 0x3fffffff
      in if hash4 = 0 then 1 else hash4)"

definition computeReactionHash :: "int \<Rightarrow> utf16 option \<Rightarrow> utf16 \<Rightarrow> utf16" where
  "computeReactionHash timestampSeconds senderName txt =
     (let first5 = (if 5 \<le> length txt then js_slice 0 5 txt else txt);
          input = (case senderName of
              Some name \<Rightarrow> u16 (int_to_string timestampSeconds) @ name @ first5
            | None \<Rightarrow> u16 (int_to_string timestampSeconds) @ first5)
      in u16 (pad_start 4 (CHR ''0'') (nat_to_string 16 (nat (js_and (dartStringHash input) 0xffff)))))"

section \<open>Reactions on the wire\<close>

record parsed_reaction =
  re_emoji :: utf16
  re_targetHash :: utf16
  re_targetSender :: "utf16 option"

record reaction_source =
  so_timestampSeconds :: int
  so_senderName :: "utf16 option"
  so_text :: utf16

definition unit_hex :: "16 word \<Rightarrow> nat option" where
  "unit_hex w =
     (if 48 \<le> w \<and> w \<le> 57 then Some (unat w - 48)
      else if 97 \<le> w \<and> w \<le> 102 then Some (unat w - 87)
      else None)"

definition parseReaction :: "utf16 \<Rightarrow> parsed_reaction option" where
  "parseReaction txt =
     (case u_trim txt of
        [r, c1, h1, h2, h3, h4, c2, i1, i2] \<Rightarrow>
          if [r, c1] = u16 ''r:'' \<and> [c2] = u16 '':'' \<and> list_all (\<lambda>w. unit_hex w \<noteq> None) [h1, h2, h3, h4] then
            (case (unit_hex i1, unit_hex i2) of
               (Some a, Some b) \<Rightarrow>
                 let index = 16 * a + b in
                 if length REACTION_EMOJIS \<le> index then None
                 else Some \<lparr>re_emoji = REACTION_EMOJIS ! index, re_targetHash = [h1, h2, h3, h4], re_targetSender = None\<rparr>
             | _ \<Rightarrow> None)
          else None
      | _ \<Rightarrow> None)"

fun position :: "'a \<Rightarrow> 'a list \<Rightarrow> nat option" where
  "position x [] = None"
| "position x (y # ys) = (if y = x then Some 0 else map_option Suc (position x ys))"

definition reactionEmojiIndex :: "utf16 \<Rightarrow> utf16 option" where
  "reactionEmojiIndex emoji =
     map_option (\<lambda>index. u16 (pad_start 2 (CHR ''0'') (nat_to_string 16 index))) (position emoji REACTION_EMOJIS)"

definition formatOpenReaction :: "int \<Rightarrow> utf16 option \<Rightarrow> utf16 \<Rightarrow> utf16 \<Rightarrow> utf16 option" where
  "formatOpenReaction timestampSeconds senderName txt emoji =
     map_option (\<lambda>index. u16 ''r:'' @ computeReactionHash timestampSeconds senderName txt @ u16 '':'' @ index)
       (reactionEmojiIndex emoji)"

section \<open>Other payloads around a reaction\<close>

text \<open>A mention at the start: the name in \<^verbatim>\<open>@[name]\<close> and what follows it.\<close>

definition leading_mention :: "utf16 \<Rightarrow> (utf16 \<times> utf16) option" where
  "leading_mention txt =
     (case txt of
        a # b # rest \<Rightarrow>
          if [a, b] = u16 ''@['' then
            let name = takeWhile (\<lambda>w. [w] \<noteq> u16 '']'') rest in
            (case dropWhile (\<lambda>w. [w] \<noteq> u16 '']'') rest of
               close # after \<Rightarrow> if name = [] then None else Some (name, after)
             | [] \<Rightarrow> None)
          else None
      | _ \<Rightarrow> None)"

record split_reply =
  sp_mention :: utf16
  sp_body :: utf16

definition splitReplyMention :: "utf16 \<Rightarrow> split_reply option" where
  "splitReplyMention txt =
     (case leading_mention (u_trim txt) of
        None \<Rightarrow> None
      | Some (name, after) \<Rightarrow>
          let body = dropWhile unit_space after in
          if takeWhile unit_space after = [] \<or> body = [] then None
          else Some \<lparr>sp_mention = u16 ''@['' @ name @ u16 '']'', sp_body = body\<rparr>)"

definition mc1_hash_unit :: "16 word \<Rightarrow> bool" where
  "mc1_hash_unit w \<longleftrightarrow>
     48 \<le> w \<and> w \<le> 57 \<or> (97 \<le> w \<and> w \<le> 122 \<and> w \<noteq> 117) \<or> (65 \<le> w \<and> w \<le> 90 \<and> w \<noteq> 85)"

text \<open>The emoji and the name on the first line, in either order.\<close>

definition mc1_head :: "utf16 \<Rightarrow> (utf16 \<times> utf16 option) option" where
  "mc1_head line =
     (let plain = (\<lambda>w. [w] \<noteq> u16 ''@'' \<and> [w] \<noteq> u16 ''['' \<and> [w] \<noteq> u16 '']'');
          start = takeWhile plain line;
          rest = dropWhile plain line
      in if start \<noteq> [] then
           (if rest = [] then Some (start, None)
            else case leading_mention rest of Some (name, []) \<Rightarrow> Some (start, Some name) | _ \<Rightarrow> None)
         else
           case leading_mention line of
             Some (name, after) \<Rightarrow>
               if after \<noteq> [] \<and> list_all (\<lambda>w. w \<notin> set [10, 13, 8232, 8233]) after then Some (after, Some name) else None
           | None \<Rightarrow> None)"

text \<open>\<open>pictographic\<close> stands for the Unicode property that the first character must have.\<close>

definition parseMeshCoreOneReaction :: "(utf16 \<Rightarrow> bool) \<Rightarrow> utf16 \<Rightarrow> parsed_reaction option" where
  "parseMeshCoreOneReaction pictographic txt =
     (case split_on 10 (u_trim txt) of
        [line0, line1] \<Rightarrow>
          let hash = u_trim line1 in
          if length hash = 8 \<and> list_all mc1_hash_unit hash then
            (case mc1_head (u_trim line0) of
               None \<Rightarrow> None
             | Some (head, targetSender) \<Rightarrow>
                 let emoji = u_trim head in
                 if pictographic emoji then Some \<lparr>re_emoji = emoji, re_targetHash = hash, re_targetSender = targetSender\<rparr>
                 else None)
          else None
      | _ \<Rightarrow> None)"

section \<open>Finding the target\<close>

datatype chat_kind = Priv | Chan

record chat_message =
  cm_id :: int
  cm_type :: chat_kind
  cm_sender_timestamp :: "int option"
  cm_sender_name :: "utf16 option"
  cm_text :: utf16
  cm_outgoing :: bool

definition richMessageBody :: "chat_message \<Rightarrow> utf16" where
  "richMessageBody m =
     (let content = (if cm_type m = Priv then cm_text m else snd (parseSenderFromText (cm_text m)))
      in case splitReplyMention content of Some sp \<Rightarrow> sp_body sp | None \<Rightarrow> content)"

definition reactionHashSourceFromFields :: "chat_message \<Rightarrow> reaction_source option" where
  "reactionHashSourceFromFields m =
     (case cm_sender_timestamp m of
        None \<Rightarrow> None
      | Some t \<Rightarrow>
          if cm_type m = Priv then Some \<lparr>so_timestampSeconds = t, so_senderName = None, so_text = cm_text m\<rparr>
          else
            let (sender, content) = parseSenderFromText (cm_text m) in
            Some \<lparr>so_timestampSeconds = t,
                  so_senderName = (case u_null (cm_sender_name m) of Some n \<Rightarrow> Some n | None \<Rightarrow> sender), so_text = content\<rparr>)"

definition openReactionHashSource :: "(utf16 \<Rightarrow> bool) \<Rightarrow> chat_message \<Rightarrow> reaction_source option" where
  "openReactionHashSource pictographic m =
     (if cm_sender_timestamp m = None then None
      else
        let body = richMessageBody m in
        if parseReaction body \<noteq> None \<or> parseMeshCoreOneReaction pictographic body \<noteq> None then None
        else reactionHashSourceFromFields m)"

text \<open>The loop from the newest message down, over the indexes below \<open>i\<close>.\<close>

fun find_target :: "'a list \<Rightarrow> utf16 \<Rightarrow> ('a \<Rightarrow> reaction_source option) \<Rightarrow> nat \<Rightarrow> nat option" where
  "find_target messages targetHash getSource 0 = None"
| "find_target messages targetHash getSource (Suc i) =
     (case getSource (messages ! i) of
        Some source \<Rightarrow>
          if computeReactionHash (so_timestampSeconds source) (so_senderName source) (so_text source) = targetHash then Some i
          else find_target messages targetHash getSource i
      | None \<Rightarrow> find_target messages targetHash getSource i)"

definition findOpenReactionTargetIndex :: "'a list \<Rightarrow> utf16 \<Rightarrow> ('a \<Rightarrow> reaction_source option) \<Rightarrow> nat option" where
  "findOpenReactionTargetIndex messages targetHash getSource = find_target messages targetHash getSource (length messages)"

definition attachOpenReaction ::
  "'a list \<Rightarrow> parsed_reaction + utf16 \<Rightarrow> ('a \<Rightarrow> reaction_source option) \<Rightarrow> (nat \<times> parsed_reaction) option" where
  "attachOpenReaction messages reactionOrText getSource =
     (case (case reactionOrText of Inl reaction \<Rightarrow> Some reaction | Inr txt \<Rightarrow> parseReaction txt) of
        None \<Rightarrow> None
      | Some reaction \<Rightarrow>
          map_option (\<lambda>targetIndex. (targetIndex, reaction))
            (findOpenReactionTargetIndex messages (re_targetHash reaction) getSource))"

section \<open>Reactions on screen\<close>

record attached_reaction =
  ar_emoji :: utf16
  ar_outgoing :: bool
  ar_reactorName :: "utf16 option"

text \<open>One round of the loop: the hidden messages and the reactions by target.\<close>

definition attach_one ::
  "(utf16 \<Rightarrow> bool) \<Rightarrow> chat_message list \<Rightarrow> chat_message \<Rightarrow> int list \<times> (int, attached_reaction list) jsmap \<Rightarrow>
   int list \<times> (int, attached_reaction list) jsmap" where
  "attach_one pictographic messages msg acc =
     (case parseReaction (richMessageBody msg) of
        None \<Rightarrow> acc
      | Some open_reaction \<Rightarrow>
          (case attachOpenReaction messages (Inl open_reaction) (openReactionHashSource pictographic) of
             None \<Rightarrow> acc
           | Some (targetIndex, reaction) \<Rightarrow>
               let (hidden, reactionsById) = acc;
                   targetId = cm_id (messages ! targetIndex);
                   reactions = coalesce (jm_get reactionsById targetId) [];
                   added = \<lparr>ar_emoji = re_emoji reaction, ar_outgoing = cm_outgoing msg,
                            ar_reactorName = (case u_null (cm_sender_name msg) of
                                Some n \<Rightarrow> Some n
                              | None \<Rightarrow> if cm_type msg = Chan then fst (parseSenderFromText (cm_text msg)) else None)\<rparr>
               in (js_add (cm_id msg) hidden, jm_set targetId (reactions @ [added]) reactionsById)))"

definition attachOpenReactionsAtRender ::
  "(utf16 \<Rightarrow> bool) \<Rightarrow> chat_message list \<Rightarrow> chat_message list \<times> (int, attached_reaction list) jsmap" where
  "attachOpenReactionsAtRender pictographic messages =
     (let (hidden, reactionsById) = fold (attach_one pictographic messages) messages ([], []) in
      if length hidden = 0 then (messages, reactionsById)
      else (filter (\<lambda>msg. cm_id msg \<notin> set hidden) messages, reactionsById))"

definition reactorLabel :: "attached_reaction \<Rightarrow> utf16 \<Rightarrow> utf16 \<Rightarrow> utf16" where
  "reactorLabel reactor youLabel unknownLabel =
     (if ar_outgoing reactor then youLabel
      else case u_null (ar_reactorName reactor) of Some n \<Rightarrow> n | None \<Rightarrow> unknownLabel)"

definition count_reaction :: "attached_reaction \<Rightarrow> utf16 list \<times> (utf16, nat) jsmap \<Rightarrow> utf16 list \<times> (utf16, nat) jsmap" where
  "count_reaction reaction acc =
     (let (order, counts) = acc in
      case jm_get counts (ar_emoji reaction) of
        None \<Rightarrow> (order @ [ar_emoji reaction], jm_set (ar_emoji reaction) 1 counts)
      | Some current \<Rightarrow> (order, jm_set (ar_emoji reaction) (current + 1) counts))"

definition groupReactions :: "attached_reaction list \<Rightarrow> (utf16 \<times> nat) list" where
  "groupReactions reactions =
     (let (order, counts) = fold count_reaction reactions ([], []) in
      map (\<lambda>emoji. (emoji, coalesce (jm_get counts emoji) 0)) order)"

text \<open>The wire form of a reaction the user picks for a message.\<close>

definition sendOpenReaction :: "(utf16 \<Rightarrow> bool) \<Rightarrow> chat_message \<Rightarrow> utf16 \<Rightarrow> utf16 option" where
  "sendOpenReaction pictographic target emoji =
     (case openReactionHashSource pictographic target of
        None \<Rightarrow> None
      | Some source \<Rightarrow> formatOpenReaction (so_timestampSeconds source) (so_senderName source) (so_text source) emoji)"

section \<open>The hash\<close>

text \<open>The hash of the Dart runtime on 32-bit words: combine every unit, then finalize to 30 bits.\<close>

definition combine_hash :: "16 word \<Rightarrow> 32 word \<Rightarrow> 32 word" where
  "combine_hash c h = (let h1 = h + ucast c; h2 = h1 + push_bit 10 h1 in h2 XOR drop_bit 6 h2)"

definition finalize_hash :: "32 word \<Rightarrow> 32 word" where
  "finalize_hash h =
     (let h1 = h + push_bit 3 h;
          h2 = h1 XOR drop_bit 11 h1;
          h3 = take_bit 30 (h2 + push_bit 15 h2)
      in if h3 = 0 then 1 else h3)"

definition dart_hash :: "utf16 \<Rightarrow> 32 word" where
  "dart_hash str = finalize_hash (fold combine_hash str 0)"

lemma to32_simps [simp]: "to32 (uint w) = w" "to32 (sint w) = w" "to32 (x + y) = to32 x + to32 y"
  by (simp_all add: to32_def)

lemma js_word_simps:
  fixes v w :: "32 word"
  shows "js_ushr (uint w) n = uint (drop_bit n w)" "js_ushr (sint w) n = uint (drop_bit n w)"
  "js_shl (uint w) n = sint (push_bit n w)" "js_xor (uint v) (uint w) = sint (v XOR w)"
  "js_ushr (uint v + uint w) n = uint (drop_bit n (v + w))"
  by (simp_all add: js_ushr_def js_shl_def js_xor_def)

lemma hash_unit_word: "hash_unit c (uint h) = uint (combine_hash c h)"
proof -
  have "to32 (uint c) = ucast c" by (simp add: to32_def unsigned_ucast_eq)
  then have "js_ushr (uint h + uint c) 0 = uint (h + ucast c)" by (simp add: js_ushr_def)
  then show ?thesis by (simp add: hash_unit_def combine_hash_def Let_def js_word_simps)
qed

lemma hash_units_word: "fold hash_unit str (uint h) = uint (fold combine_hash str h)"
  by (induction str arbitrary: h) (simp_all add: hash_unit_word)

lemma small_sint: "take_bit 30 (w :: 32 word) = w \<Longrightarrow> sint w = uint w"
proof -
  assume w: "take_bit 30 w = w"
  have "uint w < 2 ^ 30"
  proof -
    have "uint w = take_bit 30 (uint w)" using arg_cong [OF w, of uint] by (simp add: unsigned_take_bit_eq)
    then show ?thesis by (metis take_bit_int_less_exp)
  qed
  then have "uint w < 2 ^ 31" by (rule less_trans) simp
  moreover have "- (2 ^ 31) \<le> uint w" by (rule order_trans [of _ 0]) simp_all
  ultimately show ?thesis by (simp add: sint_uint signed_take_bit_int_eq_self)
qed

lemma dart_hash_word: "dartStringHash str = uint (dart_hash str)"
proof -
  let ?h = "fold combine_hash str 0"
  have h: "fold hash_unit str 0 = uint ?h" using hash_units_word [of str 0] by simp
  have mask: "to32 0x3fffffff = mask 30" by (simp add: to32_def mask_eq_exp_minus_1)
  have fin: "js_and (uint w) 0x3fffffff = uint (take_bit 30 w)" for w :: "32 word"
  proof -
    have "js_and (uint w) 0x3fffffff = sint (take_bit 30 w)" unfolding js_and_def mask by (simp add: take_bit_eq_mask)
    also have "\<dots> = uint (take_bit 30 w)" by (rule small_sint) simp
    finally show ?thesis .
  qed
  show ?thesis by (simp add: dartStringHash_def dart_hash_def finalize_hash_def h js_word_simps fin Let_def uint_0_iff)
qed

lemma dart_hash_range: "0 < dartStringHash str \<and> dartStringHash str < 2 ^ 30"
proof -
  have "uint (take_bit 30 w) < 2 ^ 30" for w :: "32 word"
    by (metis take_bit_int_less_exp unsigned_take_bit_eq)
  then show ?thesis
    by (auto simp: dart_hash_word dart_hash_def finalize_hash_def Let_def uint_0_iff less_le)
qed

section \<open>Reading what was written\<close>

lemma digits_bound: "1 \<le> k \<Longrightarrow> n < 16 ^ k \<Longrightarrow> length (digits_base 16 n) \<le> k \<and> list_all (\<lambda>d. d < 16) (digits_base 16 n)"
proof (induction k arbitrary: n)
  case (Suc k)
  show ?case
  proof (cases "n < 16")
    case True
    then show ?thesis by (simp add: digits_base.simps)
  next
    case False
    then have "1 \<le> k" using Suc.prems by (cases k) auto
    moreover have "n div 16 < 16 ^ k" using Suc.prems(2) by (simp add: less_mult_imp_div_less mult.commute)
    ultimately show ?thesis using Suc.IH [of "n div 16"] False by (simp add: digits_base.simps [of 16 n])
  qed
qed simp

definition hex_text4 :: "utf16 \<Rightarrow> bool" where
  "hex_text4 t \<longleftrightarrow> length t = 4 \<and> list_all (\<lambda>w. unit_hex w \<noteq> None) t"

lemma digit_unit: "d < 16 \<Longrightarrow> unit_hex (word_of_nat (of_char (hex_digit d))) = Some d"
proof -
  assume d: "d < 16"
  have u: "unat (word_of_nat n :: 16 word) = n" if "n < 256" for n using that by (simp add: unat_of_nat)
  have c: "of_char (char_of n) = n" if "n < 256" for n :: nat using that by (simp add: take_bit_nat_eq_self)
  show ?thesis
  proof (cases "d < 10")
    case True
    then show ?thesis using u [of "48 + d"] c [of "48 + d"] by (simp add: hex_digit_def unit_hex_def word_le_nat_alt)
  next
    case False
    then show ?thesis using d u [of "87 + d"] c [of "87 + d"] by (simp add: hex_digit_def unit_hex_def word_le_nat_alt)
  qed
qed

lemma zero_unit: "unit_hex (word_of_nat (of_char (CHR ''0''))) = Some 0"
  using digit_unit [of 0] by (simp add: hex_digit_def)

lemma padded_hex: "n < 65536 \<Longrightarrow> hex_text4 (u16 (pad_start 4 (CHR ''0'') (nat_to_string 16 n)))"
proof -
  assume "n < 65536"
  then have d: "length (digits_base 16 n) \<le> 4" "list_all (\<lambda>d. d < 16) (digits_base 16 n)" using digits_bound [of 4 n] by simp_all
  show ?thesis
    using d zero_unit digit_unit by (auto simp: hex_text4_def u16_def pad_start_def nat_to_string_def list_all_iff)
qed

lemma reaction_hash_text: "hex_text4 (computeReactionHash t name txt)"
proof -
  have "nat (js_and x 0xffff) < 65536" for x
  proof -
    let ?w = "to32 x AND 0xffff"
    have w: "?w = take_bit 16 (to32 x)" by (simp add: take_bit_eq_mask mask_eq_exp_minus_1)
    then have "sint ?w = uint ?w" by (intro small_sint) simp
    then have "nat (js_and x 0xffff) = unat ?w" by (simp add: js_and_def to32_def)
    also have "\<dots> < 2 ^ 16" unfolding w unsigned_take_bit_eq by (rule take_bit_nat_less_exp)
    finally show ?thesis by simp
  qed
  then show ?thesis unfolding computeReactionHash_def Let_def by (intro padded_hex)
qed

lemma position_Some: "position x xs = Some i \<Longrightarrow> i < length xs \<and> xs ! i = x"
  by (induction xs arbitrary: i) (auto split: if_splits)

lemma table_length: "length REACTION_EMOJIS = 184"
  by (simp add: REACTION_EMOJIS_def QUICK_EMOJIS_def SMILEYS_def GESTURES_def HEARTS_def OBJECTS_def)

lemma index_text:
  assumes "i < 184"
  obtains a b i1 i2 where "u16 (pad_start 2 (CHR ''0'') (nat_to_string 16 i)) = [i1, i2]" "unit_hex i1 = Some a" "unit_hex i2 = Some b" "16 * a + b = i"
proof (cases "i < 16")
  case True
  have "u16 (pad_start 2 (CHR ''0'') (nat_to_string 16 i)) = [word_of_nat (of_char (CHR ''0'')), word_of_nat (of_char (hex_digit i))]"
    using True by (simp add: u16_def pad_start_def nat_to_string_def digits_base.simps)
  then show thesis using zero_unit digit_unit [OF True] that by fastforce
next
  case False
  then have "digits_base 16 i = [i div 16, i mod 16]"
    using assms by (simp add: digits_base.simps [of 16 i] digits_base.simps [of 16 "i div 16"] less_mult_imp_div_less)
  then have "u16 (pad_start 2 (CHR ''0'') (nat_to_string 16 i)) = [word_of_nat (of_char (hex_digit (i div 16))), word_of_nat (of_char (hex_digit (i mod 16)))]"
    by (simp add: u16_def pad_start_def nat_to_string_def)
  moreover have "i div 16 < 16" using assms by (simp add: less_mult_imp_div_less)
  ultimately show thesis using digit_unit [of "i div 16"] digit_unit [of "i mod 16"] that by fastforce
qed

lemma trim_plain:
  assumes "\<not> unit_space (hd t)" and "\<not> unit_space (last t)"
  shows "u_trim t = t"
proof -
  have "dropWhile unit_space t = t" "dropWhile unit_space (rev t) = rev t"
    using assms by (simp_all add: dropWhile_eq_self_iff hd_rev)
  then show ?thesis by (simp add: u_trim_def)
qed

lemma space_unat: "unit_space w \<Longrightarrow> unat w \<le> 32 \<or> 160 \<le> unat w"
  by (auto simp: unit_space_def word_le_nat_alt)

lemma hex_not_space: "unit_hex w = Some d \<Longrightarrow> \<not> unit_space w"
  using space_unat [of w] by (auto simp: unit_hex_def word_le_nat_alt split: if_splits)

lemma parse_written:
  assumes "hex_text4 h" and "position emoji REACTION_EMOJIS = Some i"
  shows "parseReaction (u16 ''r:'' @ h @ u16 '':'' @ u16 (pad_start 2 (CHR ''0'') (nat_to_string 16 i))) =
    Some \<lparr>re_emoji = emoji, re_targetHash = h, re_targetSender = None\<rparr>"
proof -
  have i: "i < 184" "REACTION_EMOJIS ! i = emoji" using position_Some [OF assms(2)] table_length by simp_all
  obtain a b i1 i2 where idx: "u16 (pad_start 2 (CHR ''0'') (nat_to_string 16 i)) = [i1, i2]" "unit_hex i1 = Some a" "unit_hex i2 = Some b" "16 * a + b = i"
    using index_text [OF i(1)] .
  obtain h1 h2 h3 h4 where h: "h = [h1, h2, h3, h4]" using assms(1) by (auto simp: hex_text4_def length_Suc_conv numeral_eq_Suc)
  obtain r c where rc: "u16 ''r:'' = [r, c]" "\<not> unit_space r" by (simp add: u16_def unit_space_def)
  have col: "u16 '':'' = [c]" using rc by (simp add: u16_def)
  have trim: "u_trim (u16 ''r:'' @ h @ u16 '':'' @ [i1, i2]) = u16 ''r:'' @ h @ u16 '':'' @ [i1, i2]"
    using rc hex_not_space [OF idx(3)] by (intro trim_plain) (simp_all add: h)
  show ?thesis
    unfolding parseReaction_def idx(1) trim
    using idx i table_length assms(1) by (simp add: rc col h hex_text4_def Let_def)
qed

section \<open>Targets\<close>

definition source_hash :: "reaction_source \<Rightarrow> utf16" where
  "source_hash so = computeReactionHash (so_timestampSeconds so) (so_senderName so) (so_text so)"

definition has_hash :: "('a \<Rightarrow> reaction_source option) \<Rightarrow> utf16 \<Rightarrow> 'a \<Rightarrow> bool" where
  "has_hash getSource h m = (case getSource m of Some so \<Rightarrow> source_hash so = h | None \<Rightarrow> False)"

lemma find_target_Some:
  "find_target ms h g n = Some i \<Longrightarrow> i < n \<and> has_hash g h (ms ! i) \<and> (\<forall>j. i < j \<and> j < n \<longrightarrow> \<not> has_hash g h (ms ! j))"
proof (induction n)
  case (Suc n)
  show ?case
  proof (cases "has_hash g h (ms ! n)")
    case True
    then show ?thesis using Suc.prems by (auto simp: has_hash_def source_hash_def split: option.splits)
  next
    case False
    then have "find_target ms h g n = Some i" using Suc.prems by (auto simp: has_hash_def source_hash_def split: option.splits)
    then show ?thesis using Suc.IH False by (auto simp: less_Suc_eq)
  qed
qed simp

lemma find_target_exists: "j < n \<Longrightarrow> has_hash g h (ms ! j) \<Longrightarrow> \<exists>i. find_target ms h g n = Some i \<and> j \<le> i"
proof (induction n)
  case (Suc n)
  then show ?case
    by (cases "j = n") (auto simp: has_hash_def source_hash_def less_Suc_eq split: option.splits)
qed simp

text \<open>The target of a message that is a reaction to a message of the list.\<close>

definition target_of :: "(utf16 \<Rightarrow> bool) \<Rightarrow> chat_message list \<Rightarrow> chat_message \<Rightarrow> nat option" where
  "target_of pictographic messages m =
     (case parseReaction (richMessageBody m) of
        None \<Rightarrow> None
      | Some r \<Rightarrow> findOpenReactionTargetIndex messages (re_targetHash r) (openReactionHashSource pictographic))"

lemma attach_one_target:
  "target_of pic ms m = None \<Longrightarrow> attach_one pic ms m acc = acc"
  "target_of pic ms m = Some i \<Longrightarrow> \<exists>added. attach_one pic ms m acc =
     (js_add (cm_id m) (fst acc), jm_set (cm_id (ms ! i)) (coalesce (jm_get (snd acc) (cm_id (ms ! i))) [] @ [added]) (snd acc))"
  by (auto simp: attach_one_def target_of_def attachOpenReaction_def Let_def split: option.splits prod.splits)

lemma target_not_reaction:
  assumes "target_of pic ms m = Some i"
  shows "i < length ms" and "target_of pic ms (ms ! i) = None"
proof -
  obtain r :: parsed_reaction where "findOpenReactionTargetIndex ms (re_targetHash r) (openReactionHashSource pic) = Some i"
    using assms by (auto simp: target_of_def split: option.splits)
  then have i: "i < length ms" "has_hash (openReactionHashSource pic) (re_targetHash r) (ms ! i)"
    using find_target_Some by (fastforce simp: findOpenReactionTargetIndex_def)+
  then have "parseReaction (richMessageBody (ms ! i)) = None"
    by (auto simp: has_hash_def openReactionHashSource_def Let_def split: option.splits if_splits)
  with i(1) show "i < length ms" "target_of pic ms (ms ! i) = None" by (simp_all add: target_of_def)
qed

definition reaction_total :: "(int, attached_reaction list) jsmap \<Rightarrow> nat" where
  "reaction_total m = sum_list (map (\<lambda>(k, rs). length rs) m)"

lemma total_append: "jm_wf m \<Longrightarrow> reaction_total (jm_set k (coalesce (jm_get m k) [] @ [x]) m) = reaction_total m + 1"
proof -
  have cases_of: "k \<notin> set (jm_keys m) \<Longrightarrow> reaction_total (jm_set k v m) = reaction_total m + length v"
    "jm_get m k = Some old \<Longrightarrow> jm_wf m \<Longrightarrow> reaction_total (jm_set k v m) + length old = reaction_total m + length v" for v old
  proof -
    show "k \<notin> set (jm_keys m) \<Longrightarrow> reaction_total (jm_set k v m) = reaction_total m + length v"
      by (induction m rule: list.induct) (auto simp: reaction_total_def jm_keys_def)
    show "jm_get m k = Some old \<Longrightarrow> jm_wf m \<Longrightarrow> reaction_total (jm_set k v m) + length old = reaction_total m + length v"
      by (induction m rule: list.induct) (auto simp: reaction_total_def jm_get_def jm_wf_def jm_keys_def split: if_splits)
  qed
  assume wf: "jm_wf m"
  show ?thesis
  proof (cases "jm_get m k")
    case None
    then have "k \<notin> set (jm_keys m)" by (simp add: jm_get_None)
    then show ?thesis using cases_of(1) None by (simp add: coalesce_def)
  next
    case (Some old)
    then show ?thesis using cases_of(2) [OF Some wf, of "old @ [x]"] by (simp add: coalesce_def)
  qed
qed

lemma attach_fold:
  assumes "distinct (map cm_id xs)" and "jm_wf by_id" and "fold (attach_one pic ms) xs (hidden, by_id) = (hidden', by_id')"
  shows "set hidden' = set hidden \<union> cm_id ` {m \<in> set xs. target_of pic ms m \<noteq> None} \<and>
    reaction_total by_id' = reaction_total by_id + length (filter (\<lambda>m. target_of pic ms m \<noteq> None) xs) \<and>
    set (jm_keys by_id') \<subseteq> set (jm_keys by_id) \<union> (\<lambda>m. cm_id (ms ! the (target_of pic ms m))) ` {m \<in> set xs. target_of pic ms m \<noteq> None}"
  using assms
proof (induction xs arbitrary: hidden by_id)
  case (Cons m xs)
  show ?case
  proof (cases "target_of pic ms m")
    case None
    then have "{m' \<in> set (m # xs). target_of pic ms m' \<noteq> None} = {m' \<in> set xs. target_of pic ms m' \<noteq> None}" by auto
    then show ?thesis using Cons.IH [of by_id hidden] Cons.prems None attach_one_target(1) [OF None] by simp
  next
    case (Some i)
    from attach_one_target(2) [OF Some, of "(hidden, by_id)"] obtain added where
      one: "attach_one pic ms m (hidden, by_id) = (js_add (cm_id m) hidden,
        jm_set (cm_id (ms ! i)) (coalesce (jm_get by_id (cm_id (ms ! i))) [] @ [added]) by_id)" by auto
    let ?b = "jm_set (cm_id (ms ! i)) (coalesce (jm_get by_id (cm_id (ms ! i))) [] @ [added]) by_id"
    have b: "jm_wf ?b" "set (jm_keys ?b) = insert (cm_id (ms ! i)) (set (jm_keys by_id))" "reaction_total ?b = reaction_total by_id + 1"
      using Cons.prems(2) by (auto simp: total_append jm_keys_set intro: js_inv)
    have "{m' \<in> set (m # xs). target_of pic ms m' \<noteq> None} = insert m {m' \<in> set xs. target_of pic ms m' \<noteq> None}" using Some by auto
    then show ?thesis
      using Cons.IH [OF _ b(1), of "js_add (cm_id m) hidden"] Cons.prems one b(2, 3) Some by (simp add: set_js_add)
  qed
qed auto

section \<open>Properties\<close>

text \<open>
  C33: The hash is the one the other clients compute. The computation with JavaScript numbers, shifts and
  conversions gives the Dart runtime hash on 32-bit words, a number between 1 and 2 to the 30.
\<close>

theorem dart_hash_exact:
  "dartStringHash str = uint (dart_hash str) \<and> 0 < dartStringHash str \<and> dartStringHash str < 2 ^ 30"
  using dart_hash_word dart_hash_range by blast

text \<open>
  C32: A reaction reaches its message. What is sent for a message of the list with an emoji of the table is read
  as that emoji, and is attached to the newest message with the same hash: to the message itself unless
  a newer one has the same hash.
\<close>

theorem reaction_reaches_target:
  assumes "i < length messages" and "sendOpenReaction pic (messages ! i) emoji = Some wire"
  shows "\<exists>j reaction. attachOpenReaction messages (Inr wire) (openReactionHashSource pic) = Some (j, reaction) \<and>
     re_emoji reaction = emoji \<and> i \<le> j \<and> j < length messages \<and>
     has_hash (openReactionHashSource pic) (re_targetHash reaction) (messages ! i) \<and>
     has_hash (openReactionHashSource pic) (re_targetHash reaction) (messages ! j) \<and>
     ((\<forall>k. i < k \<and> k < length messages \<longrightarrow> \<not> has_hash (openReactionHashSource pic) (re_targetHash reaction) (messages ! k)) \<longrightarrow> j = i)"
proof -
  obtain so where so: "openReactionHashSource pic (messages ! i) = Some so"
    and fmt: "formatOpenReaction (so_timestampSeconds so) (so_senderName so) (so_text so) emoji = Some wire"
    using assms(2) by (auto simp: sendOpenReaction_def split: option.splits)
  let ?h = "source_hash so" and ?g = "openReactionHashSource pic"
  obtain n where n: "position emoji REACTION_EMOJIS = Some n"
    and wire: "wire = u16 ''r:'' @ ?h @ u16 '':'' @ u16 (pad_start 2 (CHR ''0'') (nat_to_string 16 n))"
    using fmt by (auto simp: formatOpenReaction_def reactionEmojiIndex_def source_hash_def)
  have "hex_text4 ?h" unfolding source_hash_def by (rule reaction_hash_text)
  from parse_written [OF this n] have parsed: "parseReaction wire = Some \<lparr>re_emoji = emoji, re_targetHash = ?h, re_targetSender = None\<rparr>"
    by (simp add: wire)
  have own: "has_hash ?g ?h (messages ! i)" using so by (simp add: has_hash_def)
  obtain j where j: "find_target messages ?h ?g (length messages) = Some j" "i \<le> j" using find_target_exists [OF assms(1) own] by blast
  note found = find_target_Some [OF j(1)]
  have "j = i" if "\<forall>k. i < k \<and> k < length messages \<longrightarrow> \<not> has_hash ?g ?h (messages ! k)"
    using that found j(2) by (metis le_neq_implies_less)
  then show ?thesis using parsed j found own by (simp add: attachOpenReaction_def findOpenReactionTargetIndex_def)
qed

text \<open>
  C31: No reaction is lost. For messages with different ids, every message is either shown or counted as exactly
  one attached reaction, in the order of the list, and reactions are attached to messages that are shown.
\<close>

theorem reactions_never_lost:
  assumes "distinct (map cm_id messages)" and "attachOpenReactionsAtRender pic messages = (shown, by_id)"
  shows "shown = filter (\<lambda>m. target_of pic messages m = None) messages \<and>
     length shown + reaction_total by_id = length messages \<and> set (jm_keys by_id) \<subseteq> cm_id ` set shown"
proof -
  let ?t = "target_of pic messages"
  obtain hidden by' where f: "fold (attach_one pic messages) messages ([], []) = (hidden, by')"
    by (cases "fold (attach_one pic messages) messages ([], [])")
  have facts: "set hidden = cm_id ` {m \<in> set messages. ?t m \<noteq> None}"
    "reaction_total by' = length (filter (\<lambda>m. ?t m \<noteq> None) messages)"
    "set (jm_keys by') \<subseteq> (\<lambda>m. cm_id (messages ! the (?t m))) ` {m \<in> set messages. ?t m \<noteq> None}"
    using attach_fold [OF assms(1) _ f] by (simp_all add: reaction_total_def jm_wf_def)
  have hid: "cm_id m \<in> set hidden \<longleftrightarrow> ?t m \<noteq> None" if "m \<in> set messages" for m
    using that facts(1) assms(1) by (auto simp: distinct_map dest: inj_onD)
  have by_id: "by_id = by'" and shown: "shown = filter (\<lambda>m. ?t m = None) messages"
  proof -
    have "filter (\<lambda>m. cm_id m \<notin> set hidden) messages = filter (\<lambda>m. ?t m = None) messages"
      using hid by (intro filter_cong) auto
    moreover have "filter (\<lambda>m. cm_id m \<notin> set hidden) messages = messages" if "length hidden = 0" using that by simp
    ultimately show "by_id = by'" "shown = filter (\<lambda>m. ?t m = None) messages"
      using assms(2) f by (auto simp: attachOpenReactionsAtRender_def Let_def split: if_splits)
  qed
  moreover have "length shown + reaction_total by_id = length messages"
    using sum_length_filter_compl [of "\<lambda>m. ?t m = None" messages] facts(2) by_id shown by simp
  moreover have "set (jm_keys by_id) \<subseteq> cm_id ` set shown"
    using facts(3) target_not_reaction by (fastforce simp: by_id shown)
  ultimately show ?thesis by blast
qed

definition sample_chat :: "chat_message list" where
  "sample_chat =
     [\<lparr>cm_id = 1, cm_type = Chan, cm_sender_timestamp = Some 7, cm_sender_name = None, cm_text = u16 ''Al: hello'', cm_outgoing = False\<rparr>]"

definition no_pictographs :: "utf16 \<Rightarrow> bool" where
  "no_pictographs t = False"

lemma sample_source:
  "openReactionHashSource no_pictographs (sample_chat ! 0) =
     Some \<lparr>so_timestampSeconds = 7, so_senderName = Some (u16 ''Al''), so_text = u16 ''hello''\<rparr>"
  by code_simp

theorem reaction_reaches_target_witness:
  "\<exists>wire j reaction. sendOpenReaction no_pictographs (sample_chat ! 0) [0x2764, 0xFE0F] = Some wire \<and>
     attachOpenReaction sample_chat (Inr wire) (openReactionHashSource no_pictographs) = Some (j, reaction) \<and>
     re_emoji reaction = [0x2764, 0xFE0F]"
proof -
  have "position [0x2764, 0xFE0F] REACTION_EMOJIS = Some 1" by (simp add: REACTION_EMOJIS_def QUICK_EMOJIS_def)
  then obtain wire where wire: "sendOpenReaction no_pictographs (sample_chat ! 0) [0x2764, 0xFE0F] = Some wire"
    unfolding sendOpenReaction_def sample_source by (simp add: formatOpenReaction_def reactionEmojiIndex_def)
  moreover have "0 < length sample_chat" by (simp add: sample_chat_def)
  ultimately show ?thesis using reaction_reaches_target [of 0 sample_chat no_pictographs "[0x2764, 0xFE0F]" wire] by blast
qed

theorem reactions_never_lost_witness:
  "let r = attachOpenReactionsAtRender no_pictographs (sample_chat @ [(sample_chat ! 0)\<lparr>cm_id := 2, cm_text := u16 ''Bo: r:90fd:00''\<rparr>])
   in length (fst r) + reaction_total (snd r) = 2"
  using reactions_never_lost [of "sample_chat @ [(sample_chat ! 0)\<lparr>cm_id := 2, cm_text := u16 ''Bo: r:90fd:00''\<rparr>]" no_pictographs]
  by (cases "attachOpenReactionsAtRender no_pictographs (sample_chat @ [(sample_chat ! 0)\<lparr>cm_id := 2, cm_text := u16 ''Bo: r:90fd:00''\<rparr>])")
    (simp add: sample_chat_def)

text \<open>
  The badges under a message: every emoji once, in the order of its first reaction, with the number of
  its reactions.
\<close>

lemma count_fold:
  assumes "fold count_reaction rs (order, counts) = (order', counts')" and "\<And>e. jm_get counts e \<noteq> None \<longleftrightarrow> e \<in> set order"
  shows "(\<forall>e. coalesce (jm_get counts' e) 0 = coalesce (jm_get counts e) 0 + length (filter (\<lambda>r. ar_emoji r = e) rs)) \<and>
    set order' = set order \<union> ar_emoji ` set rs \<and> (distinct order \<longrightarrow> distinct order')"
  using assms
proof (induction rs arbitrary: order counts)
  case (Cons r rs)
  obtain o1 c1 where one: "count_reaction r (order, counts) = (o1, c1)" by (cases "count_reaction r (order, counts)")
  have c1: "coalesce (jm_get c1 e) 0 = coalesce (jm_get counts e) 0 + (if ar_emoji r = e then 1 else 0)" for e
    using one by (auto simp: count_reaction_def jm_get_set coalesce_def split: option.splits)
  have known: "ar_emoji r \<in> set order \<longleftrightarrow> jm_get counts (ar_emoji r) \<noteq> None" using Cons.prems(2) by blast
  have o1: "set o1 = insert (ar_emoji r) (set order)" "distinct order \<longrightarrow> distinct o1"
    using one known by (auto simp: count_reaction_def split: option.splits)
  have g1: "jm_get c1 e \<noteq> None \<longleftrightarrow> e \<in> set o1" for e
  proof -
    have "jm_get c1 e \<noteq> None \<longleftrightarrow> e = ar_emoji r \<or> jm_get counts e \<noteq> None"
      using one by (auto simp: count_reaction_def jm_get_set split: option.splits)
    then show ?thesis using Cons.prems(2) [of e] o1(1) by blast
  qed
  have "(\<forall>e. coalesce (jm_get counts' e) 0 = coalesce (jm_get c1 e) 0 + length (filter (\<lambda>r. ar_emoji r = e) rs)) \<and>
      set order' = set o1 \<union> ar_emoji ` set rs \<and> (distinct o1 \<longrightarrow> distinct order')"
    using Cons.prems(1) one g1 by (intro Cons.IH) simp_all
  then show ?case using o1 c1 by auto
qed simp

lemma groups_exact:
  "distinct (map fst (groupReactions rs)) \<and> set (map fst (groupReactions rs)) = ar_emoji ` set rs \<and>
   list_all (\<lambda>(e, n). n = length (filter (\<lambda>r. ar_emoji r = e) rs)) (groupReactions rs)"
proof -
  obtain order counts where f: "fold count_reaction rs ([], []) = (order, counts)" by (cases "fold count_reaction rs ([], [])")
  from count_fold [OF f] have "(\<forall>e. coalesce (jm_get counts e) 0 = length (filter (\<lambda>r. ar_emoji r = e) rs)) \<and>
      set order = ar_emoji ` set rs \<and> distinct order"
    by (simp add: coalesce_def)
  then show ?thesis by (auto simp: groupReactions_def f list_all_iff comp_def)
qed

end
